(* ===== verification/Prelude.thy ===== *)
theory Prelude
  imports Complex_Main "HOL-Library.AList"
begin

text \<open>
  Shared vocabulary of the development: Python dictionaries as insertion-ordered association
  lists, the string operations the sources use (\<open>str.split\<close>, \<open>str.startswith\<close>,
  \<open>str.endswith\<close>, decimal printing and \<open>int(...)\<close>), the error monad for code that
  raises, and the lemma collections the component theories extend.
\<close>

named_theorems dict_simps \<open>reading a dictionary after an update\<close>
named_theorems err_simps \<open>the error monad of pure, raising code\<close>

section \<open>Dictionaries\<close>

text \<open>
  A Python \<open>dict\<close> iterates in insertion order and assigning an existing key keeps its place:
  an association list, read with \<open>map_of\<close>, written with \<open>AList.update\<close> (which replaces in
  place or appends) and deleted from with \<open>AList.delete\<close> (\<open>dict.pop(k, None)\<close>).
\<close>

type_synonym ('k, 'v) dict = "('k \<times> 'v) list"

abbreviation dict_get :: "('k, 'v) dict \<Rightarrow> 'k \<Rightarrow> 'v option" where
  "dict_get d k \<equiv> map_of d k"

abbreviation dict_set :: "'k \<Rightarrow> 'v \<Rightarrow> ('k, 'v) dict \<Rightarrow> ('k, 'v) dict" where
  "dict_set \<equiv> AList.update"

abbreviation dict_pop :: "'k \<Rightarrow> ('k, 'v) dict \<Rightarrow> ('k, 'v) dict" where
  "dict_pop \<equiv> AList.delete"

abbreviation dict_keys :: "('k, 'v) dict \<Rightarrow> 'k list" where
  "dict_keys d \<equiv> map fst d"

text \<open>A dict comprehension that keeps the entries whose key passes a test.\<close>

definition dict_filter :: "('k \<Rightarrow> bool) \<Rightarrow> ('k, 'v) dict \<Rightarrow> ('k, 'v) dict" where
  "dict_filter P d = filter (\<lambda>(k, _). P k) d"

text \<open>Python's \<open>d.get(k, default)\<close>.\<close>

definition get_default :: "'v \<Rightarrow> ('k, 'v) dict \<Rightarrow> 'k \<Rightarrow> 'v" where
  "get_default v d k = (case dict_get d k of None \<Rightarrow> v | Some x \<Rightarrow> x)"

lemma dict_get_set [simp, dict_simps]:
  "dict_get (dict_set k v d) k' = (if k' = k then Some v else dict_get d k')"
  by (simp add: AList.update_conv')

lemma dict_get_pop [simp, dict_simps]:
  "dict_get (dict_pop k d) k' = (if k' = k then None else dict_get d k')"
  by (simp add: AList.delete_conv')

lemma dict_get_filter [simp, dict_simps]:
  "dict_get (dict_filter P d) k = (if P k then dict_get d k else None)"
  by (induction d) (auto simp: dict_filter_def)

lemma get_default_set [simp, dict_simps]:
  "get_default x (dict_set k v d) k' = (if k' = k then v else get_default x d k')"
  by (simp add: get_default_def)

lemma get_default_pop [simp, dict_simps]:
  "get_default x (dict_pop k d) k' = (if k' = k then x else get_default x d k')"
  by (simp add: get_default_def)

lemma get_default_filter [simp, dict_simps]:
  "get_default x (dict_filter P d) k = (if P k then get_default x d k else x)"
  by (simp add: get_default_def)

lemma set_dict_keys_set [simp]: "set (dict_keys (dict_set k v d)) = insert k (set (dict_keys d))"
  using AList.dom_update [of k v d] by simp

lemma fst_set_dict_set [simp]: "fst ` set (dict_set k v d) = insert k (fst ` set d)"
  using AList.dom_update [of k v d] by simp

lemma distinct_dict_set [simp]:
  "distinct (dict_keys (dict_set k v d)) = distinct (dict_keys d)"
  by (induction d) (auto simp: AList.dom_update)

lemma dict_keys_pop: "dict_keys (dict_pop k d) = removeAll k (dict_keys d)"
  by (rule AList.delete_keys)

lemma distinct_dict_pop [simp]: "distinct (dict_keys d) \<Longrightarrow> distinct (dict_keys (dict_pop k d))"
  by (rule AList.distinct_delete)

lemma distinct_dict_filter [simp]:
  "distinct (dict_keys d) \<Longrightarrow> distinct (dict_keys (dict_filter P d))"
  unfolding dict_filter_def by (simp add: distinct_map_filter)

lemma dict_get_in_keys: "dict_get d k = Some v \<Longrightarrow> k \<in> set (dict_keys d)"
  by (force dest: map_of_SomeD)

lemma dict_get_None_iff: "dict_get d k = None \<longleftrightarrow> k \<notin> set (dict_keys d)"
  by (simp add: map_of_eq_None_iff)

lemma dict_keys_get: "k \<in> set (dict_keys d) \<Longrightarrow> \<exists>v. dict_get d k = Some v"
  by (metis dict_get_None_iff not_None_eq)

section \<open>Code that raises\<close>

text \<open>
  A pure function that may raise returns a sum: \<open>Inl\<close> the error, \<open>Inr\<close> the value. The
  sequencing operator stops at the first error, as an uncaught exception does.
\<close>

definition sbind :: "'e + 'a \<Rightarrow> ('a \<Rightarrow> 'e + 'b) \<Rightarrow> 'e + 'b" where
  "sbind m f = (case m of Inl e \<Rightarrow> Inl e | Inr x \<Rightarrow> f x)"

lemma sbind_simps [simp, err_simps]:
  "sbind (Inl e) f = Inl e"
  "sbind (Inr x) f = f x"
  by (simp_all add: sbind_def)

lemma sbind_eq_Inr [err_simps]: "sbind m f = Inr y \<longleftrightarrow> (\<exists>x. m = Inr x \<and> f x = Inr y)"
  by (cases m) simp_all

lemma sbind_eq_Inl [err_simps]:
  "sbind m f = Inl e \<longleftrightarrow> m = Inl e \<or> (\<exists>x. m = Inr x \<and> f x = Inl e)"
  by (cases m) simp_all

lemma sbind_assoc: "sbind (sbind m f) g = sbind m (\<lambda>x. sbind (f x) g)"
  by (cases m) simp_all

lemma sbind_cong [fundef_cong]:
  "m = m' \<Longrightarrow> (\<And>x. m' = Inr x \<Longrightarrow> f x = f' x) \<Longrightarrow> sbind m f = sbind m' f'"
  by (cases m') simp_all

text \<open>A \<open>for\<close> loop whose body may raise.\<close>

fun sfold :: "('x \<Rightarrow> 'a \<Rightarrow> 'e + 'a) \<Rightarrow> 'x list \<Rightarrow> 'a \<Rightarrow> 'e + 'a" where
  "sfold f [] a = Inr a"
| "sfold f (x # xs) a = sbind (f x a) (sfold f xs)"

lemma sfold_append: "sfold f (xs @ ys) a = sbind (sfold f xs a) (sfold f ys)"
  by (induction xs arbitrary: a) (simp_all add: sbind_assoc fun_eq_iff cong: sbind_cong)

text \<open>A check that must succeed for every element (the body only raises).\<close>

definition sall :: "('x \<Rightarrow> 'e + unit) \<Rightarrow> 'x list \<Rightarrow> 'e + unit" where
  "sall f xs = sfold (\<lambda>x _. f x) xs ()"

lemma sall_Nil [simp]: "sall f [] = Inr ()"
  by (simp add: sall_def)

lemma sall_Cons [simp]: "sall f (x # xs) = sbind (f x) (\<lambda>_. sall f xs)"
  by (simp add: sall_def)

lemma sall_ok_iff: "sall f xs = Inr u \<longleftrightarrow> (\<forall>x \<in> set xs. f x = Inr ())"
  by (induction xs) (auto simp: sbind_eq_Inr)

lemma sfold_invariant:
  assumes "sfold f xs a = Inr b" and "I a"
    and "\<And>x a a'. x \<in> set xs \<Longrightarrow> I a \<Longrightarrow> f x a = Inr a' \<Longrightarrow> I a'"
  shows "I b"
  using assms
proof (induction xs arbitrary: a)
  case Nil
  then show ?case by simp
next
  case (Cons x xs)
  from Cons.prems(1) obtain a' where "f x a = Inr a'" and "sfold f xs a' = Inr b"
    by (auto simp: sbind_eq_Inr)
  with Cons.prems(2,3) show ?case
    by (intro Cons.IH [of a']) auto
qed

text \<open>A loop nested in a loop is one loop over the pairs.\<close>

lemma sfold_map: "sfold f (map g xs) a = sfold (f \<circ> g) xs a"
  by (induction xs arbitrary: a) (auto cong: sbind_cong)

lemma sfold_nested:
  "sfold (\<lambda>a. sfold (g a) (xs a)) as z = sfold (\<lambda>(a, x). g a x) [(a, x). a \<leftarrow> as, x \<leftarrow> xs a] z"
proof (induction as arbitrary: z)
  case (Cons a as)
  have "sfold (g a) (xs a) z = sfold (\<lambda>(a, x). g a x) (map (Pair a) (xs a)) z"
    by (simp add: sfold_map comp_def)
  with Cons show ?case by (auto simp: sfold_append cong: sbind_cong)
qed simp

lemma sfold_cong [fundef_cong]:
  "xs = ys \<Longrightarrow> (\<And>x a. x \<in> set ys \<Longrightarrow> f x a = g x a) \<Longrightarrow> sfold f xs a = sfold g ys a"
proof (induction ys arbitrary: xs a)
  case (Cons y ys)
  then show ?case by (auto intro!: sbind_cong)
qed simp

lemma count_list_concat: "count_list (concat xss) x = sum_list (map (\<lambda>xs. count_list xs x) xss)"
  by (induction xss) simp_all

lemma count_list_filter_map: "count_list (map f (filter P xs)) y = length (filter (\<lambda>x. P x \<and> f x = y) xs)"
  by (induction xs) auto

lemma sum_list_map_absent:
  "y \<notin> f ` set xs \<Longrightarrow> sum_list (map (\<lambda>x. if f x = y then g x else (0::nat)) xs) = 0"
  by (induction xs) auto

lemma sum_list_map_unique:
  assumes "distinct (map f xs)" and "x \<in> set xs"
  shows "sum_list (map (\<lambda>y. if f y = f x then g y else (0::nat)) xs) = g x"
  using assms
proof (induction xs)
  case (Cons y ys)
  show ?case
  proof (cases "x = y")
    case True
    with Cons.prems sum_list_map_absent [of "f y" f ys g] show ?thesis by simp
  next
    case False
    with Cons show ?thesis by (auto simp: image_iff)
  qed
qed simp

lemma length_filter_conj_le: "length (filter (\<lambda>x. P x \<and> Q x) xs) \<le> length (filter P xs)"
  by (induction xs) auto

lemma fold_dict_set_get:
  "dict_get (fold (\<lambda>a d. dict_set (f a) (g a) d) xs d) k =
     (case filter (\<lambda>a. f a = k) (rev xs) of [] \<Rightarrow> dict_get d k | a # _ \<Rightarrow> Some (g a))"
  by (induction xs arbitrary: d) (auto split: list.splits)

lemma filter_key_unique:
  assumes "distinct (map f xs)" and "x \<in> set xs"
  shows "filter (\<lambda>a. f a = f x) xs = [x]"
  using assms by (induction xs) (auto simp: filter_empty_conv image_iff)

lemma fold_dict_set_distinct:
  assumes "distinct (map f xs)" and "x \<in> set xs"
  shows "dict_get (fold (\<lambda>a d. dict_set (f a) (g a) d) xs d) (f x) = Some (g x)"
proof -
  have "filter (\<lambda>a. f a = f x) (rev xs) = [x]"
    using filter_key_unique [OF assms] by (simp flip: rev_filter)
  then show ?thesis by (simp add: fold_dict_set_get)
qed

lemma fold_dict_set_None:
  "k \<notin> f ` set xs \<Longrightarrow> dict_get (fold (\<lambda>a d. dict_set (f a) (g a) d) xs d) k = dict_get d k"
  by (induction xs arbitrary: d) auto

lemma fold_dict_set_keys:
  assumes "distinct (dict_keys d @ map f xs)"
  shows "fold (\<lambda>a d. dict_set (f a) (g a) d) xs d = d @ map (\<lambda>a. (f a, g a)) xs"
  using assms
proof (induction xs arbitrary: d)
  case (Cons x xs)
  have "dict_set (f x) (g x) d = d @ [(f x, g x)]"
    using Cons.prems by (induction d) auto
  with Cons show ?case by simp
qed simp

lemma list_all2_in_right: "list_all2 P xs ys \<Longrightarrow> y \<in> set ys \<Longrightarrow> \<exists>x \<in> set xs. P x y"
  by (induction rule: list_all2_induct) auto

lemma list_all2_in_left: "list_all2 P xs ys \<Longrightarrow> x \<in> set xs \<Longrightarrow> \<exists>y \<in> set ys. P x y"
  by (induction rule: list_all2_induct) auto

text \<open>A loop that appends the result of every selected element.\<close>

lemma sfold_collect:
  assumes "sfold (\<lambda>a acc. if \<not> P a then Inr acc else sbind (g a) (\<lambda>y. Inr (acc @ [y]))) as acc = Inr res"
  shows "\<exists>ys. res = acc @ ys \<and> list_all2 (\<lambda>a y. g a = Inr y) (filter P as) ys"
  using assms
proof (induction as arbitrary: acc)
  case (Cons a as)
  show ?case
  proof (cases "P a")
    case True
    with Cons.prems obtain y where g: "g a = Inr y" and
      "sfold (\<lambda>a acc. if \<not> P a then Inr acc else sbind (g a) (\<lambda>y. Inr (acc @ [y]))) as (acc @ [y]) = Inr res"
      by (auto simp: sbind_eq_Inr)
    from Cons.IH [OF this(2)] obtain ys where
      "res = (acc @ [y]) @ ys" "list_all2 (\<lambda>a y. g a = Inr y) (filter P as) ys" by blast
    with g True show ?thesis by (intro exI [of _ "y # ys"]) simp
  qed (use Cons in auto)
qed simp

lemma filter_eq_Cons_mem: "filter P xs = y # ys \<Longrightarrow> y \<in> set xs \<and> P y"
  by (induction xs) (auto split: if_splits)

lemma length_filter_all: "length (filter P xs) = length xs \<longleftrightarrow> (\<forall>x \<in> set xs. P x)"
proof (induction xs)
  case (Cons x xs)
  have "length (filter P xs) < Suc (length xs)" by (simp add: le_imp_less_Suc)
  with Cons show ?case by auto
qed simp

lemma get_default_Nil: "get_default v [] k = v"
  by (simp add: get_default_def)

lemma sfold_pure: "sfold (\<lambda>x a. Inr (h x a)) xs a = Inr (fold h xs a)"
  by (induction xs arbitrary: a) simp_all

end
