(* ===== verification/Py_String.thy ===== *)
theory Py_String
  imports Prelude "HOL-Library.List_Lexorder" "HOL-Library.Char_ord"
begin

text \<open>
  The \<open>str\<close> operations the modelled sources call: \<open>split\<close> and \<open>rsplit\<close> on a one-character
  separator, \<open>startswith\<close>, \<open>endswith\<close>, the decimal text of an integer inside an f-string, and
  the \<open>int(text)\<close> conversion. Strings are lists of 8-bit characters; every identifier the
  sources split is restricted to ASCII by its validation pattern.
\<close>

section \<open>Splitting\<close>

text \<open>\<open>s.split(c)\<close>: all the pieces, at least one.\<close>

fun split_on :: "char \<Rightarrow> string \<Rightarrow> string list" where
  "split_on c [] = [[]]"
| "split_on c (x # xs) =
     (if x = c then [] # split_on c xs
      else (case split_on c xs of [] \<Rightarrow> [[x]] | p # ps \<Rightarrow> (x # p) # ps))"

text \<open>\<open>s.split(c, 1)\<close>: the text before the first separator, and the rest if there is one.\<close>

fun split_first :: "char \<Rightarrow> string \<Rightarrow> string \<times> string option" where
  "split_first c [] = ([], None)"
| "split_first c (x # xs) =
     (if x = c then ([], Some xs)
      else (case split_first c xs of (p, r) \<Rightarrow> (x # p, r)))"

text \<open>\<open>s.rsplit(c, maxsplit=1)\<close>: the text before and after the last separator, if there is one.\<close>

definition split_last :: "char \<Rightarrow> string \<Rightarrow> (string \<times> string) option" where
  "split_last c s =
     (case split_first c (rev s) of
        (p, None) \<Rightarrow> None
      | (p, Some r) \<Rightarrow> Some (rev r, rev p))"

definition starts_with :: "string \<Rightarrow> string \<Rightarrow> bool" where
  "starts_with p s \<longleftrightarrow> take (length p) s = p"

definition ends_with :: "string \<Rightarrow> string \<Rightarrow> bool" where
  "ends_with p s \<longleftrightarrow> starts_with (rev p) (rev s)"

lemma split_on_not_Nil [simp]: "split_on c s \<noteq> []"
  by (cases s) (auto split: list.splits)

lemma split_on_no_sep [simp]: "c \<notin> set s \<Longrightarrow> split_on c s = [s]"
  by (induction s) auto

lemma split_on_append [simp]:
  "split_on c (s @ c # t) = split_on c s @ split_on c t"
  by (induction s) (auto split: list.splits)

lemma split_first_no_sep [simp]: "c \<notin> set s \<Longrightarrow> split_first c s = (s, None)"
  by (induction s) auto

lemma split_first_append [simp]: "c \<notin> set s \<Longrightarrow> split_first c (s @ c # t) = (s, Some t)"
  by (induction s) auto

lemma split_first_None: "split_first c s = (p, None) \<Longrightarrow> s = p \<and> c \<notin> set p"
  by (induction s arbitrary: p) (auto split: if_splits prod.splits)

lemma split_first_Some: "split_first c s = (p, Some r) \<Longrightarrow> s = p @ c # r \<and> c \<notin> set p"
  by (induction s arbitrary: p) (auto split: if_splits prod.splits)

lemma split_last_no_sep [simp]: "c \<notin> set s \<Longrightarrow> split_last c s = None"
  by (simp add: split_last_def)

lemma split_last_append [simp]: "c \<notin> set t \<Longrightarrow> split_last c (s @ c # t) = Some (s, t)"
  by (simp add: split_last_def)

lemma split_last_Some: "split_last c s = Some (p, q) \<Longrightarrow> s = p @ c # q \<and> c \<notin> set q"
proof -
  assume "split_last c s = Some (p, q)"
  then have "split_first c (rev s) = (rev q, Some (rev p))"
    by (auto simp: split_last_def split: prod.splits option.splits)
  then have "rev s = rev q @ c # rev p" and "c \<notin> set (rev q)"
    by (blast dest: split_first_Some)+
  then show ?thesis
    by (metis append.assoc append_Cons append_Nil rev.simps(2) rev_append rev_rev_ident set_rev)
qed

lemma starts_with_iff: "starts_with p s \<longleftrightarrow> (\<exists>t. s = p @ t)"
  unfolding starts_with_def by (metis append_eq_conv_conj append_take_drop_id)

lemma ends_with_iff: "ends_with p s \<longleftrightarrow> (\<exists>t. s = t @ p)"
  unfolding ends_with_def starts_with_iff by (metis rev_append rev_rev_ident)

section \<open>Decimal text\<close>

definition digit_char :: "nat \<Rightarrow> char" where
  "digit_char n = char_of (48 + n)"

definition is_digit :: "char \<Rightarrow> bool" where
  "is_digit c \<longleftrightarrow> 48 \<le> (of_char c :: nat) \<and> (of_char c :: nat) \<le> 57"

definition digit_val :: "char \<Rightarrow> nat" where
  "digit_val c = of_char c - 48"

text \<open>The text of a non-negative integer in an f-string.\<close>

fun show_nat :: "nat \<Rightarrow> string" where
  "show_nat n = (if n < 10 then [digit_char n] else show_nat (n div 10) @ [digit_char (n mod 10)])"

declare show_nat.simps [simp del]

text \<open>
  \<open>int(text)\<close>: surrounding white space is dropped, one sign is allowed, and single underscores
  may stand between digits; anything else is a \<open>ValueError\<close> (\<open>None\<close>).
\<close>

definition py_space :: "char \<Rightarrow> bool" where
  "py_space c \<longleftrightarrow>
     (let n = (of_char c :: nat)
      in (9 \<le> n \<and> n \<le> 13) \<or> (28 \<le> n \<and> n \<le> 32) \<or> n = 133 \<or> n = 160)"

definition py_strip :: "string \<Rightarrow> string" where
  "py_strip s = rev (dropWhile py_space (rev (dropWhile py_space s)))"

fun digits_val :: "nat \<Rightarrow> bool \<Rightarrow> string \<Rightarrow> nat option" where
  "digits_val acc after_digit [] = (if after_digit then Some acc else None)"
| "digits_val acc after_digit (c # cs) =
     (if is_digit c then digits_val (10 * acc + digit_val c) True cs
      else if c = CHR ''_'' \<and> after_digit then digits_val acc False cs
      else None)"

definition py_int :: "string \<Rightarrow> int option" where
  "py_int s =
     (case py_strip s of
        [] \<Rightarrow> None
      | c # cs \<Rightarrow>
          if c = CHR ''-'' then map_option (\<lambda>n. - int n) (digits_val 0 False cs)
          else if c = CHR ''+'' then map_option int (digits_val 0 False cs)
          else map_option int (digits_val 0 False (c # cs)))"

lemma digit_char_digit [simp]: "n < 10 \<Longrightarrow> is_digit (digit_char n)"
  by (simp add: is_digit_def digit_char_def)

lemma digit_val_char [simp]: "n < 10 \<Longrightarrow> digit_val (digit_char n) = n"
  by (simp add: digit_val_def digit_char_def)

lemma show_nat_not_Nil [simp]: "show_nat n \<noteq> []"
  by (subst show_nat.simps) simp

lemma show_nat_digits: "\<forall>c \<in> set (show_nat n). is_digit c"
proof (induction n rule: show_nat.induct)
  case (1 n)
  then show ?case by (subst show_nat.simps) auto
qed

lemma digit_not_space: "is_digit c \<Longrightarrow> \<not> py_space c"
  by (auto simp: is_digit_def py_space_def Let_def)

lemma digit_not_sign: "is_digit c \<Longrightarrow> c \<noteq> CHR ''-'' \<and> c \<noteq> CHR ''+''"
  by (auto simp: is_digit_def)

lemma digit_not_sep: "is_digit c \<Longrightarrow> c \<noteq> CHR '':'' \<and> c \<noteq> CHR ''/''"
  by (auto simp: is_digit_def)

lemma digits_val_digits:
  "\<forall>c \<in> set cs. is_digit c \<Longrightarrow> cs \<noteq> [] \<or> b \<Longrightarrow>
     digits_val acc b cs = Some (foldl (\<lambda>a c. 10 * a + digit_val c) acc cs)"
  by (induction cs arbitrary: acc b) auto

lemma foldl_show_nat: "foldl (\<lambda>a c. 10 * a + digit_val c) 0 (show_nat n) = n"
proof (induction n rule: show_nat.induct)
  case (1 n)
  show ?case
  proof (cases "n < 10")
    case True
    then show ?thesis by (subst show_nat.simps) simp
  next
    case False
    with 1 have "foldl (\<lambda>a c. 10 * a + digit_val c) 0 (show_nat (n div 10)) = n div 10" by simp
    with False show ?thesis by (subst show_nat.simps) simp
  qed
qed

lemma py_strip_digits: "\<forall>c \<in> set cs. is_digit c \<Longrightarrow> py_strip cs = cs"
proof -
  assume "\<forall>c \<in> set cs. is_digit c"
  then have ns: "\<forall>c \<in> set cs. \<not> py_space c" by (auto dest: digit_not_space)
  have drop: "dropWhile py_space xs = xs" if "\<forall>c \<in> set xs. \<not> py_space c" for xs
    using that by (cases xs) auto
  show ?thesis using ns by (simp add: py_strip_def drop)
qed

lemma py_int_show_nat [simp]: "py_int (show_nat n) = Some (int n)"
proof -
  obtain c cs where eq: "show_nat n = c # cs" by (cases "show_nat n") auto
  have "\<forall>x \<in> set (c # cs). is_digit x" using show_nat_digits [of n] by (simp add: eq)
  then have "py_strip (c # cs) = c # cs" "c \<noteq> CHR ''-''" "c \<noteq> CHR ''+''"
    and "digits_val 0 False (c # cs) = Some (foldl (\<lambda>a c. 10 * a + digit_val c) 0 (c # cs))"
    using digit_not_sign py_strip_digits [of "c # cs"] digits_val_digits [of "c # cs" False 0]
    by auto
  then show ?thesis
    using foldl_show_nat [of n] by (simp only: py_int_def eq list.case if_False option.map)
qed

lemma show_nat_inject [simp]: "show_nat m = show_nat n \<longleftrightarrow> m = n"
  by (metis foldl_show_nat)

lemma show_nat_no_sep [simp]:
  "CHR '':'' \<notin> set (show_nat n)" "CHR ''/'' \<notin> set (show_nat n)"
  using show_nat_digits digit_not_sep by blast+

text \<open>\<open>str.lower\<close> on the characters of the model.\<close>

definition lower_char :: "char \<Rightarrow> char" where
  "lower_char c =
     (let n = (of_char c :: nat)
      in if (65 \<le> n \<and> n \<le> 90) \<or> (192 \<le> n \<and> n \<le> 222 \<and> n \<noteq> 215) then char_of (n + 32) else c)"

end
