(* ===== verification/Streams.thy ===== *)
theory Streams
  imports Py_String
begin

text \<open>
  Stream identifiers (\<open>StreamID\<close> of \<open>tracecat/dsl/schemas.py\<close>): the hierarchical names
  \<open>scatter_1:2/scatter_2:0\<close> that the scheduler gives to the execution streams of a scatter,
  with the token \<open>skip\<close> in place of the index for a skipped scatter. The identifiers are plain
  strings, as in the source.
\<close>

section \<open>Definitions\<close>

type_synonym stream_id = string

datatype stream_index = Idx int | SkipToken

definition show_int :: "int \<Rightarrow> string" where
  "show_int i = (if i < 0 then CHR ''-'' # show_nat (nat (- i)) else show_nat (nat i))"

definition show_index :: "stream_index \<Rightarrow> string" where
  "show_index ix = (case ix of Idx i \<Rightarrow> show_int i | SkipToken \<Rightarrow> ''skip'')"

definition stream_new :: "string \<Rightarrow> stream_index \<Rightarrow> stream_id option \<Rightarrow> stream_id" where
  "stream_new scope index base_stream_id =
     (let new_stream = scope @ '':'' @ show_index index
      in case base_stream_id of
           None \<Rightarrow> new_stream
         | Some base \<Rightarrow> base @ ''/'' @ new_stream)"

definition stream_skip :: "string \<Rightarrow> stream_id option \<Rightarrow> stream_id" where
  "stream_skip scope base_stream_id = stream_new scope SkipToken base_stream_id"

definition stream_parts :: "stream_id \<Rightarrow> string list" where
  "stream_parts sid = split_on (CHR ''/'') sid"

text \<open>\<open>leaf\<close>: \<open>None\<close> where the source raises \<open>ValueError\<close>.\<close>

definition stream_leaf :: "stream_id \<Rightarrow> (string \<times> stream_index) option" where
  "stream_leaf sid =
     (case split_on (CHR '':'') (last (stream_parts sid)) of
        [scope, index] \<Rightarrow>
          if index = ''skip'' then Some (scope, SkipToken)
          else map_option (\<lambda>i. (scope, Idx i)) (py_int index)
      | _ \<Rightarrow> None)"

definition root_stream :: stream_id where
  "root_stream = stream_new ''<root>'' (Idx 0) None"

definition stream_within :: "stream_id \<Rightarrow> stream_id \<Rightarrow> bool" where
  "stream_within sid base \<longleftrightarrow> sid = base \<or> starts_with (base @ ''/'') sid"

text \<open>\<open>stream_id.endswith(":skip")\<close>.\<close>

definition is_skip_stream :: "stream_id \<Rightarrow> bool" where
  "is_skip_stream sid \<longleftrightarrow> ends_with '':skip'' sid"

text \<open>The scope names that appear in stream identifiers are action references.\<close>

definition plain_scope :: "string \<Rightarrow> bool" where
  "plain_scope scope \<longleftrightarrow> CHR '':'' \<notin> set scope \<and> CHR ''/'' \<notin> set scope"

section \<open>Properties\<close>

lemma show_int_no_sep [simp]: "CHR '':'' \<notin> set (show_int i)" "CHR ''/'' \<notin> set (show_int i)"
  by (auto simp: show_int_def)

lemma show_index_no_sep [simp]:
  "CHR '':'' \<notin> set (show_index ix)" "CHR ''/'' \<notin> set (show_index ix)"
  by (cases ix; simp add: show_index_def)+

lemma py_int_show_int [simp]: "py_int (show_int i) = Some i"
proof (cases "i < 0")
  case True
  define ds where "ds = show_nat (nat (- i))"
  have digits: "\<forall>c \<in> set ds. is_digit c" and ne: "ds \<noteq> []"
    by (simp_all add: ds_def show_nat_digits)
  have ns: "\<not> py_space c" if "c \<in> set (CHR ''-'' # ds)" for c
    using that digits digit_not_space by (auto simp: py_space_def)
  then have "dropWhile py_space xs = xs" if "set xs \<subseteq> set (CHR ''-'' # ds)" for xs
    using that by (cases xs) auto
  then have "py_strip (CHR ''-'' # ds) = CHR ''-'' # ds"
    unfolding py_strip_def by (metis order_refl rev_rev_ident set_rev)
  moreover have "digits_val 0 False ds = Some (nat (- i))"
    using digits_val_digits [of ds False 0] digits ne foldl_show_nat by (simp add: ds_def)
  ultimately show ?thesis using True by (simp add: show_int_def py_int_def flip: ds_def)
qed (simp add: show_int_def)

lemma show_int_not_skip [simp]: "show_int i \<noteq> ''skip''"
proof
  assume eq: "show_int i = ''skip''"
  have "py_int ''skip'' = None" by code_simp
  with eq py_int_show_int [of i] show False by simp
qed

lemma last_parts_new:
  assumes "plain_scope scope"
  shows "last (stream_parts (stream_new scope ix base)) = scope @ '':'' @ show_index ix"
  using assms by (cases base) (simp_all add: stream_parts_def stream_new_def Let_def plain_scope_def)

lemma stream_leaf_new:
  assumes "plain_scope scope"
  shows "stream_leaf (stream_new scope ix base) = Some (scope, ix)"
proof -
  have "split_on (CHR '':'') (scope @ '':'' @ show_index ix) = [scope, show_index ix]"
    using assms by (simp add: plain_scope_def)
  then show ?thesis
    using assms by (cases ix) (simp_all add: stream_leaf_def last_parts_new show_index_def)
qed

lemma stream_new_inject:
  assumes "plain_scope a" and "plain_scope b"
  shows "stream_new a i (Some base) = stream_new b j (Some base) \<longleftrightarrow> a = b \<and> i = j"
proof
  assume "stream_new a i (Some base) = stream_new b j (Some base)"
  then have "Some (a, i) = Some (b, j)"
    by (metis assms stream_leaf_new)
  then show "a = b \<and> i = j" by simp
qed simp

lemma stream_new_shape: "\<exists>p. stream_new scope ix base = p @ CHR '':'' # show_index ix"
proof (cases base)
  case (Some b)
  then have "stream_new scope ix base = (b @ CHR ''/'' # scope) @ CHR '':'' # show_index ix"
    by (simp add: stream_new_def Let_def)
  then show ?thesis ..
qed (simp add: stream_new_def Let_def)

lemma stream_new_within: "stream_within (stream_new scope ix (Some base)) base"
  by (auto simp: stream_within_def stream_new_def Let_def starts_with_iff)

lemma stream_new_longer [simp]: "length base < length (stream_new scope ix (Some base))"
  by (simp add: stream_new_def Let_def)

lemma stream_new_neq_base [simp]:
  "stream_new scope ix (Some base) \<noteq> base" "base \<noteq> stream_new scope ix (Some base)"
  using stream_new_longer [of base scope ix] by fastforce+

lemma stream_within_refl [simp]: "stream_within s s"
  by (simp add: stream_within_def)

lemma stream_within_trans: "stream_within a b \<Longrightarrow> stream_within b c \<Longrightarrow> stream_within a c"
  by (auto simp: stream_within_def starts_with_iff)

lemma is_skip_stream_skip [simp]: "is_skip_stream (stream_skip scope base)"
  by (cases base) (auto simp: is_skip_stream_def stream_skip_def stream_new_def show_index_def
      ends_with_iff Let_def)

lemma is_skip_stream_new:
  assumes "plain_scope scope"
  shows "is_skip_stream (stream_new scope ix base) \<longleftrightarrow> ix = SkipToken"
proof
  assume "is_skip_stream (stream_new scope ix base)"
  then obtain t where t: "stream_new scope ix base = t @ '':skip''"
    by (auto simp: is_skip_stream_def ends_with_iff)
  have "show_index ix = ''skip''"
  proof -
    obtain p where "p @ CHR '':'' # show_index ix = t @ CHR '':'' # ''skip''"
      using t stream_new_shape [of scope ix base] by auto
    then have "split_last (CHR '':'') (p @ CHR '':'' # show_index ix) = Some (t, ''skip'')"
      by (simp only:) simp
    then show ?thesis by simp
  qed
  then show "ix = SkipToken" by (cases ix) (simp_all add: show_index_def)
next
  assume "ix = SkipToken"
  then show "is_skip_stream (stream_new scope ix base)"
    using is_skip_stream_skip [of scope base] by (simp add: stream_skip_def)
qed

lemma root_stream_value: "root_stream = ''<root>:0''"
  by code_simp

lemma root_not_skip [simp]: "\<not> is_skip_stream root_stream"
  by (simp add: root_stream_value is_skip_stream_def ends_with_def starts_with_def)

lemma root_not_new [simp]: "stream_new scope ix (Some base) \<noteq> root_stream"
proof
  assume eq: "stream_new scope ix (Some base) = root_stream"
  have "CHR ''/'' \<in> set (stream_new scope ix (Some base))"
    by (simp add: stream_new_def Let_def)
  then have "CHR ''/'' \<in> set ''<root>:0''" by (simp add: eq root_stream_value)
  then show False by simp
qed

section \<open>Round trips\<close>

text \<open>Stream identifiers round trip. The leaf of a new stream identifier is the scope and index it
  was built from, it lies within its base stream, it is a skip stream exactly when it was built with the
  skip token, and two streams of one base with different scope or index have different identifiers.\<close>

theorem stream_id_roundtrip:
  assumes "plain_scope a" and "plain_scope b"
  shows "stream_leaf (stream_new a i base) = Some (a, i) \<and>
    stream_within (stream_new a i (Some p)) p \<and>
    (is_skip_stream (stream_new a i base) \<longleftrightarrow> i = SkipToken) \<and>
    (stream_new a i (Some p) = stream_new b j (Some p) \<longleftrightarrow> a = b \<and> i = j)"
  using assms by (simp add: stream_leaf_new stream_new_within is_skip_stream_new stream_new_inject)

theorem stream_id_roundtrip_witness:
  "stream_leaf ''<root>:0/scatter_1:12'' = Some (''scatter_1'', Idx 12) \<and>
   \<not> is_skip_stream ''<root>:0/scatter_1:12''"
proof -
  have "plain_scope ''scatter_1''" by code_simp
  from stream_id_roundtrip [OF this this, of "Idx 12" "Some root_stream"]
  have "stream_leaf (stream_new ''scatter_1'' (Idx 12) (Some root_stream)) = Some (''scatter_1'', Idx 12) \<and>
    \<not> is_skip_stream (stream_new ''scatter_1'' (Idx 12) (Some root_stream))" by simp
  moreover have "stream_new ''scatter_1'' (Idx 12) (Some root_stream) = ''<root>:0/scatter_1:12''" by code_simp
  ultimately show ?thesis by simp
qed

end
