(* ===== verification/Dsl_Values.thy ===== *)
theory Dsl_Values
  imports Streams
begin

text \<open>
  The data that flows through a workflow: JSON-like Python values, stored objects
  (\<open>tracecat/storage/object.py\<close>), task results and execution contexts
  (\<open>tracecat/dsl/schemas.py\<close>), error records (\<open>tracecat/dsl/types.py\<close>) and the exceptions the
  scheduler sees. Python floats are idealised as rationals.
\<close>

section \<open>Values and stored objects\<close>

record object_ref =
  backend :: string
  bucket :: string
  object_key :: string
  size_bytes :: int
  sha256 :: string
  content_type :: string
  object_encoding :: string
  created_at :: int

datatype element_kind = KindValue | KindStoredObject

datatype pyval =
    VNone
  | VBool bool
  | VInt int
  | VFloat rat
  | VStr string
  | VList "pyval list"
  | VDict "(string \<times> pyval) list"
  | VStored stored_object
and stored_object =
    InlineObject (inline_data: pyval) (inline_typename: "string option")
  | ExternalObject (external_ref: object_ref) (external_typename: "string option")
  | CollectionObject (manifest_ref: object_ref) (collection_count: int) (chunk_size: int)
      (element_kind: element_kind) (schema_version: int) (collection_at: "int option")
      (collection_typename: "string option")

text \<open>Recursion over nested values.\<close>

lemma size_entry:
  assumes obj: "obj = VDict d" and kv: "kv \<in> set d"
  shows "size (snd kv) < size obj"
proof -
  have "size (snd kv) < size_prod (\<lambda>_. 0) size kv" by (cases kv) simp
  with kv have "size (snd kv) < size_list (size_prod (\<lambda>_. 0) size) d" by (rule size_list_estimation)
  then show ?thesis by (simp add: obj)
qed

lemma size_item: "obj = VList xs \<Longrightarrow> x \<in> set xs \<Longrightarrow> size x < size obj"
  using size_list_estimation' [of x xs "size x" size] by simp

text \<open>\<open>type(v).__name__\<close>.\<close>

fun type_name :: "pyval \<Rightarrow> string" where
  "type_name VNone = ''NoneType''"
| "type_name (VBool _) = ''bool''"
| "type_name (VInt _) = ''int''"
| "type_name (VFloat _) = ''float''"
| "type_name (VStr _) = ''str''"
| "type_name (VList _) = ''list''"
| "type_name (VDict _) = ''dict''"
| "type_name (VStored (InlineObject _ _)) = ''InlineObject''"
| "type_name (VStored (ExternalObject _ _)) = ''ExternalObject''"
| "type_name (VStored (CollectionObject _ _ _ _ _ _ _)) = ''CollectionObject''"

text \<open>An optional string as a value.\<close>

definition opt_str :: "string option \<Rightarrow> pyval" where
  "opt_str x = (case x of None \<Rightarrow> VNone | Some s \<Rightarrow> VStr s)"

text \<open>\<open>bool(v)\<close>; only \<open>CollectionObject\<close> among the stored objects defines \<open>__len__\<close>.\<close>

fun py_bool :: "pyval \<Rightarrow> bool" where
  "py_bool VNone = False"
| "py_bool (VBool b) = b"
| "py_bool (VInt i) = (i \<noteq> 0)"
| "py_bool (VFloat x) = (x \<noteq> 0)"
| "py_bool (VStr s) = (s \<noteq> [])"
| "py_bool (VList xs) = (xs \<noteq> [])"
| "py_bool (VDict d) = (d \<noteq> [])"
| "py_bool (VStored (CollectionObject _ n _ _ _ _ _)) = (n \<noteq> 0)"
| "py_bool (VStored _) = True"

text \<open>The \<open>_set_typename\<close> validator runs on every construction.\<close>

definition new_inline :: "pyval \<Rightarrow> string option \<Rightarrow> stored_object" where
  "new_inline v tn = InlineObject v (Some (case tn of None \<Rightarrow> type_name v | Some t \<Rightarrow> t))"

definition collection_set_typename :: "stored_object \<Rightarrow> stored_object" where
  "collection_set_typename c =
     (case c of
        CollectionObject m n cs ek sv ix None \<Rightarrow> CollectionObject m n cs ek sv ix (Some ''list'')
      | _ \<Rightarrow> c)"

definition collection_item :: "stored_object \<Rightarrow> int \<Rightarrow> stored_object" where
  "collection_item c i =
     (case c of
        CollectionObject m n cs ek sv ix tn \<Rightarrow> CollectionObject m n cs ek sv (Some i) tn
      | _ \<Rightarrow> c)"

definition stored_type :: "stored_object \<Rightarrow> string" where
  "stored_type obj =
     (case obj of
        InlineObject _ _ \<Rightarrow> ''inline''
      | ExternalObject _ _ \<Rightarrow> ''external''
      | CollectionObject _ _ _ _ _ _ _ \<Rightarrow> ''collection'')"

definition stored_typename :: "stored_object \<Rightarrow> string option" where
  "stored_typename obj =
     (case obj of
        InlineObject _ tn \<Rightarrow> tn
      | ExternalObject _ tn \<Rightarrow> tn
      | CollectionObject _ _ _ _ _ _ tn \<Rightarrow> tn)"

section \<open>Object keys\<close>

definition trigger_key :: "string \<Rightarrow> string \<Rightarrow> string" where
  "trigger_key workspace_id wf_exec_id = workspace_id @ ''/'' @ wf_exec_id @ ''/trigger.json''"

definition return_key :: "string \<Rightarrow> string \<Rightarrow> string" where
  "return_key workspace_id wf_exec_id = workspace_id @ ''/'' @ wf_exec_id @ ''/return.json''"

definition action_key :: "string \<Rightarrow> string \<Rightarrow> string \<Rightarrow> string \<Rightarrow> string" where
  "action_key workspace_id wf_exec_id stream ref =
     workspace_id @ ''/'' @ wf_exec_id @ ''/actions/'' @ stream @ ''/'' @ ref @ ''.json''"

definition action_collection_prefix :: "string \<Rightarrow> string \<Rightarrow> string \<Rightarrow> string \<Rightarrow> string" where
  "action_collection_prefix workspace_id wf_exec_id stream ref =
     workspace_id @ ''/'' @ wf_exec_id @ ''/actions/'' @ stream @ ''/'' @ ref"

definition collection_item_key :: "string \<Rightarrow> int \<Rightarrow> string" where
  "collection_item_key prefix i = prefix @ ''/items/'' @ show_int i @ ''.json''"

section \<open>Errors\<close>

text \<open>
  \<open>ActionErrorInfo\<close> is a plain dataclass, so its fields hold whatever value they were given.
\<close>

record action_error_info =
  err_ref :: pyval
  err_message :: pyval
  err_type :: pyval
  err_context :: pyval
  err_attempt :: pyval
  err_stream :: pyval
  err_children :: pyval

text \<open>
  Exceptions: Temporal's \<open>ApplicationError\<close> (with its class, as subclasses exist, its text and its
  details), \<open>ActivityError\<close> with its cause, the scheduler's marker \<open>PlatformExecutionError\<close>,
  asyncio's \<open>CancelledError\<close> (not an \<open>Exception\<close>, so \<open>except Exception\<close> lets it pass), and any other
  \<open>Exception\<close> by class name and text. \<open>NonTermination\<close> is not a Python exception: it marks a loop
  that would not end.
\<close>

datatype exn =
    ApplicationError (app_class: string) (app_text: string) (app_details: "pyval list")
  | ActivityError string "exn option"
  | PlatformExecutionError exn
  | CancelledError
  | PyError string string
  | NonTermination

primrec exn_class :: "exn \<Rightarrow> string" where
  "exn_class (ApplicationError c _ _) = c"
| "exn_class (PlatformExecutionError _) = ''PlatformExecutionError''"
| "exn_class (ActivityError _ _) = ''ActivityError''"
| "exn_class CancelledError = ''CancelledError''"
| "exn_class (PyError c _) = c"
| "exn_class NonTermination = ''NonTermination''"

primrec exn_text :: "exn \<Rightarrow> string" where
  "exn_text (ApplicationError _ t _) = t"
| "exn_text (PlatformExecutionError e) = exn_text e"
| "exn_text (ActivityError t _) = t"
| "exn_text CancelledError = []"
| "exn_text (PyError _ t) = t"
| "exn_text NonTermination = []"

abbreviation application_error :: "string \<Rightarrow> pyval list \<Rightarrow> exn" where
  "application_error \<equiv> ApplicationError ''ApplicationError''"

abbreviation KeyError :: "string \<Rightarrow> exn" where "KeyError \<equiv> PyError ''KeyError''"
abbreviation IndexError :: "string \<Rightarrow> exn" where "IndexError \<equiv> PyError ''IndexError''"
abbreviation TypeError :: "string \<Rightarrow> exn" where "TypeError \<equiv> PyError ''TypeError''"
abbreviation ValueError :: "string \<Rightarrow> exn" where "ValueError \<equiv> PyError ''ValueError''"
abbreviation RuntimeError :: "string \<Rightarrow> exn" where "RuntimeError \<equiv> PyError ''RuntimeError''"
abbreviation ValidationError :: "string \<Rightarrow> exn" where "ValidationError \<equiv> PyError ''ValidationError''"
abbreviation TaskUnreachable :: "string \<Rightarrow> exn" where "TaskUnreachable \<equiv> PyError ''TaskUnreachable''"

record task_exception_info =
  exc_exception :: exn
  exc_details :: action_error_info

definition error_info :: "string \<Rightarrow> string \<Rightarrow> string \<Rightarrow> stream_id \<Rightarrow> action_error_info" where
  "error_info ref message type stream =
     \<lparr>err_ref = VStr ref, err_message = VStr message, err_type = VStr type,
      err_context = VStr ''ACTIONS'', err_attempt = VInt 1, err_stream = VStr stream,
      err_children = VNone\<rparr>"

text \<open>\<open>ActionErrorInfoAdapter.dump_python\<close>.\<close>

definition dump_error_info :: "action_error_info \<Rightarrow> pyval" where
  "dump_error_info e =
     VDict [(''ref'', err_ref e), (''message'', err_message e), (''type'', err_type e),
            (''expr_context'', err_context e), (''attempt'', err_attempt e),
            (''stream_id'', err_stream e), (''children'', err_children e)]"

text \<open>
  \<open>ActionErrorInfo(**d)\<close>: unknown or missing fields are a \<open>TypeError\<close> (\<open>None\<close>); fields with a
  default may be left out.
\<close>

definition error_info_from_dict :: "(string, pyval) dict \<Rightarrow> action_error_info option" where
  "error_info_from_dict d =
     (if set (dict_keys d) \<subseteq> {''ref'', ''message'', ''type'', ''expr_context'', ''attempt'',
           ''stream_id'', ''children''}
      then case (dict_get d ''ref'', dict_get d ''message'', dict_get d ''type'') of
             (Some r, Some m, Some t) \<Rightarrow>
               Some \<lparr>err_ref = r, err_message = m, err_type = t,
                 err_context = get_default (VStr ''ACTIONS'') d ''expr_context'',
                 err_attempt = get_default (VInt 1) d ''attempt'',
                 err_stream = get_default (VStr root_stream) d ''stream_id'',
                 err_children = get_default VNone d ''children''\<rparr>
           | _ \<Rightarrow> None
      else None)"

text \<open>\<open>ActionErrorInfo.format\<close> for the textual fields.\<close>

definition format_error :: "string \<Rightarrow> string \<Rightarrow> int \<Rightarrow> string \<Rightarrow> string \<Rightarrow> string" where
  "format_error expr_context ref attempt message loc =
     ''['' @ expr_context @ ''.'' @ ref @ '' -> '' @ loc @ ''] (Attempt '' @ show_int attempt @ '')''
     @ [CHR 0x0A, CHR 0x0A] @ message"

section \<open>Task results\<close>

text \<open>Python list indexing: a negative index counts from the end, \<open>None\<close> is \<open>IndexError\<close>.\<close>

definition norm_index :: "nat \<Rightarrow> int \<Rightarrow> nat option" where
  "norm_index n i =
     (let j = (if i < 0 then int n + i else i)
      in if 0 \<le> j \<and> j < int n then Some (nat j) else None)"

definition py_nth :: "'a list \<Rightarrow> int \<Rightarrow> 'a option" where
  "py_nth xs i = map_option (\<lambda>j. xs ! j) (norm_index (length xs) i)"

definition py_set_nth :: "'a list \<Rightarrow> int \<Rightarrow> 'a \<Rightarrow> 'a list option" where
  "py_set_nth xs i v = map_option (\<lambda>j. xs[j := v]) (norm_index (length xs) i)"

record task_result =
  tr_result :: stored_object
  tr_typename :: string
  tr_error :: pyval
  tr_error_typename :: "string option"
  tr_interaction :: pyval
  tr_interaction_id :: "string option"
  tr_interaction_type :: "string option"
  tr_collection_index :: "int option"

definition from_result :: "pyval \<Rightarrow> task_result" where
  "from_result v =
     \<lparr>tr_result = new_inline v None, tr_typename = type_name v, tr_error = VNone,
      tr_error_typename = None, tr_interaction = VNone, tr_interaction_id = None,
      tr_interaction_type = None, tr_collection_index = None\<rparr>"

definition from_collection_item :: "stored_object \<Rightarrow> int \<Rightarrow> string \<Rightarrow> task_result" where
  "from_collection_item stored index item_typename =
     \<lparr>tr_result = stored, tr_typename = item_typename, tr_error = VNone,
      tr_error_typename = None, tr_interaction = VNone, tr_interaction_id = None,
      tr_interaction_type = None, tr_collection_index = Some index\<rparr>"

definition tr_is_error :: "task_result \<Rightarrow> bool" where
  "tr_is_error t \<longleftrightarrow> tr_error t \<noteq> VNone"

definition tr_is_externalized :: "task_result \<Rightarrow> bool" where
  "tr_is_externalized t \<longleftrightarrow> stored_type (tr_result t) \<in> {''external'', ''collection''}"

definition get_data :: "task_result \<Rightarrow> exn + pyval" where
  "get_data t =
     (case tr_result t of
        InlineObject v _ \<Rightarrow>
          (case (tr_collection_index t, v) of
             (Some i, VList xs) \<Rightarrow>
               (case py_nth xs i of
                  None \<Rightarrow> Inl (IndexError ''list index out of range'')
                | Some x \<Rightarrow> Inr x)
           | _ \<Rightarrow> Inr v)
      | _ \<Rightarrow> Inl (ValueError ''Cannot get data from ExternalObject. Use materialize_operand() first.''))"

definition with_result :: "task_result \<Rightarrow> pyval \<Rightarrow> task_result" where
  "with_result t v = t\<lparr>tr_result := new_inline v None, tr_typename := type_name v\<rparr>"

definition with_error :: "task_result \<Rightarrow> pyval \<Rightarrow> string option \<Rightarrow> task_result" where
  "with_error t err tn =
     t\<lparr>tr_error := err,
       tr_error_typename := Some (case tn of
           Some n \<Rightarrow> if n = [] then type_name err else n
         | None \<Rightarrow> type_name err)\<rparr>"

definition to_materialized_dict :: "task_result \<Rightarrow> exn + (string, pyval) dict" where
  "to_materialized_dict t =
     sbind (if stored_type (tr_result t) = ''inline'' then get_data t else Inr VNone) (\<lambda>v.
       Inr [(''result'', v), (''result_typename'', VStr (tr_typename t)), (''error'', tr_error t),
            (''error_typename'', case tr_error_typename t of None \<Rightarrow> VNone | Some n \<Rightarrow> VStr n),
            (''interaction'', tr_interaction t),
            (''interaction_id'', case tr_interaction_id t of None \<Rightarrow> VNone | Some n \<Rightarrow> VStr n),
            (''interaction_type'', case tr_interaction_type t of None \<Rightarrow> VNone | Some n \<Rightarrow> VStr n)])"

text \<open>
  \<open>ExecutionContext\<close>: the action results, the trigger, and the optional fields
  (\<open>ENV\<close>, \<open>SECRETS\<close>, \<open>VARS\<close>, \<open>var\<close>) that the scheduler only copies.
\<close>

record exec_context =
  ctx_actions :: "(string, task_result) dict"
  ctx_trigger :: "stored_object option"
  ctx_rest :: "(string, pyval) dict"

definition empty_context :: exec_context where
  "empty_context = \<lparr>ctx_actions = [], ctx_trigger = None, ctx_rest = []\<rparr>"

definition create_default_execution_context ::
  "(string, task_result) dict option \<Rightarrow> stored_object option \<Rightarrow> (string, pyval) dict option \<Rightarrow>
   (string, pyval) dict option \<Rightarrow> exec_context" where
  "create_default_execution_context acts trigger env vars =
     \<lparr>ctx_actions = (case acts of None \<Rightarrow> [] | Some a \<Rightarrow> a), ctx_trigger = trigger,
      ctx_rest = (''ENV'', VDict (case env of None \<Rightarrow> [] | Some e \<Rightarrow> e))
        # (case vars of None \<Rightarrow> [] | Some [] \<Rightarrow> [] | Some v \<Rightarrow> [(''VARS'', VDict v)])\<rparr>"

lemma py_set_nth_length: "py_set_nth xs i v = Some ys \<Longrightarrow> length ys = length xs"
  by (auto simp: py_set_nth_def)

lemma norm_index_nonneg [simp]: "0 \<le> i \<Longrightarrow> norm_index n i = (if i < int n then Some (nat i) else None)"
  by (simp add: norm_index_def Let_def)

lemma py_nth_set_same: "py_set_nth xs i v = Some ys \<Longrightarrow> py_nth ys i = Some v"
  by (auto simp: py_set_nth_def py_nth_def norm_index_def Let_def split: if_splits)

lemma get_data_from_result [simp]: "get_data (from_result v) = Inr v"
  by (simp add: get_data_def from_result_def new_inline_def)

lemma type_name_not_Nil [simp]: "type_name v \<noteq> []"
  by (cases v rule: type_name.cases) simp_all

lemma with_error_is_error: "tr_is_error (with_error t e n) \<longleftrightarrow> e \<noteq> VNone"
  by (simp add: tr_is_error_def with_error_def)

lemma error_info_dump_roundtrip:
  "dump_error_info e = VDict d \<Longrightarrow> error_info_from_dict d = Some e"
  by (cases e) (auto simp: dump_error_info_def error_info_from_dict_def get_default_def)

text \<open>Error records round trip. Reading back the dictionary form of an error record gives the
  record, so an error that crosses an activity boundary keeps every field.\<close>

theorem error_record_roundtrip:
  "\<exists>d. dump_error_info e = VDict d \<and> error_info_from_dict d = Some e"
  using error_info_dump_roundtrip [of e] by (simp add: dump_error_info_def)

end
