(* ===== verification/Dsl_Graph.thy ===== *)
theory Dsl_Graph
  imports Dsl_Values
begin

text \<open>
  The workflow definition language: the enumerations of \<open>tracecat/dsl/enums.py\<close>, action
  statements (\<open>tracecat/dsl/schemas.py\<close>), workflow definitions and their adjacency lists
  (\<open>tracecat/dsl/common.py\<close>).
\<close>

section \<open>Enumerations\<close>

definition CHILD_WORKFLOW_EXECUTE :: string where "CHILD_WORKFLOW_EXECUTE = ''core.workflow.execute''"
definition TRANSFORM_SCATTER :: string where "TRANSFORM_SCATTER = ''core.transform.scatter''"
definition TRANSFORM_GATHER :: string where "TRANSFORM_GATHER = ''core.transform.gather''"
definition LOOP_START :: string where "LOOP_START = ''core.loop.start''"
definition LOOP_END :: string where "LOOP_END = ''core.loop.end''"
definition AI_AGENT :: string where "AI_AGENT = ''ai.agent''"
definition AI_PRESET_AGENT :: string where "AI_PRESET_AGENT = ''ai.preset_agent''"
definition AI_ACTION :: string where "AI_ACTION = ''ai.action''"
definition RUN_PYTHON :: string where "RUN_PYTHON = ''core.script.run_python''"

lemmas platform_action_defs =
  CHILD_WORKFLOW_EXECUTE_def TRANSFORM_SCATTER_def TRANSFORM_GATHER_def LOOP_START_def LOOP_END_def
  AI_AGENT_def AI_PRESET_AGENT_def AI_ACTION_def RUN_PYTHON_def

definition is_streamable :: "string \<Rightarrow> bool" where
  "is_streamable action \<longleftrightarrow> action \<in> {AI_AGENT, AI_PRESET_AGENT, AI_ACTION}"

definition interface_actions :: "string set" where
  "interface_actions =
     {CHILD_WORKFLOW_EXECUTE, TRANSFORM_SCATTER, TRANSFORM_GATHER, LOOP_START, LOOP_END,
      AI_AGENT, AI_PRESET_AGENT, AI_ACTION, RUN_PYTHON}"

definition is_interface :: "string \<Rightarrow> bool" where
  "is_interface action \<longleftrightarrow> action \<in> interface_actions"

definition is_template_step_supported :: "string \<Rightarrow> bool" where
  "is_template_step_supported action = (if \<not> is_interface action then True else action = RUN_PYTHON)"

datatype join_strategy = JoinAny | JoinAll

datatype edge_marker = PENDING | VISITED | SKIPPED

datatype edge_type = SUCCESS | ERROR

definition edge_value :: "edge_type \<Rightarrow> string" where
  "edge_value t = (case t of SUCCESS \<Rightarrow> ''success'' | ERROR \<Rightarrow> ''error'')"

datatype error_strategy = PARTITION | INCLUDE | DROP | RAISE

datatype skip_strategy = ISOLATE | PROPAGATE

definition GATHER_UNSET :: string where
  "GATHER_UNSET = ''__SENTINEL_GATHER_UNSET__''"

definition MAX_DO_WHILE_ITERATIONS :: int where
  "MAX_DO_WHILE_ITERATIONS = 2048"

definition DEFAULT_ACTION_TIMEOUT :: int where
  "DEFAULT_ACTION_TIMEOUT = 300"

section \<open>Action statements and workflow definitions\<close>

record retry_policy =
  max_attempts :: int
  retry_timeout :: int
  retry_until :: "string option"

record action_stmt =
  ref :: string
  description :: string
  action :: string
  args :: "(string, pyval) dict"
  depends_on :: "string list"
  interaction :: pyval
  run_if :: "string option"
  for_each_expr :: pyval
  retry_policy :: retry_policy
  start_delay :: rat
  wait_until :: "string option"
  join_strategy :: join_strategy
  environment :: "string option"
  mask_output :: bool

text \<open>A statement with the defaults of the model's fields.\<close>

definition new_stmt :: "string \<Rightarrow> string \<Rightarrow> action_stmt" where
  "new_stmt r act =
     \<lparr>ref = r, description = [], action = act, args = [], depends_on = [], interaction = VNone,
      run_if = None, for_each_expr = VNone,
      retry_policy = \<lparr>max_attempts = 1, retry_timeout = DEFAULT_ACTION_TIMEOUT, retry_until = None\<rparr>,
      start_delay = 0, wait_until = None, join_strategy = JoinAll, environment = None,
      mask_output = False\<rparr>"

definition slug_char :: "char \<Rightarrow> bool" where
  "slug_char c \<longleftrightarrow>
     (let n = (of_char c :: nat) in (97 \<le> n \<and> n \<le> 122) \<or> (48 \<le> n \<and> n \<le> 57) \<or> n = 95)"

text \<open>\<open>SLUG_PATTERN\<close> and \<open>ACTION_TYPE_PATTERN\<close>.\<close>

definition slug_ok :: "string \<Rightarrow> bool" where
  "slug_ok s \<longleftrightarrow> s \<noteq> [] \<and> list_all slug_char s"

definition action_type_ok :: "string \<Rightarrow> bool" where
  "action_type_ok s \<longleftrightarrow> s \<noteq> [] \<and> list_all (\<lambda>c. slug_char c \<or> c = CHR ''.'') s"

definition validate_interaction :: "action_stmt \<Rightarrow> exn + action_stmt" where
  "validate_interaction a =
     (if py_bool (interaction a) \<and> py_bool (for_each_expr a)
      then Inl (PyError ''TracecatValidationError''
             ''Interaction is not allowed when for_each is provided.'')
      else Inr a)"

record dsl_config =
  cfg_environment :: string
  cfg_timeout :: rat

record dsl_input =
  title :: string
  dsl_description :: string
  entrypoint_ref :: "string option"
  actions :: "action_stmt list"
  config :: dsl_config
  returns :: pyval
  error_handler :: "string option"

section \<open>Dependency references\<close>

type_synonym adj_dst = "string \<times> edge_type"

definition edge_components_from_dep :: "string \<Rightarrow> exn + adj_dst" where
  "edge_components_from_dep dep_ref =
     (case split_first (CHR ''.'') dep_ref of
        (src_ref, None) \<Rightarrow> Inr (src_ref, SUCCESS)
      | (src_ref, Some path) \<Rightarrow>
          if path = edge_value SUCCESS then Inr (src_ref, SUCCESS)
          else if path = edge_value ERROR then Inr (src_ref, ERROR)
          else Inl (ValueError (''Invalid edge type: '' @ path)))"

definition dep_from_edge_components :: "string \<Rightarrow> edge_type \<Rightarrow> string" where
  "dep_from_edge_components src_ref edge = src_ref @ ''.'' @ edge_value edge"

text \<open>\<open>context_locator\<close> for the default context.\<close>

definition context_locator :: "string \<Rightarrow> action_stmt \<Rightarrow> string \<Rightarrow> string" where
  "context_locator ctx stmt loc = ctx @ ''.'' @ ref stmt @ '' -> '' @ loc"

section \<open>Adjacency\<close>

text \<open>
  \<open>_to_adjacency\<close> and \<open>_to_typed_adjacency\<close>: one key per action, in definition order; an unknown
  source reference is a \<open>KeyError\<close>.
\<close>

definition append_at :: "string \<Rightarrow> 'a \<Rightarrow> (string, 'a list) dict \<Rightarrow> exn + (string, 'a list) dict" where
  "append_at k v adj =
     (case dict_get adj k of
        None \<Rightarrow> Inl (KeyError k)
      | Some xs \<Rightarrow> Inr (dict_set k (xs @ [v]) adj))"

definition init_adjacency :: "action_stmt list \<Rightarrow> (string, 'a list) dict" where
  "init_adjacency acts = fold (\<lambda>a adj. dict_set (ref a) [] adj) acts []"

definition to_typed_adjacency :: "action_stmt list \<Rightarrow> exn + (string, adj_dst list) dict" where
  "to_typed_adjacency acts =
     sfold (\<lambda>a. sfold (\<lambda>dep adj. sbind (edge_components_from_dep dep)
         (\<lambda>(src, edge). append_at src (ref a, edge) adj)) (depends_on a))
       acts (init_adjacency acts)"

definition to_adjacency :: "action_stmt list \<Rightarrow> exn + (string, string list) dict" where
  "to_adjacency acts =
     sfold (\<lambda>a. sfold (\<lambda>dep adj. sbind (edge_components_from_dep dep)
         (\<lambda>(src, _). append_at src (ref a) adj)) (depends_on a))
       acts (init_adjacency acts)"

section \<open>Lemmas on dependency references\<close>

lemma slug_no_sep:
  assumes "slug_ok s"
  shows "CHR ''.'' \<notin> set s" and "plain_scope s"
  using assms by (auto simp: slug_ok_def slug_char_def plain_scope_def list_all_iff Let_def)

lemma edge_components_from_dep_plain:
  "CHR ''.'' \<notin> set src \<Longrightarrow> edge_components_from_dep src = Inr (src, SUCCESS)"
  by (simp add: edge_components_from_dep_def)

lemma edge_components_roundtrip:
  assumes "CHR ''.'' \<notin> set src"
  shows "edge_components_from_dep (dep_from_edge_components src edge) = Inr (src, edge)"
  using assms
  by (cases edge) (simp_all add: edge_components_from_dep_def dep_from_edge_components_def edge_value_def)

lemma edge_components_cases:
  assumes "edge_components_from_dep dep = Inr (src, edge)"
  shows "dep = src \<and> edge = SUCCESS \<or> dep = dep_from_edge_components src edge"
    and "CHR ''.'' \<notin> set src"
proof -
  obtain p r where sf: "split_first (CHR ''.'') dep = (p, r)" by (cases "split_first (CHR ''.'') dep")
  have "(dep = src \<and> edge = SUCCESS \<or> dep = dep_from_edge_components src edge) \<and> CHR ''.'' \<notin> set src"
  proof (cases r)
    case None
    with sf assms have "src = p" "edge = SUCCESS"
      by (simp_all add: edge_components_from_dep_def)
    with sf None show ?thesis using split_first_None by blast
  next
    case (Some q)
    from sf Some have "dep = p @ CHR ''.'' # q \<and> CHR ''.'' \<notin> set p"
      using split_first_Some by blast
    moreover from sf Some assms have "src = p \<and> q = edge_value edge"
      by (auto simp: edge_components_from_dep_def split: if_splits)
    ultimately show ?thesis by (simp add: dep_from_edge_components_def)
  qed
  then show "dep = src \<and> edge = SUCCESS \<or> dep = dep_from_edge_components src edge"
    and "CHR ''.'' \<notin> set src" by simp_all
qed

section \<open>The adjacency lists describe the dependencies\<close>

text \<open>
  Specification side: the source and edge type of a dependency reference, and the conditions
  that \<open>validate_structure\<close> establishes before any graph is built (distinct references, every
  dependency parses and names an action).
\<close>

definition dep_edge :: "string \<Rightarrow> adj_dst" where
  "dep_edge d = (case edge_components_from_dep d of Inl _ \<Rightarrow> ([], SUCCESS) | Inr e \<Rightarrow> e)"

abbreviation dep_src :: "string \<Rightarrow> string" where
  "dep_src d \<equiv> fst (dep_edge d)"

definition dep_ok :: "action_stmt list \<Rightarrow> string \<Rightarrow> bool" where
  "dep_ok acts d =
     (case edge_components_from_dep d of Inl _ \<Rightarrow> False | Inr (s, _) \<Rightarrow> s \<in> ref ` set acts)"

definition wf_actions :: "action_stmt list \<Rightarrow> bool" where
  "wf_actions acts \<longleftrightarrow>
     distinct (map ref acts) \<and> list_all (\<lambda>a. list_all (dep_ok acts) (depends_on a)) acts"

text \<open>All dependency edges, in the order the adjacency loops meet them.\<close>

definition dep_pairs :: "action_stmt list \<Rightarrow> (action_stmt \<times> string) list" where
  "dep_pairs acts = [(a, d). a \<leftarrow> acts, d \<leftarrow> depends_on a]"

definition dep_relation :: "action_stmt list \<Rightarrow> (string \<times> string) set" where
  "dep_relation acts = {(dep_src d, ref a) | a d. a \<in> set acts \<and> d \<in> set (depends_on a)}"

lemma dep_relationI:
  "a \<in> set acts \<Longrightarrow> d \<in> set (depends_on a) \<Longrightarrow> (dep_src d, ref a) \<in> dep_relation acts"
  by (auto simp: dep_relation_def)

lemma wf_actions_dep:
  assumes "wf_actions acts" and "a \<in> set acts" and "d \<in> set (depends_on a)"
  shows "edge_components_from_dep d = Inr (dep_edge d)" and "dep_src d \<in> ref ` set acts"
proof -
  from assms have "dep_ok acts d" by (auto simp: wf_actions_def list_all_iff)
  then show "edge_components_from_dep d = Inr (dep_edge d)" and "dep_src d \<in> ref ` set acts"
    by (auto simp: dep_ok_def dep_edge_def split: sum.splits)
qed

lemma wf_actions_distinct: "wf_actions acts \<Longrightarrow> distinct (map ref acts)"
  by (simp add: wf_actions_def)

lemma wf_actions_unique:
  "wf_actions acts \<Longrightarrow> a \<in> set acts \<Longrightarrow> b \<in> set acts \<Longrightarrow> ref a = ref b \<Longrightarrow> a = b"
  by (auto simp: wf_actions_def distinct_map dest: inj_onD)

lemma sfold_append_at:
  assumes "\<And>x. x \<in> set xs \<Longrightarrow> s x \<in> set (dict_keys adj)"
  shows "\<exists>adj'. sfold (\<lambda>x. append_at (s x) (t x)) xs adj = Inr adj' \<and>
     set (dict_keys adj') = set (dict_keys adj) \<and> distinct (dict_keys adj') = distinct (dict_keys adj) \<and>
     (\<forall>k. get_default [] adj' k = get_default [] adj k @ map t (filter (\<lambda>x. s x = k) xs))"
  using assms
proof (induction xs arbitrary: adj)
  case (Cons x xs)
  from Cons.prems obtain v where v: "dict_get adj (s x) = Some v"
    using dict_keys_get by fastforce
  define adj1 where "adj1 = dict_set (s x) (v @ [t x]) adj"
  have keys: "set (dict_keys adj1) = set (dict_keys adj)"
    using Cons.prems [of x] unfolding adj1_def set_dict_keys_set by auto
  from Cons.IH [of adj1] Cons.prems keys obtain adj' where
    "sfold (\<lambda>x. append_at (s x) (t x)) xs adj1 = Inr adj'"
    "set (dict_keys adj') = set (dict_keys adj)" "distinct (dict_keys adj') = distinct (dict_keys adj)"
    "\<forall>k. get_default [] adj' k = get_default [] adj1 k @ map t (filter (\<lambda>x. s x = k) xs)"
    by (auto simp: adj1_def)
  moreover from v have "append_at (s x) (t x) adj = Inr adj1"
    by (simp add: append_at_def adj1_def)
  ultimately show ?case
    using v by (intro exI [of _ adj']) (auto simp: adj1_def get_default_def)
qed simp

lemma init_adjacency_keys: "set (dict_keys (init_adjacency acts)) = ref ` set acts"
proof -
  have "set (dict_keys (fold (\<lambda>a adj. dict_set (ref a) [] adj) acts d)) = set (dict_keys d) \<union> ref ` set acts"
    for d :: "(string, 'a list) dict"
    by (induction acts arbitrary: d) auto
  then show ?thesis by (simp add: init_adjacency_def)
qed

lemma init_adjacency_distinct: "distinct (dict_keys (init_adjacency acts))"
proof -
  have "distinct (dict_keys (fold (\<lambda>a adj. dict_set (ref a) [] adj) acts d)) = distinct (dict_keys d)"
    for d :: "(string, 'a list) dict"
    by (induction acts arbitrary: d) auto
  then show ?thesis by (simp add: init_adjacency_def)
qed

lemma init_adjacency_get: "get_default [] (init_adjacency acts) k = []"
  by (auto simp: get_default_def init_adjacency_def fold_dict_set_get split: list.splits option.splits)

lemma to_typed_adjacency_ok:
  assumes "wf_actions acts"
  obtains adj where "to_typed_adjacency acts = Inr adj"
    and "\<And>k. get_default [] adj k =
           map (\<lambda>(a, d). (ref a, snd (dep_edge d))) (filter (\<lambda>(a, d). dep_src d = k) (dep_pairs acts))"
    and "set (dict_keys adj) = ref ` set acts" and "distinct (dict_keys adj)"
proof -
  let ?s = "\<lambda>(a, d). dep_src d" and ?t = "\<lambda>(a, d). (ref a, snd (dep_edge d))"
  have "to_typed_adjacency acts = sfold (\<lambda>x. append_at (?s x) (?t x)) (dep_pairs acts) (init_adjacency acts)"
    unfolding to_typed_adjacency_def sfold_nested dep_pairs_def [symmetric]
    by (rule sfold_cong)
      (auto simp: dep_pairs_def wf_actions_dep(1) [OF assms] split: prod.splits)
  moreover have "?s x \<in> set (dict_keys (init_adjacency acts :: (string, adj_dst list) dict))" if "x \<in> set (dep_pairs acts)" for x
    using that wf_actions_dep(2) [OF assms] unfolding init_adjacency_keys by (auto simp: dep_pairs_def)
  ultimately obtain adj' where "to_typed_adjacency acts = Inr adj'"
    and "set (dict_keys adj') = set (dict_keys (init_adjacency acts :: (string, adj_dst list) dict))"
    and "distinct (dict_keys adj')"
    and "\<forall>k. get_default [] adj' k = get_default [] (init_adjacency acts) k @
      map ?t (filter (\<lambda>x. ?s x = k) (dep_pairs acts))"
    using sfold_append_at [of "dep_pairs acts" ?s "init_adjacency acts" ?t] by (auto simp: init_adjacency_distinct)
  then show ?thesis
    by (intro that [of adj']) (simp_all only: init_adjacency_get init_adjacency_keys append_Nil split_def)
qed

lemma to_adjacency_ok:
  assumes "wf_actions acts"
  obtains adj where "to_adjacency acts = Inr adj"
    and "\<And>k. get_default [] adj k = map (\<lambda>(a, d). ref a) (filter (\<lambda>(a, d). dep_src d = k) (dep_pairs acts))"
    and "set (dict_keys adj) = ref ` set acts"
proof -
  let ?s = "\<lambda>(a, d). dep_src d" and ?t = "\<lambda>(a, d). ref a"
  have "to_adjacency acts = sfold (\<lambda>x. append_at (?s x) (?t x)) (dep_pairs acts) (init_adjacency acts)"
    unfolding to_adjacency_def sfold_nested dep_pairs_def [symmetric]
    by (rule sfold_cong)
      (auto simp: dep_pairs_def wf_actions_dep(1) [OF assms] split: prod.splits)
  moreover have "?s x \<in> set (dict_keys (init_adjacency acts :: (string, string list) dict))" if "x \<in> set (dep_pairs acts)" for x
    using that wf_actions_dep(2) [OF assms] unfolding init_adjacency_keys by (auto simp: dep_pairs_def)
  ultimately obtain adj' where "to_adjacency acts = Inr adj'"
    and "set (dict_keys adj') = set (dict_keys (init_adjacency acts :: (string, string list) dict))"
    and "\<forall>k. get_default [] adj' k = get_default [] (init_adjacency acts) k @
      map ?t (filter (\<lambda>x. ?s x = k) (dep_pairs acts))"
    using sfold_append_at [of "dep_pairs acts" ?s "init_adjacency acts" ?t] by auto
  then show ?thesis
    by (intro that [of adj']) (simp_all only: init_adjacency_get init_adjacency_keys append_Nil split_def)
qed

text \<open>How often an action appears among the successors of another: once per dependency.\<close>

lemma count_successors:
  assumes "wf_actions acts" and "a \<in> set acts"
  shows "count_list (map (\<lambda>(a, d). ref a) (filter (\<lambda>(a, d). dep_src d = k) (dep_pairs acts))) (ref a) =
    length (filter (\<lambda>d. dep_src d = k) (depends_on a))"
proof -
  let ?n = "\<lambda>b. length (filter (\<lambda>d. dep_src d = k) (depends_on b))"
  have "length (filter (\<lambda>(b, d). dep_src d = k \<and> ref b = r) (dep_pairs bs)) =
      sum_list (map (\<lambda>b. if ref b = r then ?n b else 0) bs)" for bs r
    by (induction bs) (auto simp: dep_pairs_def filter_map comp_def)
  from this [of "ref a" acts] show ?thesis
    using sum_list_map_unique [OF wf_actions_distinct [OF assms(1)] assms(2), of ?n]
    by (simp add: count_list_filter_map split_def)
qed

lemma successors_are_actions:
  "r \<in> set (map (\<lambda>(a, d). ref a) (filter (\<lambda>(a, d). dep_src d = k) (dep_pairs acts))) \<Longrightarrow>
     r \<in> ref ` set acts"
  by (auto simp: dep_pairs_def)

section \<open>Round trip of dependency references\<close>

text \<open>Dependency references round trip. Printing a source and an edge type and reading the
  reference back gives the same edge; and every reference that is accepted is the printed form of its
  edge or the bare source of a success edge.\<close>

theorem dependency_reference_roundtrip:
  "(slug_ok src \<longrightarrow> edge_components_from_dep (dep_from_edge_components src edge) = Inr (src, edge)) \<and>
   (edge_components_from_dep dep = Inr (src, edge) \<longrightarrow>
      dep = dep_from_edge_components src edge \<or> dep = src \<and> edge = SUCCESS)"
  using edge_components_roundtrip [OF slug_no_sep(1)] edge_components_cases(1) by blast

theorem dependency_reference_roundtrip_witness:
  "edge_components_from_dep ''step_1.error'' = Inr (''step_1'', ERROR)"
proof -
  have "slug_ok ''step_1''" by code_simp
  moreover have "dep_from_edge_components ''step_1'' ERROR = ''step_1.error''" by code_simp
  ultimately show ?thesis using dependency_reference_roundtrip [of "''step_1''" ERROR] by simp
qed

end
