(* ===== verification/Dsl_Scopes.thy ===== *)
theory Dsl_Scopes
  imports Dsl_Graph
begin

text \<open>
  Control-flow scopes of a workflow (\<open>tracecat/dsl/common.py\<close>): \<open>_assign_action_scopes\<close>, which
  walks the graph in topological order and gives every action the scatter or loop scope it runs
  in, and the scope tests the validator uses. The main results: an accepted graph is acyclic, the
  order of visits is a topological order, and every acyclic graph of regular actions is accepted.
\<close>

named_theorems scope_simps \<open>unfolding of the scope assignment\<close>

section \<open>Errors and constants\<close>

datatype dsl_error =
    NoActions
  | DuplicateRefs "string list"
  | NoEntrypoints
  | InvalidDepRef string string
  | InvalidDeps "string list"
  | UnknownActionRef string string string
  | MoreGathersThanScatters
  | UnbalancedLoops nat nat
  | MultipleScopes string string string
  | CloserInRootScope string
  | WrongScopeType string
  | CycleDetected
  | OpenerEdgeNotParent string string
  | LoopEndEdgeNotClosed string string string
  | WrongScopeTypeForEdge string string
  | CloserEdgeNotChild string string
  | EdgeCrossesScope string string
  | OpenerExprNotParent string string string
  | LoopConditionScope string string string
  | WrongScopeTypeForExpr string string
  | CloserExprNotChild string string string
  | ExprOutOfScope string string string
  | LoopEndManyScopes string
  | LoopEndNotChild string
  | LoopEndNotLoop string
  | LoopManyEnds string string string
  | LoopNoEnd string
  | LoopUnsynchronized string string "string list"
  | PyExn exn

definition SCOPE_OPENER_ACTIONS :: "string set" where
  "SCOPE_OPENER_ACTIONS = {TRANSFORM_SCATTER, LOOP_START}"

definition SCOPE_CLOSER_ACTIONS :: "string set" where
  "SCOPE_CLOSER_ACTIONS = {TRANSFORM_GATHER, LOOP_END}"

definition CLOSER_TO_OPENER_ACTION :: "(string, string) dict" where
  "CLOSER_TO_OPENER_ACTION = [(TRANSFORM_GATHER, TRANSFORM_SCATTER), (LOOP_END, LOOP_START)]"

definition ROOT_SCOPE :: string where
  "ROOT_SCOPE = ''<root>''"

section \<open>Scope assignment\<close>

record scope_state =
  ss_scopes :: "(string, string) dict"
  ss_hierarchy :: "(string, string option) dict"
  ss_openers :: "(string, string) dict"
  ss_indegrees :: "(string, int) dict"
  ss_queue :: "(string \<times> string) list"
  ss_visited :: nat

definition assign_scope :: "string \<Rightarrow> string \<Rightarrow> scope_state \<Rightarrow> dsl_error + scope_state" where
  "assign_scope action_ref scope st =
     (case dict_get (ss_scopes st) action_ref of
        None \<Rightarrow> Inr (st\<lparr>ss_scopes := dict_set action_ref scope (ss_scopes st)\<rparr>)
      | Some old \<Rightarrow> if old \<noteq> scope then Inl (MultipleScopes action_ref old scope) else Inr st)"

text \<open>\<open>d.get(k)\<close> on a dictionary whose values may be \<open>None\<close>.\<close>

definition get_opt :: "('k, 'v option) dict \<Rightarrow> 'k \<Rightarrow> 'v option" where
  "get_opt d k = (case dict_get d k of None \<Rightarrow> None | Some v \<Rightarrow> v)"

text \<open>The scope transition of one action: the scope its successors start in.\<close>

definition scope_transition ::
  "action_stmt \<Rightarrow> string \<Rightarrow> scope_state \<Rightarrow> dsl_error + (string \<times> scope_state)" where
  "scope_transition stmt curr_scope st =
     (if action stmt \<in> SCOPE_OPENER_ACTIONS then
        sbind (assign_scope (ref stmt) (ref stmt) st) (\<lambda>st.
          Inr (ref stmt,
               st\<lparr>ss_hierarchy := dict_set (ref stmt) (Some curr_scope) (ss_hierarchy st),
                  ss_openers := dict_set (ref stmt) (action stmt) (ss_openers st)\<rparr>))
      else if action stmt \<in> SCOPE_CLOSER_ACTIONS then
        (case get_opt (ss_hierarchy st) curr_scope of
           None \<Rightarrow> Inl (CloserInRootScope (ref stmt))
         | Some next_scope \<Rightarrow>
             if dict_get (ss_openers st) curr_scope \<noteq> dict_get CLOSER_TO_OPENER_ACTION (action stmt)
             then Inl (WrongScopeType (ref stmt))
             else sbind (assign_scope (ref stmt) next_scope st) (\<lambda>st. Inr (next_scope, st)))
      else sbind (assign_scope (ref stmt) curr_scope st) (\<lambda>st. Inr (curr_scope, st)))"

text \<open>\<open>indegrees[next_ref] -= 1\<close> and the append to the queue at zero.\<close>

definition relax_edge :: "string \<Rightarrow> string \<Rightarrow> scope_state \<Rightarrow> dsl_error + scope_state" where
  "relax_edge next_scope next_ref st =
     (case dict_get (ss_indegrees st) next_ref of
        None \<Rightarrow> Inl (PyExn (KeyError next_ref))
      | Some n \<Rightarrow>
          Inr (st\<lparr>ss_indegrees := dict_set next_ref (n - 1) (ss_indegrees st),
                  ss_queue := (if n - 1 = 0 then ss_queue st @ [(next_ref, next_scope)]
                               else ss_queue st)\<rparr>))"

definition scope_visit ::
  "(string, action_stmt) dict \<Rightarrow> (string, string list) dict \<Rightarrow> string \<times> string \<Rightarrow> scope_state \<Rightarrow>
   dsl_error + scope_state" where
  "scope_visit stmts adj x st =
     (case x of (r, curr_scope) \<Rightarrow>
        (case dict_get stmts r of
           None \<Rightarrow> Inl (PyExn (KeyError r))
         | Some stmt \<Rightarrow>
             sbind (scope_transition stmt curr_scope (st\<lparr>ss_visited := ss_visited st + 1\<rparr>))
               (\<lambda>(next_scope, st). sfold (relax_edge next_scope) (get_default [] adj r) st)))"

definition scope_measure :: "scope_state \<Rightarrow> nat" where
  "scope_measure st =
     length (ss_queue st) + length (filter (\<lambda>(_, n). 0 < n) (ss_indegrees st))"

lemma count_positive_set:
  "dict_get d k = Some (n::int) \<Longrightarrow>
     length (filter (\<lambda>(_, n). 0 < n) (dict_set k (n - 1) d)) + (if n = 1 then 1 else 0)
       \<le> length (filter (\<lambda>(_, n). 0 < n) d)"
  by (induction d) (auto split: if_splits)

lemma relax_edge_measure:
  "relax_edge sc r st = Inr st' \<Longrightarrow> scope_measure st' \<le> scope_measure st"
  using count_positive_set [of "ss_indegrees st" r]
  by (force simp: relax_edge_def scope_measure_def split: option.splits if_splits)

lemma relax_edges_measure:
  "sfold (relax_edge sc) rs st = Inr st' \<Longrightarrow> scope_measure st' \<le> scope_measure st"
  by (rule sfold_invariant [where I = "\<lambda>t. scope_measure t \<le> scope_measure st"])
    (auto dest: relax_edge_measure)

lemma assign_scope_frame:
  "assign_scope r sc st = Inr st' \<Longrightarrow>
     ss_indegrees st' = ss_indegrees st \<and> ss_queue st' = ss_queue st \<and>
     ss_visited st' = ss_visited st \<and> ss_hierarchy st' = ss_hierarchy st \<and>
     ss_openers st' = ss_openers st"
  by (auto simp: assign_scope_def split: option.splits if_splits)

lemma scope_transition_frame:
  "scope_transition stmt sc st = Inr (nx, st') \<Longrightarrow>
     ss_indegrees st' = ss_indegrees st \<and> ss_queue st' = ss_queue st \<and> ss_visited st' = ss_visited st"
  by (auto simp: scope_transition_def sbind_eq_Inr dest: assign_scope_frame
      split: if_splits option.splits)

lemma scope_visit_measure:
  assumes "scope_visit stmts adj x (st\<lparr>ss_queue := q\<rparr>) = Inr st'" and "ss_queue st = x # q"
  shows "scope_measure st' < scope_measure st"
proof -
  obtain r sc where x: "x = (r, sc)" by (cases x)
  from assms(1) obtain stmt nx st1 where
    tr: "scope_transition stmt sc (st\<lparr>ss_queue := q, ss_visited := ss_visited st + 1\<rparr>) = Inr (nx, st1)"
    and fold: "sfold (relax_edge nx) (get_default [] adj r) st1 = Inr st'"
    by (auto simp: scope_visit_def x sbind_eq_Inr split: option.splits)
  from scope_transition_frame [OF tr] assms(2) have "scope_measure st1 < scope_measure st"
    by (simp add: scope_measure_def)
  with relax_edges_measure [OF fold] show ?thesis by simp
qed

text \<open>The \<open>while queue\<close> loop.\<close>

function scope_loop ::
  "(string, action_stmt) dict \<Rightarrow> (string, string list) dict \<Rightarrow> scope_state \<Rightarrow> dsl_error + scope_state"
where
  "scope_loop stmts adj st =
     (case ss_queue st of
        [] \<Rightarrow> Inr st
      | x # q \<Rightarrow> sbind (scope_visit stmts adj x (st\<lparr>ss_queue := q\<rparr>)) (\<lambda>st'. scope_loop stmts adj st'))"
  by pat_completeness auto
termination
  by (relation "measure (\<lambda>(_, _, st). scope_measure st)") (auto dest: scope_visit_measure)

declare scope_loop.simps [simp del]

definition stmts_by_ref :: "action_stmt list \<Rightarrow> (string, action_stmt) dict" where
  "stmts_by_ref acts = fold (\<lambda>a d. dict_set (ref a) a d) acts []"

definition init_indegrees :: "action_stmt list \<Rightarrow> (string, int) dict" where
  "init_indegrees acts = fold (\<lambda>a d. dict_set (ref a) (int (length (depends_on a))) d) acts []"

definition init_scope_state :: "action_stmt list \<Rightarrow> scope_state" where
  "init_scope_state acts =
     \<lparr>ss_scopes = [], ss_hierarchy = [(ROOT_SCOPE, None)], ss_openers = [],
      ss_indegrees = init_indegrees acts,
      ss_queue = [(r, ROOT_SCOPE). (r, n) \<leftarrow> init_indegrees acts, n = 0],
      ss_visited = 0\<rparr>"

type_synonym scope_maps =
  "(string, string) dict \<times> (string, string option) dict \<times> (string, string) dict"

definition assign_action_scopes ::
  "action_stmt list \<Rightarrow> (string, string list) dict \<Rightarrow> dsl_error + scope_maps" where
  "assign_action_scopes acts adj =
     sbind (scope_loop (stmts_by_ref acts) adj (init_scope_state acts)) (\<lambda>st.
       if ss_visited st \<noteq> length acts then Inl CycleDetected
       else Inr (ss_scopes st, ss_hierarchy st, ss_openers st))"

section \<open>Kahn's algorithm: the invariant\<close>

text \<open>
  \<open>vis\<close> lists the references visited so far. The counter of an action is the number of its
  dependencies whose source has not been visited, the queue holds exactly the unvisited actions
  whose counter is zero, and \<open>vis\<close> is topologically ordered.
\<close>

definition open_deps :: "string list \<Rightarrow> action_stmt \<Rightarrow> nat" where
  "open_deps vis a = length (filter (\<lambda>d. dep_src d \<notin> set vis) (depends_on a))"

fun topo_ordered :: "action_stmt list \<Rightarrow> string list \<Rightarrow> string list \<Rightarrow> bool" where
  "topo_ordered acts before [] = True"
| "topo_ordered acts before (r # rs) =
     ((\<forall>a \<in> set acts. ref a = r \<longrightarrow> dep_src ` set (depends_on a) \<subseteq> set before) \<and>
      topo_ordered acts (r # before) rs)"

definition kahn_inv :: "action_stmt list \<Rightarrow> string list \<Rightarrow> scope_state \<Rightarrow> bool" where
  "kahn_inv acts vis st \<longleftrightarrow>
     distinct (vis @ map fst (ss_queue st)) \<and>
     set (vis @ map fst (ss_queue st)) \<subseteq> ref ` set acts \<and>
     ss_visited st = length vis \<and>
     (\<forall>a \<in> set acts. dict_get (ss_indegrees st) (ref a) = Some (int (open_deps vis a))) \<and>
     (\<forall>a \<in> set acts. open_deps vis a = 0 \<longleftrightarrow> ref a \<in> set (vis @ map fst (ss_queue st))) \<and>
     topo_ordered acts [] vis"

lemma topo_ordered_append:
  "topo_ordered acts b (xs @ ys) \<longleftrightarrow> topo_ordered acts b xs \<and> topo_ordered acts (rev xs @ b) ys"
  by (induction xs arbitrary: b) auto

lemma relax_edges:
  assumes "\<And>k. k \<in> set ks \<Longrightarrow> \<exists>n. dict_get (ss_indegrees st) k = Some n \<and> int (count_list ks k) \<le> n"
  shows "\<exists>st' new. sfold (relax_edge nx) ks st = Inr st' \<and>
     (\<forall>k. dict_get (ss_indegrees st') k =
        map_option (\<lambda>n. n - int (count_list ks k)) (dict_get (ss_indegrees st) k)) \<and>
     ss_queue st' = ss_queue st @ map (\<lambda>k. (k, nx)) new \<and> distinct new \<and>
     set new = {k \<in> set ks. dict_get (ss_indegrees st) k = Some (int (count_list ks k))} \<and>
     ss_scopes st' = ss_scopes st \<and> ss_hierarchy st' = ss_hierarchy st \<and>
     ss_openers st' = ss_openers st \<and> ss_visited st' = ss_visited st"
  using assms
proof (induction ks arbitrary: st)
  case Nil
  then show ?case by (auto simp: option.map_ident)
next
  case (Cons k ks)
  from Cons.prems [of k] obtain n where
    n: "dict_get (ss_indegrees st) k = Some n" "int (count_list ks k) + 1 \<le> n" by auto
  define st1 where "st1 = st\<lparr>ss_indegrees := dict_set k (n - 1) (ss_indegrees st),
     ss_queue := (if n - 1 = 0 then ss_queue st @ [(k, nx)] else ss_queue st)\<rparr>"
  have step: "relax_edge nx k st = Inr st1" by (simp add: relax_edge_def n st1_def)
  have "\<exists>m. dict_get (ss_indegrees st1) j = Some m \<and> int (count_list ks j) \<le> m" if "j \<in> set ks" for j
    using Cons.prems [of j] that n by (auto simp: st1_def split: if_splits)
  from Cons.IH [OF this] obtain st' new where IH:
    "sfold (relax_edge nx) ks st1 = Inr st'"
    "\<forall>k. dict_get (ss_indegrees st') k =
        map_option (\<lambda>n. n - int (count_list ks k)) (dict_get (ss_indegrees st1) k)"
    "ss_queue st' = ss_queue st1 @ map (\<lambda>k. (k, nx)) new" "distinct new"
    "set new = {k \<in> set ks. dict_get (ss_indegrees st1) k = Some (int (count_list ks k))}"
    "ss_scopes st' = ss_scopes st1" "ss_hierarchy st' = ss_hierarchy st1"
    "ss_openers st' = ss_openers st1" "ss_visited st' = ss_visited st1"
    by blast
  have notin: "count_list ks j = 0" if "j \<notin> set ks" for j
    using that by (simp add: count_list_0_iff)
  let ?new = "if n = 1 then k # new else new"
  have k_new: "k \<in> set new \<longleftrightarrow> k \<in> set ks \<and> n - 1 = int (count_list ks k)"
    using IH(5) by (simp add: st1_def)
  have pos: "0 < count_list ks k" if "k \<in> set ks"
    using that count_list_0_iff [of ks k] by simp
  have "j \<in> set ?new \<longleftrightarrow> j \<in> set (k # ks) \<and>
      dict_get (ss_indegrees st) j = Some (int (count_list (k # ks) j))" for j
  proof (cases "j = k")
    case True
    then show ?thesis using k_new pos notin [of k] n by auto
  next
    case False
    then show ?thesis using IH(5) by (simp add: st1_def)
  qed
  then have set_new: "set ?new = {j \<in> set (k # ks). dict_get (ss_indegrees st) j = Some (int (count_list (k # ks) j))}"
    by blast
  have "distinct ?new" using IH(4) k_new pos by auto
  moreover have "dict_get (ss_indegrees st') j =
      map_option (\<lambda>n. n - int (count_list (k # ks) j)) (dict_get (ss_indegrees st) j)" for j
    using IH(2) n(1) by (cases "j = k") (simp_all add: st1_def)
  moreover have "sfold (relax_edge nx) (k # ks) st = Inr st'" using step IH(1) by simp
  moreover have "ss_queue st' = ss_queue st @ map (\<lambda>k. (k, nx)) ?new"
    using IH(3) by (simp add: st1_def)
  moreover have "ss_scopes st' = ss_scopes st" "ss_hierarchy st' = ss_hierarchy st"
    "ss_openers st' = ss_openers st" "ss_visited st' = ss_visited st"
    using IH(6-9) by (simp_all add: st1_def)
  ultimately show ?case using set_new by blast
qed

lemma open_deps_snoc:
  "int (open_deps (vis @ [r]) a) =
     int (open_deps vis a) - (if r \<in> set vis then 0 else int (length (filter (\<lambda>d. dep_src d = r) (depends_on a))))"
proof -
  have "length (filter (\<lambda>d. dep_src d \<notin> set vis) ds) =
      length (filter (\<lambda>d. dep_src d \<notin> set (vis @ [r])) ds) +
      (if r \<in> set vis then 0 else length (filter (\<lambda>d. dep_src d = r) ds))" for ds
    by (induction ds) auto
  from this [of "depends_on a"] show ?thesis by (simp add: open_deps_def)
qed

text \<open>One visit moves the head of the queue to the end of the visited list.\<close>

lemma kahn_inv_relax:
  assumes wf: "wf_actions acts"
    and adj: "\<And>k. get_default [] adj k = map (\<lambda>(a, d). ref a) (filter (\<lambda>(a, d). dep_src d = k) (dep_pairs acts))"
    and inv: "kahn_inv acts vis st" and q: "ss_queue st = (r, sc) # q"
    and frame: "ss_indegrees st1 = ss_indegrees st" "ss_queue st1 = q" "ss_visited st1 = Suc (ss_visited st)"
  shows "\<exists>st' new. sfold (relax_edge nx) (get_default [] adj r) st1 = Inr st' \<and>
     kahn_inv acts (vis @ [r]) st' \<and> ss_queue st' = q @ map (\<lambda>k. (k, nx)) new \<and>
     ss_scopes st' = ss_scopes st1 \<and> ss_hierarchy st' = ss_hierarchy st1 \<and> ss_openers st' = ss_openers st1"
proof -
  let ?ks = "get_default [] adj r" and ?n = "\<lambda>a. length (filter (\<lambda>d. dep_src d = r) (depends_on a))"
  have r: "r \<notin> set vis" "r \<notin> fst ` set q" "r \<in> ref ` set acts"
    using inv q by (auto simp: kahn_inv_def)
  have ind: "dict_get (ss_indegrees st1) (ref a) = Some (int (open_deps vis a))" if "a \<in> set acts" for a
    using inv frame that by (simp add: kahn_inv_def)
  have cnt: "count_list ?ks (ref a) = ?n a" if "a \<in> set acts" for a
    using count_successors [OF wf that] by (simp add: adj)
  have snoc: "int (open_deps (vis @ [r]) a) = int (open_deps vis a) - int (?n a)" for a
    using open_deps_snoc [of vis r a] r by simp
  then have le: "int (?n a) \<le> int (open_deps vis a)" for a
    using snoc [of a] by linarith
  have ks: "k \<in> ref ` set acts" if "k \<in> set ?ks" for k
    using that successors_are_actions [of k r acts] by (simp add: adj)
  have "\<exists>n. dict_get (ss_indegrees st1) k = Some n \<and> int (count_list ?ks k) \<le> n" if "k \<in> set ?ks" for k
    using ks [OF that] ind cnt le by auto
  from relax_edges [of ?ks st1 nx, OF this] obtain st' new where st':
    "sfold (relax_edge nx) ?ks st1 = Inr st'"
    "\<And>k. dict_get (ss_indegrees st') k =
        map_option (\<lambda>n. n - int (count_list ?ks k)) (dict_get (ss_indegrees st1) k)"
    "ss_queue st' = ss_queue st1 @ map (\<lambda>k. (k, nx)) new" "distinct new"
    "set new = {k \<in> set ?ks. dict_get (ss_indegrees st1) k = Some (int (count_list ?ks k))}"
    "ss_scopes st' = ss_scopes st1" "ss_hierarchy st' = ss_hierarchy st1"
    "ss_openers st' = ss_openers st1" "ss_visited st' = ss_visited st1"
    by blast
  have ind': "dict_get (ss_indegrees st') (ref a) = Some (int (open_deps (vis @ [r]) a))" if "a \<in> set acts" for a
    using st'(2) ind cnt snoc that by simp
  have new_iff: "ref a \<in> set new \<longleftrightarrow> 0 < open_deps vis a \<and> open_deps (vis @ [r]) a = 0" if "a \<in> set acts" for a
  proof -
    have "ref a \<in> set ?ks \<longleftrightarrow> 0 < ?n a"
      using cnt [OF that] count_list_0_iff [of ?ks "ref a"] by (metis gr0I less_irrefl)
    then have "ref a \<in> set new \<longleftrightarrow> 0 < ?n a \<and> open_deps vis a = ?n a"
      unfolding st'(5) mem_Collect_eq ind [OF that] cnt [OF that] by simp
    then show ?thesis using snoc [of a] by linarith
  qed
  have old: "open_deps vis a = 0 \<longleftrightarrow> ref a \<in> set vis \<or> ref a = r \<or> ref a \<in> fst ` set q" if "a \<in> set acts" for a
    using inv q that by (auto simp: kahn_inv_def)
  have new_acts: "set new \<subseteq> ref ` set acts" using st'(5) ks by auto
  have "k \<notin> set (vis @ r # map fst q)" if "k \<in> set new" for k
  proof -
    from that new_acts obtain a where "a \<in> set acts" "k = ref a" by auto
    with that new_iff [of a] old [of a] show ?thesis by auto
  qed
  moreover have "distinct (vis @ r # map fst q)" using inv q by (simp add: kahn_inv_def)
  ultimately have "distinct (vis @ r # map fst q @ new)" using st'(4) by auto
  moreover have "open_deps (vis @ [r]) a = 0 \<longleftrightarrow> ref a \<in> set (vis @ r # map fst q @ new)"
    if "a \<in> set acts" for a
  proof -
    have "open_deps (vis @ [r]) a \<le> open_deps vis a" using snoc [of a] by linarith
    then show ?thesis using new_iff [OF that] old [OF that] by auto
  qed
  moreover have "topo_ordered acts [] (vis @ [r])"
  proof -
    have "dep_src ` set (depends_on a) \<subseteq> set vis" if "a \<in> set acts" "ref a = r" for a
      using old [OF that(1)] that(2) by (auto simp: open_deps_def filter_empty_conv)
    with inv show ?thesis by (simp add: kahn_inv_def topo_ordered_append)
  qed
  moreover have "map fst (ss_queue st') = map fst q @ new" and "ss_visited st' = Suc (length vis)"
    using st'(3,9) frame inv by (simp_all add: comp_def kahn_inv_def)
  moreover have "set (vis @ r # map fst q @ new) \<subseteq> ref ` set acts"
    using inv q new_acts by (auto simp: kahn_inv_def)
  ultimately have "kahn_inv acts (vis @ [r]) st'"
    using ind' by (simp add: kahn_inv_def)
  with st' frame show ?thesis by blast
qed

lemma stmts_by_ref_get:
  assumes "wf_actions acts"
  shows "dict_get (stmts_by_ref acts) r = Some a \<longleftrightarrow> a \<in> set acts \<and> ref a = r"
proof (cases "r \<in> ref ` set acts")
  case True
  then obtain b where b: "b \<in> set acts" "r = ref b" by auto
  then have "dict_get (stmts_by_ref acts) r = Some b"
    using fold_dict_set_distinct [OF wf_actions_distinct [OF assms] b(1), of "\<lambda>a. a" "[]"]
    by (simp add: stmts_by_ref_def)
  with b wf_actions_unique [OF assms] show ?thesis by auto
next
  case False
  then have "dict_get (stmts_by_ref acts) r = None"
    using fold_dict_set_None [of r ref acts "\<lambda>a. a" "[]"] by (simp add: stmts_by_ref_def)
  with False show ?thesis by auto
qed

lemma scope_visit_kahn:
  assumes wf: "wf_actions acts" and adj: "to_adjacency acts = Inr adj"
    and inv: "kahn_inv acts vis st" and q: "ss_queue st = (r, sc) # q"
    and visit: "scope_visit (stmts_by_ref acts) adj (r, sc) (st\<lparr>ss_queue := q\<rparr>) = Inr st'"
  shows "kahn_inv acts (vis @ [r]) st'"
proof -
  from to_adjacency_ok [OF wf] adj have
    eq: "\<And>k. get_default [] adj k = map (\<lambda>(a, d). ref a) (filter (\<lambda>(a, d). dep_src d = k) (dep_pairs acts))"
    by (metis sum.inject(2))
  from visit obtain stmt nx st1 where
    tr: "scope_transition stmt sc (st\<lparr>ss_queue := q, ss_visited := ss_visited st + 1\<rparr>) = Inr (nx, st1)"
    and fold: "sfold (relax_edge nx) (get_default [] adj r) st1 = Inr st'"
    by (auto simp: scope_visit_def sbind_eq_Inr split: option.splits)
  from scope_transition_frame [OF tr] have
    "ss_indegrees st1 = ss_indegrees st" "ss_queue st1 = q" "ss_visited st1 = Suc (ss_visited st)"
    by simp_all
  from kahn_inv_relax [OF wf eq inv q this, of nx] fold show ?thesis by auto
qed

lemma scope_loop_kahn:
  assumes wf: "wf_actions acts" and "to_adjacency acts = Inr adj"
    and "kahn_inv acts vis st" and "scope_loop (stmts_by_ref acts) adj st = Inr st'"
  shows "\<exists>vis'. kahn_inv acts vis' st' \<and> ss_queue st' = []"
  using assms(2-4)
proof (induction "stmts_by_ref acts" adj st arbitrary: vis rule: scope_loop.induct)
  case (1 adj st)
  show ?case
  proof (cases "ss_queue st")
    case Nil
    with "1.prems" show ?thesis by (auto simp: scope_loop.simps [of _ _ st])
  next
    case (Cons x q)
    obtain r sc where x: "x = (r, sc)" by (cases x)
    from "1.prems"(3) Cons obtain st1 where
      visit: "scope_visit (stmts_by_ref acts) adj x (st\<lparr>ss_queue := q\<rparr>) = Inr st1"
      and rest: "scope_loop (stmts_by_ref acts) adj st1 = Inr st'"
      by (auto simp: scope_loop.simps [of _ _ st] sbind_eq_Inr)
    from scope_visit_kahn [OF wf "1.prems"(1,2) _ visit [unfolded x]] Cons x
    have "kahn_inv acts (vis @ [r]) st1" by simp
    from "1.hyps" [OF Cons visit "1.prems"(1) this rest] show ?thesis .
  qed
qed

lemma init_indegrees_get:
  assumes "wf_actions acts" and "a \<in> set acts"
  shows "dict_get (init_indegrees acts) (ref a) = Some (int (length (depends_on a)))"
  using fold_dict_set_distinct [OF wf_actions_distinct [OF assms(1)] assms(2)]
  by (simp add: init_indegrees_def)

lemma init_indegrees_eq:
  "wf_actions acts \<Longrightarrow> init_indegrees acts = map (\<lambda>a. (ref a, int (length (depends_on a)))) acts"
  using fold_dict_set_keys [of "[]" ref acts "\<lambda>a. int (length (depends_on a))"]
  by (simp add: init_indegrees_def wf_actions_def)

lemma init_scope_queue:
  "wf_actions acts \<Longrightarrow>
     ss_queue (init_scope_state acts) = map (\<lambda>a. (ref a, ROOT_SCOPE)) (filter (\<lambda>a. depends_on a = []) acts)"
proof -
  have "[(r, ROOT_SCOPE). (r, n) \<leftarrow> map (\<lambda>a. (ref a, int (length (depends_on a)))) as, n = 0] =
      map (\<lambda>a. (ref a, ROOT_SCOPE)) (filter (\<lambda>a. depends_on a = []) as)" for as
    by (induction as) auto
  moreover assume "wf_actions acts"
  ultimately show ?thesis by (simp only: init_scope_state_def init_indegrees_eq scope_state.select_convs)
qed

lemma kahn_inv_init:
  assumes "wf_actions acts"
  shows "kahn_inv acts [] (init_scope_state acts)"
proof -
  have "distinct (map ref (filter (\<lambda>a. depends_on a = []) acts))"
    using wf_actions_distinct [OF assms] by (rule distinct_map_filter)
  moreover have "ref a \<in> ref ` {b \<in> set acts. depends_on b = []} \<longleftrightarrow> depends_on a = []"
    if "a \<in> set acts" for a
    using that wf_actions_unique [OF assms that] by auto
  ultimately show ?thesis
    using init_indegrees_get [OF assms] init_scope_queue [OF assms]
    by (auto simp: kahn_inv_def open_deps_def comp_def init_scope_state_def)
qed

lemma takeWhile_neq_append: "t \<notin> set xs \<Longrightarrow> takeWhile (\<lambda>x. x \<noteq> t) (xs @ t # ys) = xs"
  by (induction xs) auto

lemma topo_ordered_acyclic:
  assumes "topo_ordered acts [] vis" and "distinct vis" and "set vis = ref ` set acts"
  shows "acyclic (dep_relation acts)"
proof (rule wf_acyclic [OF wf_subset [OF wf_measure]], rule subrelI)
  fix s t
  assume "(s, t) \<in> dep_relation acts"
  then obtain a d where a: "a \<in> set acts" "t = ref a" "d \<in> set (depends_on a)" "s = dep_src d"
    by (auto simp: dep_relation_def)
  then have "t \<in> set vis" using assms(3) by auto
  then obtain xs ys where vis: "vis = xs @ t # ys" by (auto dest: split_list)
  with assms(1) a have "s \<in> set xs" by (auto simp: topo_ordered_append)
  then obtain us vs where xs: "xs = us @ s # vs" "s \<notin> set us" by (metis split_list_first)
  have "takeWhile (\<lambda>x. x \<noteq> t) vis = xs"
    using vis assms(2) by (simp add: takeWhile_neq_append)
  moreover have "takeWhile (\<lambda>x. x \<noteq> s) vis = us"
    using takeWhile_neq_append [OF xs(2), of "vs @ t # ys"] by (simp add: vis xs)
  ultimately show "(s, t) \<in> measure (\<lambda>r. length (takeWhile (\<lambda>x. x \<noteq> r) vis))"
    using xs by simp
qed

text \<open>An accepted graph: the visits cover all actions in a topological order.\<close>

lemma assign_action_scopes_order:
  assumes wf: "wf_actions acts" and adj: "to_adjacency acts = Inr adj"
    and ok: "assign_action_scopes acts adj = Inr maps"
  obtains vis where "topo_ordered acts [] vis" "distinct vis" "set vis = ref ` set acts"
proof -
  from ok obtain st where loop: "scope_loop (stmts_by_ref acts) adj (init_scope_state acts) = Inr st"
    and n: "ss_visited st = length acts"
    by (auto simp: assign_action_scopes_def sbind_eq_Inr split: if_splits)
  from scope_loop_kahn [OF wf adj kahn_inv_init [OF wf] loop] obtain vis where
    inv: "kahn_inv acts vis st" by blast
  then have "set vis \<subseteq> ref ` set acts" "distinct vis" "length vis = length acts"
    "topo_ordered acts [] vis" using n by (auto simp: kahn_inv_def)
  moreover have "card (ref ` set acts) = length acts"
    using wf_actions_distinct [OF wf] by (metis distinct_card length_map set_map)
  ultimately show ?thesis
    using that [of vis] by (metis card_subset_eq distinct_card finite_imageI finite_set)
qed

section \<open>Graphs of regular actions\<close>

definition regular_action :: "action_stmt \<Rightarrow> bool" where
  "regular_action a \<longleftrightarrow> action a \<notin> SCOPE_OPENER_ACTIONS \<and> action a \<notin> SCOPE_CLOSER_ACTIONS"

definition root_only :: "string list \<Rightarrow> scope_state \<Rightarrow> bool" where
  "root_only vis st \<longleftrightarrow>
     set (dict_keys (ss_scopes st)) = set vis \<and> snd ` set (ss_scopes st) \<subseteq> {ROOT_SCOPE} \<and>
     snd ` set (ss_queue st) \<subseteq> {ROOT_SCOPE} \<and>
     ss_hierarchy st = [(ROOT_SCOPE, None)] \<and> ss_openers st = []"

lemma snd_dict_set: "snd ` set (dict_set k v d) \<subseteq> insert v (snd ` set d)"
  by (induction d) auto

lemma root_only_visit:
  assumes wf: "wf_actions acts" and adj: "to_adjacency acts = Inr adj"
    and reg: "\<forall>a \<in> set acts. regular_action a"
    and inv: "kahn_inv acts vis st" and root: "root_only vis st" and q: "ss_queue st = (r, sc) # q"
  shows "\<exists>st'. scope_visit (stmts_by_ref acts) adj (r, sc) (st\<lparr>ss_queue := q\<rparr>) = Inr st' \<and>
     root_only (vis @ [r]) st'"
proof -
  from to_adjacency_ok [OF wf] adj have
    eq: "\<And>k. get_default [] adj k = map (\<lambda>(a, d). ref a) (filter (\<lambda>(a, d). dep_src d = k) (dep_pairs acts))"
    by (metis sum.inject(2))
  from inv q obtain a where a: "a \<in> set acts" "ref a = r" by (auto simp: kahn_inv_def)
  with wf have stmt: "dict_get (stmts_by_ref acts) r = Some a" by (simp add: stmts_by_ref_get)
  have sc: "sc = ROOT_SCOPE" using root q by (auto simp: root_only_def)
  have "r \<notin> set (dict_keys (ss_scopes st))" using root inv q by (auto simp: root_only_def kahn_inv_def)
  then have fresh: "dict_get (ss_scopes st) r = None" by (simp add: dict_get_None_iff)
  define st1 where "st1 = st\<lparr>ss_scopes := dict_set r ROOT_SCOPE (ss_scopes st), ss_queue := q,
    ss_visited := Suc (ss_visited st)\<rparr>"
  have tr: "scope_transition a sc (st\<lparr>ss_queue := q, ss_visited := ss_visited st + 1\<rparr>) = Inr (ROOT_SCOPE, st1)"
    using reg a fresh sc by (simp add: scope_transition_def regular_action_def assign_scope_def st1_def)
  obtain st' new where st': "sfold (relax_edge ROOT_SCOPE) (get_default [] adj r) st1 = Inr st'"
    "ss_queue st' = q @ map (\<lambda>k. (k, ROOT_SCOPE)) new"
    "ss_scopes st' = ss_scopes st1" "ss_hierarchy st' = ss_hierarchy st1" "ss_openers st' = ss_openers st1"
    using kahn_inv_relax [OF wf eq inv q, of st1 ROOT_SCOPE] by (auto simp: st1_def)
  have "scope_visit (stmts_by_ref acts) adj (r, sc) (st\<lparr>ss_queue := q\<rparr>) = Inr st'"
    using tr st'(1) stmt by (simp add: scope_visit_def)
  moreover have "root_only (vis @ [r]) st'"
    using root q st' snd_dict_set [of r ROOT_SCOPE "ss_scopes st"] sc
    by (auto simp: root_only_def st1_def)
  ultimately show ?thesis by blast
qed

lemma root_only_loop:
  assumes wf: "wf_actions acts" and reg: "\<forall>a \<in> set acts. regular_action a"
    and "to_adjacency acts = Inr adj" and "kahn_inv acts vis st" and "root_only vis st"
  shows "\<exists>vis' st'. scope_loop (stmts_by_ref acts) adj st = Inr st' \<and> kahn_inv acts vis' st' \<and>
     root_only vis' st' \<and> ss_queue st' = []"
  using assms(3-5)
proof (induction "stmts_by_ref acts" adj st arbitrary: vis rule: scope_loop.induct)
  case (1 adj st)
  show ?case
  proof (cases "ss_queue st")
    case Nil
    with "1.prems" show ?thesis by (auto simp: scope_loop.simps [of _ _ st])
  next
    case (Cons x q)
    obtain r sc where x: "x = (r, sc)" by (cases x)
    from root_only_visit [OF wf "1.prems"(1) reg "1.prems"(2,3)] Cons x obtain st1 where
      visit: "scope_visit (stmts_by_ref acts) adj x (st\<lparr>ss_queue := q\<rparr>) = Inr st1"
      and root: "root_only (vis @ [r]) st1" by blast
    from scope_visit_kahn [OF wf "1.prems"(1,2) _ visit [unfolded x]] Cons x
    have "kahn_inv acts (vis @ [r]) st1" by simp
    from "1.hyps" [OF Cons visit "1.prems"(1) this root] show ?thesis
      using Cons visit by (simp add: scope_loop.simps [of _ _ st])
  qed
qed

text \<open>An acyclic graph whose every action with finished dependencies is finished is finished.\<close>

lemma acyclic_all_finished:
  assumes wf: "wf_actions acts" and acyc: "acyclic (dep_relation acts)"
    and closed: "\<And>a. a \<in> set acts \<Longrightarrow> dep_src ` set (depends_on a) \<subseteq> D \<Longrightarrow> ref a \<in> D"
  shows "ref ` set acts \<subseteq> D"
proof (rule ccontr)
  assume "\<not> ref ` set acts \<subseteq> D"
  then obtain z where z: "z \<in> ref ` set acts - D" by blast
  have "dep_relation acts = (\<lambda>(a, d). (dep_src d, ref a)) ` set (dep_pairs acts)"
    by (force simp: dep_relation_def dep_pairs_def)
  then have "finite (dep_relation acts)" by simp
  from wfE_min [OF finite_acyclic_wf [OF this acyc] z] obtain r where
    r: "r \<in> ref ` set acts - D" and min: "\<And>y. (y, r) \<in> dep_relation acts \<Longrightarrow> y \<notin> ref ` set acts - D" by blast
  then obtain a where a: "a \<in> set acts" "r = ref a" by auto
  have "dep_src d \<in> D" if "d \<in> set (depends_on a)" for d
    using min [of "dep_src d"] wf_actions_dep(2) [OF wf a(1) that] a that by (auto simp: dep_relation_def)
  with closed [OF a(1)] r a show False by auto
qed

lemma kahn_all_visited:
  assumes wf: "wf_actions acts" and acyc: "acyclic (dep_relation acts)"
    and inv: "kahn_inv acts vis st" and q: "ss_queue st = []"
  shows "set vis = ref ` set acts"
proof
  show "ref ` set acts \<subseteq> set vis"
  proof (rule acyclic_all_finished [OF wf acyc])
    fix a
    assume a: "a \<in> set acts" "dep_src ` set (depends_on a) \<subseteq> set vis"
    then have "open_deps vis a = 0" by (auto simp: open_deps_def filter_empty_conv)
    with inv a(1) q show "ref a \<in> set vis" by (simp add: kahn_inv_def)
  qed
qed (use inv in \<open>simp add: kahn_inv_def\<close>)

section \<open>Properties\<close>

text \<open>C22: an accepted graph is acyclic. If \<open>_assign_action_scopes\<close> returns for a definition
  with unique references and resolvable dependencies, then no action depends on itself, directly
  or through others: Kahn's algorithm with its visit count rejects every cycle.\<close>

theorem accepted_graph_acyclic:
  assumes "wf_actions acts" and "to_adjacency acts = Inr adj"
    and "assign_action_scopes acts adj = Inr maps"
  shows "acyclic (dep_relation acts)"
proof -
  from assign_action_scopes_order [OF assms] obtain vis where
    "topo_ordered acts [] vis" "distinct vis" "set vis = ref ` set acts" .
  then show ?thesis by (rule topo_ordered_acyclic)
qed

definition diamond_actions :: "action_stmt list" where
  "diamond_actions =
     [new_stmt ''a'' ''core.http'',
      (new_stmt ''b'' ''core.http'')\<lparr>depends_on := [''a'']\<rparr>,
      (new_stmt ''c'' ''core.http'')\<lparr>depends_on := [''a.error'']\<rparr>,
      (new_stmt ''d'' ''core.http'')\<lparr>depends_on := [''b.success'', ''c'']\<rparr>]"

definition diamond_adjacency :: "(string, string list) dict" where
  "diamond_adjacency = [(''a'', [''b'', ''c'']), (''b'', [''d'']), (''c'', [''d'']), (''d'', [])]"

lemma diamond_wf: "wf_actions diamond_actions"
  by code_simp

lemma diamond_adj: "to_adjacency diamond_actions = Inr diamond_adjacency"
  by code_simp

theorem accepted_graph_acyclic_witness: "acyclic (dep_relation diamond_actions)"
proof (rule accepted_graph_acyclic [OF diamond_wf diamond_adj])
  show "assign_action_scopes diamond_actions diamond_adjacency =
      Inr (map (\<lambda>r. (r, ROOT_SCOPE)) [''a'', ''b'', ''c'', ''d''], [(ROOT_SCOPE, None)], [])"
    by code_simp
qed

text \<open>Completeness of the scope assignment. Every acyclic graph of regular actions (no
  scatter, gather or loop action) is accepted, and each of its actions is in the root scope.\<close>

theorem regular_acyclic_accepted:
  assumes wf: "wf_actions acts" and reg: "\<forall>a \<in> set acts. regular_action a"
    and acyc: "acyclic (dep_relation acts)" and adj: "to_adjacency acts = Inr adj"
  shows "\<exists>scopes. assign_action_scopes acts adj = Inr (scopes, [(ROOT_SCOPE, None)], []) \<and>
     (\<forall>a \<in> set acts. dict_get scopes (ref a) = Some ROOT_SCOPE)"
proof -
  have "root_only [] (init_scope_state acts)"
    by (auto simp: root_only_def init_scope_state_def)
  from root_only_loop [OF wf reg adj kahn_inv_init [OF wf] this] obtain vis st where
    loop: "scope_loop (stmts_by_ref acts) adj (init_scope_state acts) = Inr st"
    and inv: "kahn_inv acts vis st" and root: "root_only vis st" and q: "ss_queue st = []" by blast
  from kahn_all_visited [OF wf acyc inv q] have vis: "set vis = ref ` set acts" .
  have "ss_visited st = length vis" "distinct vis" using inv by (simp_all add: kahn_inv_def)
  then have "ss_visited st = length acts"
    using vis wf_actions_distinct [OF wf] by (metis distinct_card length_map set_map)
  then have "assign_action_scopes acts adj = Inr (ss_scopes st, [(ROOT_SCOPE, None)], [])"
    using loop root by (simp add: assign_action_scopes_def root_only_def)
  moreover have "dict_get (ss_scopes st) (ref a) = Some ROOT_SCOPE" if "a \<in> set acts" for a
  proof -
    from that vis root have "ref a \<in> set (dict_keys (ss_scopes st))" by (auto simp: root_only_def)
    then obtain sc where "dict_get (ss_scopes st) (ref a) = Some sc" using dict_keys_get by fastforce
    moreover from this have "sc \<in> snd ` set (ss_scopes st)" by (force dest: map_of_SomeD)
    ultimately show ?thesis using root by (auto simp: root_only_def)
  qed
  ultimately show ?thesis by blast
qed

lemma diamond_acyclic: "acyclic (dep_relation diamond_actions)"
proof (rule topo_ordered_acyclic)
  show "topo_ordered diamond_actions [] [''a'', ''b'', ''c'', ''d'']" by code_simp
  show "distinct [''a'', ''b'', ''c'', ''d'']" by simp
  show "set [''a'', ''b'', ''c'', ''d''] = ref ` set diamond_actions"
    by (simp add: diamond_actions_def new_stmt_def)
qed

theorem regular_acyclic_accepted_witness:
  "\<exists>scopes. assign_action_scopes diamond_actions diamond_adjacency = Inr (scopes, [(ROOT_SCOPE, None)], []) \<and>
     (\<forall>a \<in> set diamond_actions. dict_get scopes (ref a) = Some ROOT_SCOPE)"
proof (rule regular_acyclic_accepted [OF diamond_wf _ diamond_acyclic diamond_adj])
  show "\<forall>a \<in> set diamond_actions. regular_action a" by code_simp
qed

end
