(* ===== verification/Dsl_Expressions.thy ===== *)
theory Dsl_Expressions
  imports Dsl_Graph
begin

text \<open>
  Finding the actions that templated values refer to: the traversal of nested values and the
  \<open>${{ ... }}\<close> pattern (\<open>tracecat/parse.py\<close>, \<open>tracecat/expressions/patterns.py\<close>), and the
  extraction of action references (\<open>extract_expressions\<close> of \<open>tracecat/expressions/core.py\<close>).
  Parsing one expression is the Lark parser's work; the development is parameterised by a function
  that returns the texts of the \<open>actions\<close> nodes of the parse tree, or \<open>None\<close> where it fails.
\<close>

section \<open>Traversal\<close>

function traverse_nodes :: "pyval \<Rightarrow> pyval list" where
  "traverse_nodes v =
     (case v of
        VDict d \<Rightarrow> concat (map (\<lambda>kv. VStr (fst kv) # traverse_nodes (snd kv)) d)
      | VList xs \<Rightarrow> concat (map traverse_nodes xs)
      | _ \<Rightarrow> [v])"
  by pat_completeness auto
termination
proof (relation "measure size")
  fix v d kv
  assume "v = VDict d" and "kv \<in> set d"
  from size_entry [OF this] show "(snd kv, v) \<in> measure size" by simp
next
  fix v xs x
  assume "v = VList xs" and "x \<in> set xs"
  from size_item [OF this] show "(x, v) \<in> measure size" by simp
qed simp

declare traverse_nodes.simps [simp del]

section \<open>The template pattern\<close>

text \<open>
  \<open>(.+?)\s*}}\<close> from the start of \<open>s\<close>, after at least one character of the expression: the
  shortest expression, with the text after the closing braces.
\<close>

definition close_braces :: "string \<Rightarrow> string option" where
  "close_braces s =
     (case dropWhile py_space s of
        a # b # t \<Rightarrow> if a = CHR ''}'' \<and> b = CHR ''}'' then Some t else None
      | _ \<Rightarrow> None)"

fun lazy_expr :: "string \<Rightarrow> (string \<times> string) option" where
  "lazy_expr [] = None"
| "lazy_expr (c # cs) =
     (case close_braces cs of
        Some t \<Rightarrow> Some ([c], t)
      | None \<Rightarrow> map_option (\<lambda>(e, t). (c # e, t)) (lazy_expr cs))"

text \<open>\<open>\s*\<close> is greedy and gives characters back until the rest matches.\<close>

fun template_body :: "string \<Rightarrow> (string \<times> string) option" where
  "template_body [] = None"
| "template_body (c # cs) =
     (if py_space c
      then (case template_body cs of Some r \<Rightarrow> Some r | None \<Rightarrow> lazy_expr (c # cs))
      else lazy_expr (c # cs))"

lemma close_braces_length: "close_braces s = Some t \<Longrightarrow> length t < length s"
proof -
  assume c: "close_braces s = Some t"
  have "length (dropWhile py_space s) \<le> length s" by (rule length_dropWhile_le)
  with c show ?thesis by (auto simp: close_braces_def split: list.splits if_splits)
qed

lemma lazy_expr_length: "lazy_expr s = Some (e, t) \<Longrightarrow> length t < length s"
  by (induction s arbitrary: e t) (auto dest: close_braces_length split: option.splits)

lemma template_body_length: "template_body s = Some (e, t) \<Longrightarrow> length t < length s"
  by (induction s arbitrary: e t)
    (force dest: lazy_expr_length close_braces_length split: option.splits if_splits)+

text \<open>\<open>re.finditer(TEMPLATE_STRING, s)\<close>, the expression groups.\<close>

function find_templates :: "string \<Rightarrow> string list" where
  "find_templates s =
     (if starts_with ''${{'' s
      then (case template_body (drop 3 s) of
              Some (e, t) \<Rightarrow> e # find_templates t
            | None \<Rightarrow> find_templates (drop 1 s))
      else (case s of [] \<Rightarrow> [] | _ # cs \<Rightarrow> find_templates cs))"
  by pat_completeness auto
termination
  by (relation "measure length")
    (auto dest!: template_body_length simp: starts_with_iff)

declare find_templates.simps [simp del]

definition traverse_expressions :: "pyval \<Rightarrow> string list" where
  "traverse_expressions v =
     concat (map (\<lambda>x. case x of VStr s \<Rightarrow> find_templates s | _ \<Rightarrow> []) (traverse_nodes v))"

section \<open>Extraction\<close>

type_synonym expr_parser = "string \<Rightarrow> string list option"

definition TracecatExpressionError :: exn where
  "TracecatExpressionError = PyError ''TracecatExpressionError'' []"

text \<open>\<open>RegistryActionExtractor.actions\<close>: the reference in the text of an \<open>actions\<close> node.\<close>

definition action_ref_of_token :: "string \<Rightarrow> exn + string" where
  "action_ref_of_token tok =
     (case split_first (CHR ''.'') (dropWhile (\<lambda>c. c = CHR ''.'') tok) of
        (_, None) \<Rightarrow> Inl TracecatExpressionError
      | (r, Some _) \<Rightarrow> Inr r)"

definition extract_expr :: "expr_parser \<Rightarrow> string \<Rightarrow> string list \<Rightarrow> exn + string list" where
  "extract_expr parse e refs =
     (case parse e of
        None \<Rightarrow> Inl TracecatExpressionError
      | Some toks \<Rightarrow> sfold (\<lambda>tok refs. sbind (action_ref_of_token tok) (\<lambda>r. Inr (List.insert r refs))) toks refs)"

text \<open>\<open>extract_expressions(value)[ExprContext.ACTIONS]\<close>, the set as a list without repetitions.\<close>

definition extract_expressions :: "expr_parser \<Rightarrow> pyval \<Rightarrow> exn + string list" where
  "extract_expressions parse v = sfold (extract_expr parse) (traverse_expressions v) []"

section \<open>Dumping a statement\<close>

definition dump_retry_policy :: "retry_policy \<Rightarrow> pyval" where
  "dump_retry_policy p =
     VDict [(''max_attempts'', VInt (max_attempts p)), (''timeout'', VInt (retry_timeout p)),
            (''retry_until'', opt_str (retry_until p))]"

definition dump_join :: "join_strategy \<Rightarrow> pyval" where
  "dump_join j = VStr (case j of JoinAny \<Rightarrow> ''any'' | JoinAll \<Rightarrow> ''all'')"

text \<open>\<open>ActionStatement.model_dump()\<close> (the \<open>id\<close> field is excluded).\<close>

definition dump_stmt :: "action_stmt \<Rightarrow> (string, pyval) dict" where
  "dump_stmt a =
     [(''ref'', VStr (ref a)), (''description'', VStr (description a)), (''action'', VStr (action a)),
      (''args'', VDict (args a)), (''depends_on'', VList (map VStr (depends_on a))),
      (''interaction'', interaction a), (''run_if'', opt_str (run_if a)),
      (''for_each'', for_each_expr a), (''retry_policy'', dump_retry_policy (retry_policy a)),
      (''start_delay'', VFloat (start_delay a)), (''wait_until'', opt_str (wait_until a)),
      (''join_strategy'', dump_join (join_strategy a)), (''environment'', opt_str (environment a)),
      (''mask_output'', VBool (mask_output a))]"

definition key2loc :: "string \<Rightarrow> string" where
  "key2loc key = (if key = ''args'' then ''inputs'' else key)"

section \<open>Templates are found where they are written\<close>

lemma lazy_expr_found:
  assumes "e \<noteq> []" and "CHR ''}'' \<notin> set e" and "\<not> py_space (last e)"
  shows "lazy_expr (e @ '' }}'' @ t) = Some (e, t)"
  using assms
proof (induction e)
  case (Cons c e)
  show ?case
  proof (cases "e = []")
    case True
    then show ?thesis by (simp add: close_braces_def py_space_def)
  next
    case False
    have "close_braces (e @ '' }}'' @ t) = None"
    proof (cases "dropWhile py_space e")
      case Nil
      then have "\<forall>x \<in> set e. py_space x" by (simp add: dropWhile_eq_Nil_conv)
      with Cons.prems False have False by auto
      then show ?thesis ..
    next
      case (Cons x xs)
      then have "x \<in> set e" by (metis list.set_intros(1) set_dropWhileD)
      moreover have "\<exists>y. y \<in> set e \<and> \<not> py_space y" using Cons by (metis dropWhile_eq_Nil_conv list.distinct(1))
      ultimately show ?thesis
        using Cons \<open>CHR ''}'' \<notin> set (c # e)\<close> by (auto simp: close_braces_def dropWhile_append split: list.splits)
    qed
    with Cons False show ?thesis by simp
  qed
qed simp

lemma find_templates_template:
  assumes "e \<noteq> []" and "CHR ''}'' \<notin> set e" and "\<not> py_space (hd e)" and "\<not> py_space (last e)"
  shows "find_templates (''${{ '' @ e @ '' }}'' @ t) = e # find_templates t"
proof -
  obtain c cs where e: "e = c # cs" using assms(1) by (cases e) auto
  have "template_body ('' '' @ e @ '' }}'' @ t) = Some (e, t)"
    using lazy_expr_found [OF assms(1,2,4), of t] assms(3) by (simp add: e py_space_def)
  moreover have "starts_with ''${{'' (''${{ '' @ e @ '' }}'' @ t)" by (simp add: starts_with_def)
  ultimately show ?thesis
    by (subst find_templates.simps) (simp del: template_body.simps)
qed

text \<open>Template strings. A template expression in a string is found with the blanks around it
  removed, and the search goes on after it.\<close>

theorem template_found:
  assumes "e \<noteq> []" and "CHR ''}'' \<notin> set e" and "\<not> py_space (hd e)" and "\<not> py_space (last e)"
  shows "find_templates (''${{ '' @ e @ '' }}'' @ t) = e # find_templates t"
  using assms by (rule find_templates_template)

theorem template_found_witness:
  "find_templates ''${{ ACTIONS.a }}'' = [''ACTIONS.a'']"
proof -
  have "find_templates (''${{ '' @ ''ACTIONS.a'' @ '' }}'' @ []) = ''ACTIONS.a'' # find_templates []"
    by (rule template_found) (simp_all add: py_space_def)
  moreover have "find_templates [] = []" by (subst find_templates.simps) (simp add: starts_with_def)
  ultimately show ?thesis by simp
qed

end
