(* ===== verification/Dsl_Validation.thy ===== *)
theory Dsl_Validation
  imports Dsl_Scopes Dsl_Expressions
begin

text \<open>
  Validation of a workflow definition (\<open>DSLInput.validate_structure\<close> of
  \<open>tracecat/dsl/common.py\<close>): unique references, entrypoints, resolvable dependencies, known
  action references in expressions, scope boundaries of scatters and loops, and the
  synchronisation of every loop region at its \<open>core.loop.end\<close>. A Python set whose iteration
  order is unspecified is a list here; the order only selects which of several errors is raised.
\<close>

section \<open>Walks up the scope hierarchy\<close>

text \<open>
  The \<open>while curr_scope is not None\<close> loops follow parent links; on a cyclic hierarchy they would
  not end, so they are partial here and \<open>None\<close> means that the loop does not return.
\<close>

type_synonym hierarchy = "(string, string option) dict"

partial_function (option) scope_walk :: "string \<Rightarrow> string \<Rightarrow> hierarchy \<Rightarrow> bool option" where
  "scope_walk target cur h =
     (if target = cur then Some True
      else case get_opt h cur of
             None \<Rightarrow> Some False
           | Some p \<Rightarrow> scope_walk target p h)"

definition is_same_or_ancestor_scope :: "string \<Rightarrow> string \<Rightarrow> hierarchy \<Rightarrow> bool option" where
  "is_same_or_ancestor_scope dep_scope action_scope h = scope_walk dep_scope action_scope h"

definition is_same_or_descendant_scope :: "string \<Rightarrow> string \<Rightarrow> hierarchy \<Rightarrow> bool option" where
  "is_same_or_descendant_scope scope ancestor_scope h = scope_walk ancestor_scope scope h"

partial_function (option) loop_walk ::
  "string \<Rightarrow> string \<Rightarrow> hierarchy \<Rightarrow> (string, string) dict \<Rightarrow> bool option" where
  "loop_walk target cur h openers =
     (if cur = target then Some True
      else if dict_get openers cur \<noteq> Some LOOP_START then Some False
      else case get_opt h cur of
             None \<Rightarrow> Some False
           | Some p \<Rightarrow> loop_walk target p h openers)"

definition is_loop_descendant_scope ::
  "string \<Rightarrow> string \<Rightarrow> hierarchy \<Rightarrow> (string, string) dict \<Rightarrow> bool option" where
  "is_loop_descendant_scope dep_scope action_scope h openers =
     (if dep_scope = action_scope then Some False else loop_walk action_scope dep_scope h openers)"

section \<open>Dependencies and expressions across scopes\<close>

definition index_or :: "('k, 'v) dict \<Rightarrow> 'k \<Rightarrow> string \<Rightarrow> dsl_error + 'v" where
  "index_or d k name = (case dict_get d k of None \<Rightarrow> Inl (PyExn (KeyError name)) | Some v \<Rightarrow> Inr v)"

definition returned :: "'a option \<Rightarrow> dsl_error + 'a" where
  "returned x = (case x of None \<Rightarrow> Inl (PyExn NonTermination) | Some v \<Rightarrow> Inr v)"

definition py_raises :: "exn + 'a \<Rightarrow> dsl_error + 'a" where
  "py_raises x = (case x of Inl e \<Rightarrow> Inl (PyExn e) | Inr v \<Rightarrow> Inr v)"

definition dep_scopes_of :: "(string, string) dict \<Rightarrow> string list \<Rightarrow> dsl_error + string list" where
  "dep_scopes_of scopes deps =
     sfold (\<lambda>dep acc. sbind (py_raises (edge_components_from_dep dep)) (\<lambda>(src, _).
         sbind (index_or scopes src src) (\<lambda>sc. Inr (List.insert sc acc)))) deps []"

definition resolve_closed_loop_scope :: "action_stmt \<Rightarrow> scope_maps \<Rightarrow> dsl_error + string" where
  "resolve_closed_loop_scope stmt maps =
     (case maps of (scopes, h, openers) \<Rightarrow>
        sbind (index_or scopes (ref stmt) (ref stmt)) (\<lambda>action_scope.
        sbind (dep_scopes_of scopes (depends_on stmt)) (\<lambda>dep_scopes.
          case dep_scopes of
            [loop_scope] \<Rightarrow>
              if get_opt h loop_scope \<noteq> Some action_scope then Inl (LoopEndNotChild (ref stmt))
              else if dict_get openers loop_scope \<noteq> Some LOOP_START then Inl (LoopEndNotLoop (ref stmt))
              else Inr loop_scope
          | _ \<Rightarrow> Inl (LoopEndManyScopes (ref stmt)))))"

text \<open>The closed loop scope and the references of the condition, for every \<open>core.loop.end\<close>.\<close>

type_synonym loop_end_info = "(string, string \<times> string list) dict"

definition loop_end_infos :: "expr_parser \<Rightarrow> action_stmt list \<Rightarrow> scope_maps \<Rightarrow> dsl_error + loop_end_info" where
  "loop_end_infos parse acts maps =
     sfold (\<lambda>a info.
         if action a \<noteq> LOOP_END then Inr info
         else sbind (resolve_closed_loop_scope a maps) (\<lambda>loop_scope.
              sbind (py_raises (extract_expressions parse
                  (VDict [(''condition'', get_default VNone (args a) ''condition'')]))) (\<lambda>refs.
              Inr (dict_set (ref a) (loop_scope, refs) info)))) acts []"

definition check_edge :: "scope_maps \<Rightarrow> loop_end_info \<Rightarrow> action_stmt \<Rightarrow> string \<Rightarrow> string \<Rightarrow> dsl_error + unit" where
  "check_edge maps info a action_scope dep =
     (case maps of (scopes, h, openers) \<Rightarrow>
        sbind (py_raises (edge_components_from_dep dep)) (\<lambda>(dep_ref, _).
        sbind (index_or scopes dep_ref dep_ref) (\<lambda>dep_scope.
          if action a \<in> SCOPE_OPENER_ACTIONS then
            sbind (index_or h action_scope action_scope) (\<lambda>parent.
              if Some dep_scope \<noteq> parent then Inl (OpenerEdgeNotParent (ref a) dep) else Inr ())
          else if action a = LOOP_END then
            sbind (index_or info (ref a) (ref a)) (\<lambda>(closed, _).
              if dep_scope \<noteq> closed then Inl (LoopEndEdgeNotClosed (ref a) dep closed) else Inr ())
          else if action a \<in> SCOPE_CLOSER_ACTIONS then
            sbind (index_or h dep_scope dep_scope) (\<lambda>parent.
              if Some action_scope \<noteq> parent then
                (if dict_get openers dep_scope \<noteq> dict_get CLOSER_TO_OPENER_ACTION (action a)
                 then Inl (WrongScopeTypeForEdge (ref a) dep)
                 else Inl (CloserEdgeNotChild (ref a) dep))
              else Inr ())
          else if dep_scope \<noteq> action_scope then Inl (EdgeCrossesScope (ref a) dep)
          else Inr ())))"

definition check_closer_expr ::
  "scope_maps \<Rightarrow> action_stmt \<Rightarrow> string \<Rightarrow> string \<Rightarrow> string \<Rightarrow> string \<Rightarrow> dsl_error + unit" where
  "check_closer_expr maps a action_scope key dep dep_scope =
     (case maps of (scopes, h, openers) \<Rightarrow>
        sbind (index_or h dep_scope dep_scope) (\<lambda>parent.
          if Some action_scope \<noteq> parent then
            (if dict_get openers dep_scope \<noteq> dict_get CLOSER_TO_OPENER_ACTION (action a)
             then Inl (WrongScopeTypeForExpr (ref a) dep)
             else Inl (CloserExprNotChild (ref a) (key2loc key) dep))
          else Inr ()))"

definition check_expr_dep ::
  "scope_maps \<Rightarrow> loop_end_info \<Rightarrow> action_stmt \<Rightarrow> string \<Rightarrow> string \<Rightarrow> string \<Rightarrow> dsl_error + unit" where
  "check_expr_dep maps info a action_scope key dep =
     (case maps of (scopes, h, openers) \<Rightarrow>
        sbind (index_or scopes dep dep) (\<lambda>dep_scope.
          if action a \<in> SCOPE_OPENER_ACTIONS then
            sbind (index_or h action_scope action_scope) (\<lambda>parent.
              if Some dep_scope \<noteq> parent then Inl (OpenerExprNotParent (ref a) (key2loc key) dep) else Inr ())
          else if action a = LOOP_END then
            sbind (index_or info (ref a) (ref a)) (\<lambda>(closed, condition_refs).
              if key = ''args'' \<and> dep \<in> set condition_refs \<and> dep_scope \<noteq> closed
              then Inl (LoopConditionScope (ref a) dep closed)
              else check_closer_expr maps a action_scope key dep dep_scope)
          else if action a \<in> SCOPE_CLOSER_ACTIONS then
            check_closer_expr maps a action_scope key dep dep_scope
          else
            sbind (returned (is_same_or_ancestor_scope dep_scope action_scope h)) (\<lambda>is_ancestor.
            sbind (returned (is_loop_descendant_scope dep_scope action_scope h openers)) (\<lambda>is_loop_descendant.
              if \<not> is_ancestor \<and> \<not> is_loop_descendant
              then Inl (ExprOutOfScope (ref a) (key2loc key) dep)
              else Inr ()))))"

definition check_action_scope ::
  "expr_parser \<Rightarrow> scope_maps \<Rightarrow> loop_end_info \<Rightarrow> action_stmt \<Rightarrow> dsl_error + unit" where
  "check_action_scope parse maps info a =
     sbind (index_or (fst maps) (ref a) (ref a)) (\<lambda>action_scope.
     sbind (sall (check_edge maps info a action_scope) (depends_on a)) (\<lambda>_.
       sall (\<lambda>(key, value).
           sbind (py_raises (extract_expressions parse value)) (\<lambda>dep_refs.
             sall (check_expr_dep maps info a action_scope key) dep_refs))
         (filter (\<lambda>(key, _). key \<noteq> ''depends_on'') (dump_stmt a))))"

definition validate_scope_dependencies ::
  "expr_parser \<Rightarrow> action_stmt list \<Rightarrow> scope_maps \<Rightarrow> dsl_error + unit" where
  "validate_scope_dependencies parse acts maps =
     sbind (loop_end_infos parse acts maps) (\<lambda>info. sall (check_action_scope parse maps info) acts)"

section \<open>Loop synchronisation\<close>

text \<open>
  The actions that can reach a node: a depth-first search over the reversed success edges.
\<close>

definition reverse_success_adj :: "action_stmt list \<Rightarrow> (string, adj_dst list) dict \<Rightarrow> (string, string list) dict" where
  "reverse_success_adj acts adj =
     fold (\<lambda>(src, outgoing) radj.
         fold (\<lambda>(dst, t) radj.
             if t = SUCCESS then dict_set dst (List.insert src (get_default [] radj dst)) radj else radj)
           outgoing radj)
       adj (init_adjacency acts)"

lemma reach_measure:
  fixes adj :: "('a, 'a list) dict"
  assumes "x \<notin> set seen"
  shows "card (fst ` set adj - set (x # seen)) < card (fst ` set adj - set seen) \<or>
     card (fst ` set adj - set (x # seen)) = card (fst ` set adj - set seen) \<and> get_default [] adj x = []"
proof (cases "x \<in> fst ` set adj")
  case True
  with assms have "fst ` set adj - set (x # seen) \<subset> fst ` set adj - set seen" by auto
  then show ?thesis by (simp add: psubset_card_mono)
next
  case False
  then have "fst ` set adj - set (x # seen) = fst ` set adj - set seen" by auto
  moreover from False have "get_default [] adj x = []"
    by (simp add: get_default_def map_of_eq_None_iff [THEN iffD2])
  ultimately show ?thesis by simp
qed

function can_reach :: "('a, 'a list) dict \<Rightarrow> 'a list \<Rightarrow> 'a list \<Rightarrow> 'a list" where
  "can_reach adj [] seen = seen"
| "can_reach adj (cur # stack) seen =
     (if cur \<in> set seen then can_reach adj stack seen
      else can_reach adj (rev (get_default [] adj cur) @ stack) (cur # seen))"
  by pat_completeness auto
termination
proof (relation "measures [\<lambda>(adj, _, seen). card (fst ` set adj - set seen), \<lambda>(_, stack, _). length stack]")
  fix adj :: "('a, 'a list) dict" and cur :: 'a and stack seen :: "'a list"
  assume "cur \<notin> set seen"
  from reach_measure [OF this, of adj]
  show "((adj, rev (get_default [] adj cur) @ stack, cur # seen), adj, cur # stack, seen)
      \<in> measures [\<lambda>(adj, _, seen). card (fst ` set adj - set seen), \<lambda>(_, stack, _). length stack]"
    by auto
qed auto

definition is_unsynchronized :: "hierarchy \<Rightarrow> string \<Rightarrow> string list \<Rightarrow> string \<times> string \<Rightarrow> dsl_error + bool" where
  "is_unsynchronized h loop_scope reach x =
     (case x of (action_ref, scope) \<Rightarrow>
        sbind (returned (is_same_or_descendant_scope scope loop_scope h)) (\<lambda>inside.
          Inr (inside \<and> action_ref \<notin> set reach)))"

definition unsynchronized_actions ::
  "(string, string) dict \<Rightarrow> hierarchy \<Rightarrow> string \<Rightarrow> string list \<Rightarrow> dsl_error + string list" where
  "unsynchronized_actions scopes h loop_scope reach =
     sfold (\<lambda>x acc. sbind (is_unsynchronized h loop_scope reach x) (\<lambda>b.
         Inr (if b then insort (fst x) acc else acc))) scopes []"

definition loop_end_by_scope :: "action_stmt list \<Rightarrow> scope_maps \<Rightarrow> dsl_error + (string, string) dict" where
  "loop_end_by_scope acts maps =
     sfold (\<lambda>a ends.
         if action a \<noteq> LOOP_END then Inr ends
         else sbind (resolve_closed_loop_scope a maps) (\<lambda>loop_scope.
           case dict_get ends loop_scope of
             Some existing \<Rightarrow>
               if existing \<noteq> [] then Inl (LoopManyEnds loop_scope existing (ref a))
               else Inr (dict_set loop_scope (ref a) ends)
           | None \<Rightarrow> Inr (dict_set loop_scope (ref a) ends))) acts []"

definition validate_loop_scope_synchronization :: "action_stmt list \<Rightarrow> scope_maps \<Rightarrow> dsl_error + unit" where
  "validate_loop_scope_synchronization acts maps =
     (case maps of (scopes, h, openers) \<Rightarrow>
        let loop_scopes = map fst (filter (\<lambda>(_, opener). opener = LOOP_START) openers)
        in if loop_scopes = [] then Inr ()
           else
             sbind (loop_end_by_scope acts maps) (\<lambda>ends.
               case sort (filter (\<lambda>sc. sc \<notin> set (dict_keys ends)) loop_scopes) of
                 missing # _ \<Rightarrow> Inl (LoopNoEnd missing)
               | [] \<Rightarrow>
                   sbind (py_raises (to_typed_adjacency acts)) (\<lambda>adj.
                     let radj = reverse_success_adj acts adj
                     in sall (\<lambda>(loop_scope, loop_end_ref).
                          sbind (unsynchronized_actions scopes h loop_scope (can_reach radj [loop_end_ref] []))
                            (\<lambda>bad. if bad \<noteq> [] then Inl (LoopUnsynchronized loop_scope loop_end_ref bad)
                                   else Inr ())) ends)))"

section \<open>The validator\<close>

definition refs_of_action :: "string \<Rightarrow> action_stmt list \<Rightarrow> string list" where
  "refs_of_action act acts = map ref (filter (\<lambda>a. action a = act) acts)"

definition validate_scatter_gather_scopes :: "expr_parser \<Rightarrow> action_stmt list \<Rightarrow> dsl_error + unit" where
  "validate_scatter_gather_scopes parse acts =
     (let scatter_actions = refs_of_action TRANSFORM_SCATTER acts;
          gather_actions = refs_of_action TRANSFORM_GATHER acts;
          loop_start_actions = refs_of_action LOOP_START acts;
          loop_end_actions = refs_of_action LOOP_END acts
      in if length gather_actions > length scatter_actions then Inl MoreGathersThanScatters
         else if length loop_end_actions \<noteq> length loop_start_actions
         then Inl (UnbalancedLoops (length loop_start_actions) (length loop_end_actions))
         else if scatter_actions = [] \<and> loop_start_actions = [] then Inr ()
         else
           sbind (py_raises (to_adjacency acts)) (\<lambda>adj.
           sbind (assign_action_scopes acts adj) (\<lambda>maps.
           sbind (validate_scope_dependencies parse acts maps) (\<lambda>_.
             validate_loop_scope_synchronization acts maps))))"

definition all_action_expressions_valid :: "expr_parser \<Rightarrow> string set \<Rightarrow> action_stmt list \<Rightarrow> dsl_error + unit" where
  "all_action_expressions_valid parse valid_action_refs acts =
     sall (\<lambda>a. sall (\<lambda>(key, value).
         sbind (py_raises (extract_expressions parse value)) (\<lambda>deps.
           sall (\<lambda>dep. if dep \<notin> valid_action_refs
                      then Inl (UnknownActionRef (ref a) (key2loc key) dep) else Inr ()) deps))
         (dump_stmt a)) acts"

definition collect_dependencies :: "action_stmt list \<Rightarrow> dsl_error + string list" where
  "collect_dependencies acts =
     sfold (\<lambda>a. sfold (\<lambda>dep acc.
         case edge_components_from_dep dep of
           Inl _ \<Rightarrow> Inl (InvalidDepRef dep (ref a))
         | Inr (src, _) \<Rightarrow> Inr (acc @ [src])) (depends_on a)) acts []"

definition duplicate_refs :: "action_stmt list \<Rightarrow> string list" where
  "duplicate_refs acts =
     filter (\<lambda>r. 1 < count_list (map ref acts) r) (dict_keys (stmts_by_ref acts))"

definition validate_structure :: "expr_parser \<Rightarrow> action_stmt list \<Rightarrow> dsl_error + unit" where
  "validate_structure parse acts =
     (if acts = [] then Inl NoActions
      else if card (set (map ref acts)) \<noteq> length acts then Inl (DuplicateRefs (duplicate_refs acts))
      else if filter (\<lambda>a. depends_on a = []) acts = [] then Inl NoEntrypoints
      else
        let valid_action_refs = set (map ref acts)
        in sbind (collect_dependencies acts) (\<lambda>dependencies.
             case filter (\<lambda>d. d \<notin> valid_action_refs) dependencies of
               d # ds \<Rightarrow> Inl (InvalidDeps (d # ds))
             | [] \<Rightarrow>
                 sbind (all_action_expressions_valid parse valid_action_refs acts) (\<lambda>_.
                   validate_scatter_gather_scopes parse acts)))"

section \<open>The scope hierarchy is a tree\<close>

text \<open>
  What the visits establish: every visited action has a scope, every scope in use is a key of the
  hierarchy, parents are keys, parent links descend along a rank, and every visited opener is
  recorded with its action.
\<close>

definition ranked :: "(string \<Rightarrow> nat) \<Rightarrow> hierarchy \<Rightarrow> bool" where
  "ranked f h \<longleftrightarrow> (\<forall>k p. get_opt h k = Some p \<longrightarrow> f p < f k)"

definition scope_inv :: "action_stmt list \<Rightarrow> string list \<Rightarrow> scope_state \<Rightarrow> bool" where
  "scope_inv acts vis st \<longleftrightarrow>
     fst ` set (ss_scopes st) = set vis \<and>
     (\<forall>k sc. dict_get (ss_scopes st) k = Some sc \<longrightarrow> sc \<in> fst ` set (ss_hierarchy st)) \<and>
     fst ` set (ss_hierarchy st) \<subseteq> insert ROOT_SCOPE (set vis) \<and>
     (\<forall>k p. get_opt (ss_hierarchy st) k = Some p \<longrightarrow> p \<in> fst ` set (ss_hierarchy st)) \<and>
     (\<exists>f. ranked f (ss_hierarchy st)) \<and>
     snd ` set (ss_queue st) \<subseteq> fst ` set (ss_hierarchy st) \<and>
     (\<forall>a \<in> set acts. ref a \<in> set vis \<longrightarrow> action a \<in> SCOPE_OPENER_ACTIONS \<longrightarrow>
        dict_get (ss_openers st) (ref a) = Some (action a)) \<and>
     fst ` set (ss_openers st) \<subseteq> set vis"

lemma get_opt_set: "get_opt (dict_set k v h) k' = (if k' = k then v else get_opt h k')"
  by (simp add: get_opt_def)

lemma get_opt_in_keys: "get_opt h k = Some p \<Longrightarrow> k \<in> fst ` set h"
  by (force simp: get_opt_def split: option.splits dest: map_of_SomeD)

lemma ranked_set:
  assumes "ranked f h" and "\<forall>k p. get_opt h k = Some p \<longrightarrow> p \<noteq> r" and "c \<noteq> r"
  shows "ranked (f(r := Suc (f c))) (dict_set r (Some c) h)"
  using assms by (auto simp: ranked_def get_opt_set)

lemma assign_scope_Inr:
  "assign_scope r sc st = Inr st' \<Longrightarrow> dict_get (ss_scopes st) r = None \<Longrightarrow>
     st' = st\<lparr>ss_scopes := dict_set r sc (ss_scopes st)\<rparr>"
  by (simp add: assign_scope_def)

text \<open>The three kinds of transition, for an action that has no scope yet.\<close>

lemma scope_transition_cases:
  assumes "scope_transition stmt sc st = Inr (nx, st')" and "dict_get (ss_scopes st) (ref stmt) = None"
  obtains (opener) "action stmt \<in> SCOPE_OPENER_ACTIONS" "nx = ref stmt"
      "st' = st\<lparr>ss_scopes := dict_set (ref stmt) (ref stmt) (ss_scopes st),
         ss_hierarchy := dict_set (ref stmt) (Some sc) (ss_hierarchy st),
         ss_openers := dict_set (ref stmt) (action stmt) (ss_openers st)\<rparr>"
  | (closer) "action stmt \<in> SCOPE_CLOSER_ACTIONS" "action stmt \<notin> SCOPE_OPENER_ACTIONS"
      "get_opt (ss_hierarchy st) sc = Some nx"
      "dict_get (ss_openers st) sc = dict_get CLOSER_TO_OPENER_ACTION (action stmt)"
      "st' = st\<lparr>ss_scopes := dict_set (ref stmt) nx (ss_scopes st)\<rparr>"
  | (regular) "regular_action stmt" "nx = sc"
      "st' = st\<lparr>ss_scopes := dict_set (ref stmt) sc (ss_scopes st)\<rparr>"
  using assms
  by (auto simp: scope_transition_def regular_action_def sbind_eq_Inr dest!: assign_scope_Inr
      split: if_splits option.splits)

lemma scope_visit_scopes:
  assumes wf: "wf_actions acts" and adj: "to_adjacency acts = Inr adj"
    and slugs: "ROOT_SCOPE \<notin> ref ` set acts"
    and kahn: "kahn_inv acts vis st" and inv: "scope_inv acts vis st" and q: "ss_queue st = (r, sc) # q"
    and visit: "scope_visit (stmts_by_ref acts) adj (r, sc) (st\<lparr>ss_queue := q\<rparr>) = Inr st'"
  shows "scope_inv acts (vis @ [r]) st'"
proof -
  from to_adjacency_ok [OF wf] adj have
    eq: "\<And>k. get_default [] adj k = map (\<lambda>(a, d). ref a) (filter (\<lambda>(a, d). dep_src d = k) (dep_pairs acts))"
    by (metis sum.inject(2))
  let ?st = "st\<lparr>ss_queue := q, ss_visited := ss_visited st + 1\<rparr>"
  from visit obtain stmt nx st1 where
    stmt: "dict_get (stmts_by_ref acts) r = Some stmt"
    and tr: "scope_transition stmt sc ?st = Inr (nx, st1)"
    and fold: "sfold (relax_edge nx) (get_default [] adj r) st1 = Inr st'"
    by (auto simp: scope_visit_def sbind_eq_Inr split: option.splits)
  from stmt wf have stmt: "stmt \<in> set acts" "ref stmt = r" by (auto simp: stmts_by_ref_get)
  from scope_transition_frame [OF tr] have
    "ss_indegrees st1 = ss_indegrees st" "ss_queue st1 = q" "ss_visited st1 = Suc (ss_visited st)"
    by simp_all
  from kahn_inv_relax [OF wf eq kahn q this, of nx] fold obtain new where
    queue: "ss_queue st' = q @ map (\<lambda>k. (k, nx)) new" and
    same: "ss_scopes st' = ss_scopes st1" "ss_hierarchy st' = ss_hierarchy st1" "ss_openers st' = ss_openers st1"
    by auto
  have fresh: "r \<notin> set vis" using kahn q by (simp add: kahn_inv_def)
  have "r \<noteq> ROOT_SCOPE" using slugs stmt by (metis image_eqI)
  with fresh have new_key: "r \<notin> fst ` set (ss_hierarchy st)" using inv by (auto simp: scope_inv_def)
  from inv fresh have "dict_get (ss_scopes ?st) (ref stmt) = None"
    by (simp add: scope_inv_def map_of_eq_None_iff stmt)
  note none = this
  have act: "action a = action stmt" if "a \<in> set acts" "ref a = r" for a
    using wf_actions_unique [OF wf that(1) stmt(1)] that stmt by auto
  note i = inv [unfolded scope_inv_def]
  from tr none show ?thesis
  proof (cases rule: scope_transition_cases)
    case opener
    from inv obtain f where f: "ranked f (ss_hierarchy st)" by (auto simp: scope_inv_def)
    have sc: "sc \<in> fst ` set (ss_hierarchy st)" using inv q by (auto simp: scope_inv_def)
    then have "sc \<noteq> r" using new_key by auto
    have "\<forall>k p. get_opt (ss_hierarchy st) k = Some p \<longrightarrow> p \<noteq> r" using inv new_key by (auto simp: scope_inv_def)
    from ranked_set [OF f this \<open>sc \<noteq> r\<close>] have "\<exists>f. ranked f (ss_hierarchy st')"
      using opener same stmt by auto
    then have rank: "\<exists>f. ranked f (dict_set r (Some sc) (ss_hierarchy st))" using opener same stmt by simp
    have fields: "ss_scopes st' = dict_set r r (ss_scopes st)"
      "ss_hierarchy st' = dict_set r (Some sc) (ss_hierarchy st)"
      "ss_openers st' = dict_set r (action stmt) (ss_openers st)"
      "ss_queue st' = q @ map (\<lambda>k. (k, r)) new"
      using opener same stmt queue by simp_all
    show ?thesis
      unfolding scope_inv_def fields
    proof (intro conjI allI ballI impI)
      fix a
      assume "a \<in> set acts" "ref a \<in> set (vis @ [r])" "action a \<in> SCOPE_OPENER_ACTIONS"
      then show "dict_get (dict_set r (action stmt) (ss_openers st)) (ref a) = Some (action a)"
        using i act [of a] by (cases "ref a = r") simp_all
    next
      fix k p
      assume "get_opt (dict_set r (Some sc) (ss_hierarchy st)) k = Some p"
      then show "p \<in> fst ` set (dict_set r (Some sc) (ss_hierarchy st))"
        using i sc by (cases "k = r") (simp_all add: get_opt_set)
    next
      fix k s
      assume "dict_get (dict_set r r (ss_scopes st)) k = Some s"
      then show "s \<in> fst ` set (dict_set r (Some sc) (ss_hierarchy st))"
        using i by (cases "k = r") simp_all
    qed (use i q rank in auto)
  next
    case closer
    with act have no: "ref a \<noteq> r" if "a \<in> set acts" "action a \<in> SCOPE_OPENER_ACTIONS" for a
      using that by auto
    with closer i q queue same stmt show ?thesis
      unfolding scope_inv_def by (intro conjI) (auto split: if_splits)
  next
    case regular
    with act have no: "ref a \<noteq> r" if "a \<in> set acts" "action a \<in> SCOPE_OPENER_ACTIONS" for a
      using that by (auto simp: regular_action_def)
    with regular i q queue same stmt show ?thesis
      unfolding scope_inv_def by (intro conjI) (auto intro: rev_image_eqI split: if_splits)
  qed
qed

lemma scope_loop_scopes:
  assumes wf: "wf_actions acts" and slugs: "ROOT_SCOPE \<notin> ref ` set acts"
    and "to_adjacency acts = Inr adj" and "kahn_inv acts vis st" and "scope_inv acts vis st"
    and "scope_loop (stmts_by_ref acts) adj st = Inr st'"
  shows "\<exists>vis'. kahn_inv acts vis' st' \<and> scope_inv acts vis' st'"
  using assms(3-6)
proof (induction "stmts_by_ref acts" adj st arbitrary: vis rule: scope_loop.induct)
  case (1 adj st)
  show ?case
  proof (cases "ss_queue st")
    case Nil
    with "1.prems" show ?thesis by (auto simp: scope_loop.simps [of _ _ st])
  next
    case (Cons x q)
    obtain r sc where x: "x = (r, sc)" by (cases x)
    from "1.prems"(4) Cons obtain st1 where
      visit: "scope_visit (stmts_by_ref acts) adj x (st\<lparr>ss_queue := q\<rparr>) = Inr st1"
      and rest: "scope_loop (stmts_by_ref acts) adj st1 = Inr st'"
      by (auto simp: scope_loop.simps [of _ _ st] sbind_eq_Inr)
    note step = "1.prems"(2) Cons [unfolded x] visit [unfolded x]
    from "1.hyps" [OF Cons visit "1.prems"(1) scope_visit_kahn [OF wf "1.prems"(1) step]
        scope_visit_scopes [OF wf "1.prems"(1) slugs "1.prems"(2,3) step(2,3)] rest]
    show ?thesis .
  qed
qed

lemma scope_inv_init: "wf_actions acts \<Longrightarrow> scope_inv acts [] (init_scope_state acts)"
  by (auto simp: scope_inv_def init_scope_state_def get_opt_def ranked_def)

text \<open>The maps of an accepted graph.\<close>

definition scope_maps_ok :: "action_stmt list \<Rightarrow> scope_maps \<Rightarrow> bool" where
  "scope_maps_ok acts maps \<longleftrightarrow>
     (case maps of (scopes, h, openers) \<Rightarrow>
        fst ` set scopes = ref ` set acts \<and>
        (\<forall>k sc. dict_get scopes k = Some sc \<longrightarrow> sc \<in> fst ` set h) \<and>
        fst ` set h \<subseteq> insert ROOT_SCOPE (ref ` set acts) \<and>
        (\<forall>k p. get_opt h k = Some p \<longrightarrow> p \<in> fst ` set h) \<and>
        (\<exists>f. ranked f h) \<and>
        (\<forall>a \<in> set acts. action a \<in> SCOPE_OPENER_ACTIONS \<longrightarrow> dict_get openers (ref a) = Some (action a)))"

lemma assign_action_scopes_maps:
  assumes wf: "wf_actions acts" and slugs: "ROOT_SCOPE \<notin> ref ` set acts"
    and adj: "to_adjacency acts = Inr adj" and ok: "assign_action_scopes acts adj = Inr maps"
  shows "scope_maps_ok acts maps"
proof -
  from ok obtain st where loop: "scope_loop (stmts_by_ref acts) adj (init_scope_state acts) = Inr st"
    and n: "ss_visited st = length acts" and maps: "maps = (ss_scopes st, ss_hierarchy st, ss_openers st)"
    by (auto simp: assign_action_scopes_def sbind_eq_Inr split: if_splits)
  from scope_loop_scopes [OF wf slugs adj kahn_inv_init [OF wf] scope_inv_init [OF wf] loop]
  obtain vis where kahn: "kahn_inv acts vis st" and inv: "scope_inv acts vis st" by blast
  have "card (ref ` set acts) = length acts"
    using wf_actions_distinct [OF wf] by (metis distinct_card length_map set_map)
  moreover have "set vis \<subseteq> ref ` set acts" "card (set vis) = length acts"
    using kahn n by (auto simp: kahn_inv_def distinct_card)
  ultimately have "set vis = ref ` set acts" by (metis card_subset_eq finite_imageI finite_set)
  with inv show ?thesis by (auto simp: scope_inv_def scope_maps_ok_def maps)
qed

section \<open>The walks end\<close>

definition parent_rel :: "hierarchy \<Rightarrow> (string \<times> string) set" where
  "parent_rel h = {(k, p). get_opt h k = Some p}"

lemma scope_walk_total:
  assumes "ranked f h"
  shows "scope_walk target cur h = Some ((cur, target) \<in> (parent_rel h)\<^sup>*)"
proof (induction "f cur" arbitrary: cur rule: less_induct)
  case less
  show ?case
  proof (cases "target = cur \<or> get_opt h cur = None")
    case True
    moreover have "(cur, target) \<notin> (parent_rel h)\<^sup>*" if "get_opt h cur = None" "target \<noteq> cur"
      using that by (auto simp: parent_rel_def elim: converse_rtranclE)
    ultimately show ?thesis by (auto simp: scope_walk.simps [of target cur])
  next
    case False
    then obtain p where p: "get_opt h cur = Some p" and neq: "target \<noteq> cur" by auto
    have "(cur, target) \<in> (parent_rel h)\<^sup>* \<longleftrightarrow> (p, target) \<in> (parent_rel h)\<^sup>*"
      using p neq by (auto simp: parent_rel_def intro: converse_rtrancl_into_rtrancl elim: converse_rtranclE)
    with less [of p] p neq assms show ?thesis
      by (simp add: scope_walk.simps [of target cur] ranked_def)
  qed
qed

lemma loop_walk_total:
  assumes "ranked f h"
  shows "\<exists>b. loop_walk target cur h openers = Some b"
proof (induction "f cur" arbitrary: cur rule: less_induct)
  case less
  then show ?case
    using assms by (auto simp: loop_walk.simps [of target cur] ranked_def split: option.splits)
qed

named_theorems halts_intros \<open>computations that do not run forever\<close>

definition halts :: "dsl_error + 'a \<Rightarrow> bool" where
  "halts x \<longleftrightarrow> x \<noteq> Inl (PyExn NonTermination)"

lemma halts_sbind [halts_intros]:
  "halts m \<Longrightarrow> (\<And>x. m = Inr x \<Longrightarrow> halts (f x)) \<Longrightarrow> halts (sbind m f)"
  by (cases m) (auto simp: halts_def)

lemma halts_sfold [halts_intros]:
  "(\<And>x a. x \<in> set xs \<Longrightarrow> halts (f x a)) \<Longrightarrow> halts (sfold f xs a)"
  by (induction xs arbitrary: a) (auto simp: halts_def sbind_eq_Inl)

lemma halts_sall [halts_intros]: "(\<And>x. x \<in> set xs \<Longrightarrow> halts (f x)) \<Longrightarrow> halts (sall f xs)"
  unfolding sall_def by (rule halts_sfold)

lemma halts_index [halts_intros]: "halts (index_or d k n)"
  by (simp add: index_or_def halts_def split: option.splits)

lemma halts_simps [simp]: "halts (Inr x)" "halts (Inl e) \<longleftrightarrow> e \<noteq> PyExn NonTermination"
  by (simp_all add: halts_def)

lemma halts_cases [halts_intros]:
  "(\<And>a b. p = (a, b) \<Longrightarrow> halts (g a b)) \<Longrightarrow> halts (case p of (a, b) \<Rightarrow> g a b)"
  "halts n \<Longrightarrow> (\<And>v. x = Some v \<Longrightarrow> halts (h v)) \<Longrightarrow> halts (case x of None \<Rightarrow> n | Some v \<Rightarrow> h v)"
  "(xs = [] \<Longrightarrow> halts m) \<Longrightarrow> (\<And>y ys. xs = y # ys \<Longrightarrow> halts (k y ys)) \<Longrightarrow>
     halts (case xs of [] \<Rightarrow> m | y # ys \<Rightarrow> k y ys)"
  by (simp_all split: prod.splits option.splits list.splits)

lemma halts_if [halts_intros]: "(b \<Longrightarrow> halts x) \<Longrightarrow> (\<not> b \<Longrightarrow> halts y) \<Longrightarrow> halts (if b then x else y)"
  by simp

lemma extract_expressions_halts: "extract_expressions parse v \<noteq> Inl NonTermination"
proof -
  have "sfold f xs a \<noteq> Inl NonTermination" if "\<And>x a. f x a \<noteq> Inl NonTermination"
    for f :: "string \<Rightarrow> string list \<Rightarrow> exn + string list" and xs a
    using that by (induction xs arbitrary: a) (auto simp: sbind_eq_Inl)
  moreover have "action_ref_of_token t \<noteq> Inl NonTermination" for t
    by (auto simp: action_ref_of_token_def TracecatExpressionError_def split: option.splits prod.splits)
  ultimately show ?thesis
    by (auto simp: extract_expressions_def extract_expr_def TracecatExpressionError_def sbind_eq_Inl
        split: option.splits)
qed

lemma halts_py_raises [halts_intros]:
  "halts (py_raises (extract_expressions parse v))"
  "halts (py_raises (edge_components_from_dep d))"
  using extract_expressions_halts [of parse v]
  by (auto simp: halts_def py_raises_def edge_components_from_dep_def
      split: sum.splits option.splits prod.splits if_splits)

lemma halts_dep_scopes [halts_intros]: "halts (dep_scopes_of scopes deps)"
  unfolding dep_scopes_of_def by (intro halts_intros) simp_all

lemma halts_resolve [halts_intros]: "halts (resolve_closed_loop_scope stmt maps)"
  unfolding resolve_closed_loop_scope_def
  by (intro halts_intros) simp_all

lemma halts_walk [halts_intros]:
  assumes "scope_maps_ok acts (scopes, h, openers)"
  shows "halts (returned (scope_walk t c h))" and "halts (returned (loop_walk t c h op))"
proof -
  from assms obtain f where f: "ranked f h" by (auto simp: scope_maps_ok_def)
  show "halts (returned (scope_walk t c h))"
    by (simp add: scope_walk_total [OF f] returned_def)
  show "halts (returned (loop_walk t c h op))"
    using loop_walk_total [OF f, of t c op] by (auto simp: returned_def)
qed

lemma halts_check_edge [halts_intros]: "halts (check_edge maps info a sc dep)"
  unfolding check_edge_def by (intro halts_intros) simp_all

lemma halts_check_closer_expr [halts_intros]: "halts (check_closer_expr maps a sc key dep dsc)"
  unfolding check_closer_expr_def by (intro halts_intros) simp_all

lemma halts_check_expr_dep [halts_intros]:
  assumes "scope_maps_ok acts maps"
  shows "halts (check_expr_dep maps info a sc key dep)"
  using assms unfolding check_expr_dep_def is_same_or_ancestor_scope_def is_loop_descendant_scope_def
  by (cases maps) (auto intro!: halts_intros simp: returned_def [of "Some False"])

lemma halts_validate_scope_dependencies [halts_intros]:
  assumes "scope_maps_ok acts maps"
  shows "halts (validate_scope_dependencies parse acts maps)"
  unfolding validate_scope_dependencies_def loop_end_infos_def check_action_scope_def
  by (intro halts_intros) (rule assms | simp)+

lemma halts_adjacency [halts_intros]:
  "wf_actions acts \<Longrightarrow> halts (py_raises (to_adjacency acts))"
  "wf_actions acts \<Longrightarrow> halts (py_raises (to_typed_adjacency acts))"
  by (metis py_raises_def halts_simps(1) sum.case(2) to_adjacency_ok)
    (metis py_raises_def halts_simps(1) sum.case(2) to_typed_adjacency_ok)

lemma halts_loop_sync [halts_intros]:
  assumes "wf_actions acts" and "scope_maps_ok acts maps"
  shows "halts (validate_loop_scope_synchronization acts maps)"
proof -
  obtain scopes h openers where maps: "maps = (scopes, h, openers)" by (cases maps)
  from assms(2) have "halts (unsynchronized_actions scopes h sc reach)" for sc reach
    unfolding maps unsynchronized_actions_def is_unsynchronized_def is_same_or_descendant_scope_def
    by (intro halts_intros) (assumption | simp)+
  moreover have "halts (loop_end_by_scope acts maps)"
    unfolding loop_end_by_scope_def by (intro halts_intros) simp_all
  ultimately show ?thesis
    using assms(1) unfolding validate_loop_scope_synchronization_def Let_def maps prod.case
    by (intro halts_intros) simp_all
qed

lemma scope_visit_halts [halts_intros]: "halts (scope_visit stmts adj x st)"
proof -
  have "halts (relax_edge sc k s)" for sc k s
    by (simp add: relax_edge_def split: option.splits)
  moreover have "halts (assign_scope r sc s)" for r sc s
    by (simp add: assign_scope_def split: option.splits)
  ultimately show ?thesis
    unfolding scope_visit_def scope_transition_def by (intro halts_intros) simp_all
qed

lemma scope_loop_halts [halts_intros]: "halts (scope_loop stmts adj st)"
proof (induction stmts adj st rule: scope_loop.induct)
  case (1 stmts adj st)
  then show ?case
    by (subst scope_loop.simps) (intro halts_intros; simp)
qed

lemma wf_actions_validated:
  assumes "card (set (map ref acts)) = length acts" and "collect_dependencies acts = Inr deps"
    and "filter (\<lambda>d. d \<notin> set (map ref acts)) deps = []"
  shows "wf_actions acts"
proof -
  have "sfold f ps acc = Inr res \<Longrightarrow> set acc \<union> (\<lambda>(a, d). dep_src d) ` set ps \<subseteq> set res \<and>
      (\<forall>(a, d) \<in> set ps. \<exists>e. edge_components_from_dep d = Inr e)"
    if "f = (\<lambda>(a, d) acc. case edge_components_from_dep d of
       Inl _ \<Rightarrow> Inl (InvalidDepRef d (ref a)) | Inr (src, _) \<Rightarrow> Inr (acc @ [src]))"
    for f ps acc res
  proof (induction ps arbitrary: acc)
    case (Cons p ps)
    then show ?case unfolding that
      by (cases p) (force simp: sbind_eq_Inr dep_edge_def split: sum.splits)
  qed simp
  from this [OF refl, of "dep_pairs acts" "[]" deps] assms(2)
  have "(\<lambda>(a, d). dep_src d) ` set (dep_pairs acts) \<subseteq> set deps"
    and "\<forall>(a, d) \<in> set (dep_pairs acts). \<exists>e. edge_components_from_dep d = Inr e"
    by (simp_all add: collect_dependencies_def sfold_nested dep_pairs_def)
  then have "\<forall>(a, d) \<in> set (dep_pairs acts). dep_ok acts d"
    using assms(3) by (force simp: dep_ok_def dep_edge_def filter_empty_conv split: sum.splits)
  moreover have "distinct (map ref acts)"
    using assms(1) by (intro card_distinct) simp
  ultimately show ?thesis by (auto simp: wf_actions_def dep_pairs_def list_all_iff)
qed

lemma validate_structure_parts:
  assumes "validate_structure parse acts = Inr u"
  shows "wf_actions acts" and "\<exists>a \<in> set acts. depends_on a = []"
    and "all_action_expressions_valid parse (set (map ref acts)) acts = Inr ()"
    and "validate_scatter_gather_scopes parse acts = Inr ()"
proof -
  note v = assms [unfolded validate_structure_def Let_def]
  from v have card: "card (set (map ref acts)) = length acts" by (auto split: if_splits)
  from v show "\<exists>a \<in> set acts. depends_on a = []" by (auto simp: filter_empty_conv split: if_splits)
  from v obtain deps where deps: "collect_dependencies acts = Inr deps"
    and rest: "(case filter (\<lambda>d. d \<notin> set (map ref acts)) deps of
         d # ds \<Rightarrow> Inl (InvalidDeps (d # ds))
       | [] \<Rightarrow> sbind (all_action_expressions_valid parse (set (map ref acts)) acts) (\<lambda>_.
           validate_scatter_gather_scopes parse acts)) = Inr u"
    unfolding sbind_eq_Inr by (auto simp: sbind_eq_Inr split: if_splits)
  have "filter (\<lambda>d. d \<notin> set (map ref acts)) deps = []"
    by (rule ccontr) (use rest in \<open>auto simp: neq_Nil_conv\<close>)
  with card deps rest show "wf_actions acts"
    and "all_action_expressions_valid parse (set (map ref acts)) acts = Inr ()"
    and "validate_scatter_gather_scopes parse acts = Inr ()"
    by (auto simp: sbind_eq_Inr intro: wf_actions_validated)
qed

section \<open>Reachability\<close>

definition adj_rel :: "('a, 'a list) dict \<Rightarrow> ('a \<times> 'a) set" where
  "adj_rel adj = {(x, y). y \<in> set (get_default [] adj x)}"

lemma can_reach_sound:
  assumes "set stack \<union> set seen \<subseteq> (adj_rel adj)\<^sup>* `` S"
  shows "set (can_reach adj stack seen) \<subseteq> (adj_rel adj)\<^sup>* `` S"
  using assms
proof (induction adj stack seen rule: can_reach.induct)
  case (2 adj cur stack seen)
  show ?case
  proof (cases "cur \<in> set seen")
    case False
    have "set (get_default [] adj cur) \<subseteq> (adj_rel adj)\<^sup>* `` S"
      using "2.prems" by (auto simp: adj_rel_def intro: rtrancl_into_rtrancl)
    with 2 False show ?thesis by simp
  qed (use 2 in simp)
qed simp

lemma can_reach_complete:
  assumes "\<forall>x \<in> set seen. adj_rel adj `` {x} \<subseteq> set seen \<union> set stack"
  shows "set stack \<union> set seen \<subseteq> set (can_reach adj stack seen) \<and>
     adj_rel adj `` set (can_reach adj stack seen) \<subseteq> set (can_reach adj stack seen)"
  using assms
proof (induction adj stack seen rule: can_reach.induct)
  case (2 adj cur stack seen)
  show ?case
  proof (cases "cur \<in> set seen")
    case True
    with 2 show ?thesis by auto
  next
    case False
    have "adj_rel adj `` {cur} = set (get_default [] adj cur)" by (auto simp: adj_rel_def)
    then have "\<forall>x \<in> set (cur # seen). adj_rel adj `` {x} \<subseteq>
        set (cur # seen) \<union> set (rev (get_default [] adj cur) @ stack)"
      using "2.prems" by auto
    from "2.IH"(2) [OF False this] False show ?thesis by simp
  qed
qed auto

lemma can_reach_eq: "set (can_reach adj [x] []) = (adj_rel adj)\<^sup>* `` {x}"
proof
  show "set (can_reach adj [x] []) \<subseteq> (adj_rel adj)\<^sup>* `` {x}"
    by (rule can_reach_sound) auto
next
  have start: "x \<in> set (can_reach adj [x] [])"
    and closed: "adj_rel adj `` set (can_reach adj [x] []) \<subseteq> set (can_reach adj [x] [])"
    using can_reach_complete [of "[]" adj "[x]"] by auto
  have "y \<in> set (can_reach adj [x] [])" if "(x, y) \<in> (adj_rel adj)\<^sup>*" for y
    using that by (induction rule: rtrancl_induct) (use start closed in auto)
  then show "(adj_rel adj)\<^sup>* `` {x} \<subseteq> set (can_reach adj [x] [])" by auto
qed

declare can_reach.simps [simp del]

definition success_rel :: "action_stmt list \<Rightarrow> (string \<times> string) set" where
  "success_rel acts =
     {(dep_src d, ref a) | a d. a \<in> set acts \<and> d \<in> set (depends_on a) \<and> snd (dep_edge d) = SUCCESS}"

lemma reverse_inner:
  "y \<in> set (get_default [] (fold (\<lambda>(dst, t) radj.
      if t = SUCCESS then dict_set dst (List.insert src (get_default [] radj dst)) radj else radj) out radj) x)
   \<longleftrightarrow> y \<in> set (get_default [] radj x) \<or> y = src \<and> (x, SUCCESS) \<in> set out"
proof (induction out arbitrary: radj)
  case (Cons p out)
  then show ?case by (cases p; cases "snd p") auto
qed simp

lemma reverse_outer:
  "y \<in> set (get_default [] (fold (\<lambda>(src, out) radj. fold (\<lambda>(dst, t) radj.
      if t = SUCCESS then dict_set dst (List.insert src (get_default [] radj dst)) radj else radj) out radj)
      adj radj) x)
   \<longleftrightarrow> y \<in> set (get_default [] radj x) \<or> (\<exists>out. (y, out) \<in> set adj \<and> (x, SUCCESS) \<in> set out)"
  by (induction adj arbitrary: radj) (auto simp: reverse_inner)

lemma reverse_success_rel:
  assumes "wf_actions acts" and "to_typed_adjacency acts = Inr adj"
  shows "adj_rel (reverse_success_adj acts adj) = (success_rel acts)\<inverse>"
proof -
  from to_typed_adjacency_ok [OF assms(1)] assms(2) have
    get: "\<And>k. get_default [] adj k =
      map (\<lambda>(a, d). (ref a, snd (dep_edge d))) (filter (\<lambda>(a, d). dep_src d = k) (dep_pairs acts))"
    and dist: "distinct (dict_keys adj)"
    by (metis sum.inject(2))+
  have "(y, out) \<in> set adj \<longleftrightarrow> dict_get adj y = Some out" for y out
    by (simp add: map_of_eq_Some_iff dist)
  then have "(\<exists>out. (y, out) \<in> set adj \<and> (x, SUCCESS) \<in> set out) \<longleftrightarrow> (x, SUCCESS) \<in> set (get_default [] adj y)" for x y
    by (cases "dict_get adj y") (simp_all add: get_default_def)
  moreover have "(x, SUCCESS) \<in> set (get_default [] adj y) \<longleftrightarrow> (y, x) \<in> success_rel acts" for x y
    unfolding get by (force simp: success_rel_def dep_pairs_def)
  ultimately show ?thesis
    by (auto simp: adj_rel_def reverse_success_adj_def reverse_outer init_adjacency_get)
qed

lemma unsynchronized_none:
  assumes "unsynchronized_actions scopes h loop_scope reach = Inr []"
    and "(r, sc) \<in> set scopes" and "scope_walk loop_scope sc h = Some True"
  shows "r \<in> set reach"
proof -
  have step: "acc = []" if "sfold (\<lambda>x acc. sbind (is_unsynchronized h loop_scope reach x) (\<lambda>b.
      Inr (if b then insort (fst x) acc else acc))) xs acc = Inr []" for xs acc
    using that by (induction xs arbitrary: acc) (fastforce simp: sbind_eq_Inr split: if_splits)+
  from assms(2) obtain us vs where "scopes = us @ (r, sc) # vs" by (auto dest: split_list)
  with assms(1) obtain acc b where b: "is_unsynchronized h loop_scope reach (r, sc) = Inr b"
    and "sfold (\<lambda>x acc. sbind (is_unsynchronized h loop_scope reach x) (\<lambda>b.
      Inr (if b then insort (fst x) acc else acc))) vs (if b then insort (fst (r, sc)) acc else acc) = Inr []"
    by (auto simp: unsynchronized_actions_def sfold_append sbind_eq_Inr)
  from step [OF this(2)] have "\<not> b" by (auto split: if_splits)
  with b assms(3) show ?thesis
    by (auto simp: is_unsynchronized_def is_same_or_descendant_scope_def returned_def)
qed

section \<open>Properties of accepted definitions\<close>

lemma slug_not_root: "list_all (\<lambda>a. slug_ok (ref a)) acts \<Longrightarrow> ROOT_SCOPE \<notin> ref ` set acts"
proof -
  have "\<not> slug_ok ROOT_SCOPE" by code_simp
  then show "list_all (\<lambda>a. slug_ok (ref a)) acts \<Longrightarrow> ROOT_SCOPE \<notin> ref ` set acts"
    by (auto simp: list_all_iff)
qed

lemma loop_end_by_scope_entry:
  assumes "loop_end_by_scope acts maps = Inr ends" and "(sc, r) \<in> set ends"
  shows "\<exists>e \<in> set acts. ref e = r \<and> action e = LOOP_END \<and> resolve_closed_loop_scope e maps = Inr sc"
proof -
  define I where "I ends \<longleftrightarrow> (\<forall>(sc, r) \<in> set ends. \<exists>e \<in> set acts.
    ref e = r \<and> action e = LOOP_END \<and> resolve_closed_loop_scope e maps = Inr sc)" for ends
  have "set (dict_set k v d) \<subseteq> insert (k, v) (set d)" for k v and d :: "(string, string) dict"
    by (induction d) auto
  then have step: "I (dict_set sc (ref a) ends)"
    if "I ends" "a \<in> set acts" "action a = LOOP_END" "resolve_closed_loop_scope a maps = Inr sc" for a sc ends
    using that unfolding I_def by fastforce
  have "I ends"
    by (rule sfold_invariant [OF assms(1) [unfolded loop_end_by_scope_def]])
      (auto simp: sbind_eq_Inr I_def [of "[]"] step split: if_splits option.splits)
  with assms(2) show ?thesis by (auto simp: I_def)
qed

lemma validated_scopes:
  assumes v: "validate_structure parse acts = Inr u" and slugs: "list_all (\<lambda>a. slug_ok (ref a)) acts"
    and opener: "a \<in> set acts" "action a \<in> SCOPE_OPENER_ACTIONS"
  obtains adj maps where "to_adjacency acts = Inr adj" "assign_action_scopes acts adj = Inr maps"
    "scope_maps_ok acts maps" "validate_scope_dependencies parse acts maps = Inr ()"
    "validate_loop_scope_synchronization acts maps = Inr ()"
proof -
  have "\<not> (refs_of_action TRANSFORM_SCATTER acts = [] \<and> refs_of_action LOOP_START acts = [])"
    using opener by (auto simp: refs_of_action_def filter_empty_conv SCOPE_OPENER_ACTIONS_def)
  then obtain adj maps where adj: "py_raises (to_adjacency acts) = Inr adj"
    and maps: "assign_action_scopes acts adj = Inr maps"
    "validate_scope_dependencies parse acts maps = Inr ()"
    "validate_loop_scope_synchronization acts maps = Inr ()"
    using validate_structure_parts(4) [OF v]
    by (auto simp: validate_scatter_gather_scopes_def Let_def sbind_eq_Inr split: if_splits)
  from adj have adj: "to_adjacency acts = Inr adj" by (auto simp: py_raises_def split: sum.splits)
  from assign_action_scopes_maps [OF validate_structure_parts(1) [OF v] slug_not_root [OF slugs] adj maps(1)]
  show ?thesis using that adj maps by blast
qed

text \<open>C35: validation terminates. For a definition whose references are slugs, no walk up the scope
  hierarchy runs forever, whatever the expression parser halts: \<open>validate_structure\<close> always
  accepts or raises.\<close>

theorem validate_structure_halts:
  assumes "list_all (\<lambda>a. slug_ok (ref a)) acts"
  shows "validate_structure parse acts \<noteq> Inl (PyExn NonTermination)"
proof -
  have "halts (validate_scatter_gather_scopes parse acts)" if wf: "wf_actions acts"
  proof -
    have "halts (assign_action_scopes acts adj)" for adj
      unfolding assign_action_scopes_def by (intro halts_intros) simp_all
    moreover have "scope_maps_ok acts maps"
      if "py_raises (to_adjacency acts) = Inr adj" "assign_action_scopes acts adj = Inr maps" for adj maps
      using that assign_action_scopes_maps [OF wf slug_not_root [OF assms]]
      by (auto simp: py_raises_def split: sum.splits)
    ultimately show ?thesis
      unfolding validate_scatter_gather_scopes_def Let_def using wf
      by (intro halts_intros) (assumption | simp | blast)+
  qed
  moreover have "halts (collect_dependencies acts)"
    unfolding collect_dependencies_def by (intro halts_intros) (simp split: sum.splits prod.splits)
  moreover have "halts (all_action_expressions_valid parse rs acts)" for rs
    unfolding all_action_expressions_valid_def by (intro halts_intros) simp_all
  ultimately have "halts (validate_structure parse acts)"
    unfolding validate_structure_def Let_def
    by (intro halts_intros) (simp_all add: wf_actions_validated)
  then show ?thesis by (simp add: halts_def)
qed

theorem validate_structure_halts_witness:
  "validate_structure (\<lambda>_. Some []) diamond_actions \<noteq> Inl (PyExn NonTermination)"
  by (rule validate_structure_halts) code_simp

text \<open>C36: what an accepted definition guarantees to the scheduler. References are unique, every
  dependency parses and names an action, some action has no dependency, and every action reference
  in an expression names an action.\<close>

theorem validate_structure_wf:
  assumes "validate_structure parse acts = Inr u"
  shows "wf_actions acts \<and> (\<exists>a \<in> set acts. depends_on a = []) \<and>
    (\<forall>a \<in> set acts. \<forall>(key, value) \<in> set (dump_stmt a).
       \<exists>deps. extract_expressions parse value = Inr deps \<and> set deps \<subseteq> ref ` set acts)"
proof -
  have "\<forall>a \<in> set acts. \<forall>(key, value) \<in> set (dump_stmt a).
      \<exists>deps. extract_expressions parse value = Inr deps \<and> set deps \<subseteq> ref ` set acts"
    using validate_structure_parts(3) [OF assms]
    by (fastforce simp: all_action_expressions_valid_def sall_ok_iff sbind_eq_Inr py_raises_def
        split: sum.splits if_splits)
  with validate_structure_parts [OF assms] show ?thesis by simp
qed

lemma diamond_validated: "validate_structure (\<lambda>_. Some []) diamond_actions = Inr ()"
  by code_simp

theorem validate_structure_wf_witness:
  "wf_actions diamond_actions \<and> (\<exists>a \<in> set diamond_actions. depends_on a = [])"
  using validate_structure_wf [OF diamond_validated] by simp

lemma loop_sync_parts:
  assumes sync: "validate_loop_scope_synchronization acts (scopes, h, openers) = Inr ()"
    and loop: "dict_get openers r = Some LOOP_START"
  obtains ends tadj le where "loop_end_by_scope acts (scopes, h, openers) = Inr ends" "(r, le) \<in> set ends"
    "to_typed_adjacency acts = Inr tadj"
    "unsynchronized_actions scopes h r (can_reach (reverse_success_adj acts tadj) [le] []) = Inr []"
proof -
  let ?loops = "map fst (filter (\<lambda>(_, opener). opener = LOOP_START) openers)"
  have mem: "r \<in> set ?loops" using map_of_SomeD [OF loop] by force
  then have "?loops \<noteq> []" by (metis empty_iff list.set(1))
  from sync [unfolded validate_loop_scope_synchronization_def prod.case Let_def if_not_P [OF this] sbind_eq_Inr]
  obtain ends where ends: "loop_end_by_scope acts (scopes, h, openers) = Inr ends"
    and rest: "(case sort (filter (\<lambda>sc. sc \<notin> set (dict_keys ends)) ?loops) of
         missing # _ \<Rightarrow> Inl (LoopNoEnd missing)
       | [] \<Rightarrow> sbind (py_raises (to_typed_adjacency acts)) (\<lambda>adj. sall (\<lambda>(loop_scope, loop_end_ref).
           sbind (unsynchronized_actions scopes h loop_scope
               (can_reach (reverse_success_adj acts adj) [loop_end_ref] []))
             (\<lambda>bad. if bad \<noteq> [] then Inl (LoopUnsynchronized loop_scope loop_end_ref bad) else Inr ())) ends)) = Inr ()"
    by (elim exE conjE) (rule that)
  have none: "sort (filter (\<lambda>sc. sc \<notin> set (dict_keys ends)) ?loops) = []"
  proof (rule ccontr)
    assume "sort (filter (\<lambda>sc. sc \<notin> set (dict_keys ends)) ?loops) \<noteq> []"
    then obtain x xs where "sort (filter (\<lambda>sc. sc \<notin> set (dict_keys ends)) ?loops) = x # xs"
      by (auto simp only: neq_Nil_conv)
    with rest show False by (simp only: list.case) simp
  qed
  from rest [unfolded none list.case sbind_eq_Inr] obtain tadj where
    "py_raises (to_typed_adjacency acts) = Inr tadj" and
    each: "\<And>sc le. (sc, le) \<in> set ends \<Longrightarrow> unsynchronized_actions scopes h sc
        (can_reach (reverse_success_adj acts tadj) [le] []) = Inr []"
    by (force simp: sall_ok_iff sbind_eq_Inr split: if_splits)
  moreover from none mem have "r \<in> set (dict_keys ends)"
    using set_sort [of id "filter (\<lambda>sc. sc \<notin> set (dict_keys ends)) ?loops"] by (auto simp: id_def)
  then obtain le where "(r, le) \<in> set ends" by auto
  ultimately show ?thesis using that ends by (auto simp: py_raises_def split: sum.splits)
qed

text \<open>C24: loop synchronisation. In an accepted definition every \<open>core.loop.start\<close> has a
  \<open>core.loop.end\<close> that closes its scope, and every action whose scope is the loop's or a
  descendant of it has a path of success edges to that loop end, so no branch of an iteration can
  outlive the loop end that starts the next one.\<close>

theorem validated_loop_synchronized:
  assumes v: "validate_structure parse acts = Inr u" and slugs: "list_all (\<lambda>a. slug_ok (ref a)) acts"
    and a: "a \<in> set acts" "action a = LOOP_START"
  shows "\<exists>adj scopes h openers e.
     to_adjacency acts = Inr adj \<and> assign_action_scopes acts adj = Inr (scopes, h, openers) \<and>
     e \<in> set acts \<and> action e = LOOP_END \<and>
     resolve_closed_loop_scope e (scopes, h, openers) = Inr (ref a) \<and>
     (\<forall>b \<in> set acts. \<forall>sc. dict_get scopes (ref b) = Some sc \<longrightarrow> (sc, ref a) \<in> (parent_rel h)\<^sup>* \<longrightarrow>
        (ref b, ref e) \<in> (success_rel acts)\<^sup>*)"
proof -
  have wf: "wf_actions acts" by (rule validate_structure_parts(1) [OF v])
  have op: "action a \<in> SCOPE_OPENER_ACTIONS" using a by (simp add: SCOPE_OPENER_ACTIONS_def)
  obtain adj maps where adj: "to_adjacency acts = Inr adj" and asg: "assign_action_scopes acts adj = Inr maps"
    and ok: "scope_maps_ok acts maps" and sync: "validate_loop_scope_synchronization acts maps = Inr ()"
    using validated_scopes [OF v slugs a(1) op] .
  obtain scopes h openers where maps: "maps = (scopes, h, openers)" by (cases maps)
  have "dict_get openers (ref a) = Some LOOP_START" using ok a op by (simp add: scope_maps_ok_def maps)
  from loop_sync_parts [OF sync [unfolded maps] this] obtain ends tadj le where
    ends: "loop_end_by_scope acts maps = Inr ends" and le: "(ref a, le) \<in> set ends"
    and tadj: "to_typed_adjacency acts = Inr tadj"
    and synced: "unsynchronized_actions scopes h (ref a) (can_reach (reverse_success_adj acts tadj) [le] []) = Inr []"
    unfolding maps .
  from loop_end_by_scope_entry [OF ends le] obtain e where
    e: "e \<in> set acts" "ref e = le" "action e = LOOP_END" "resolve_closed_loop_scope e maps = Inr (ref a)" by blast
  from ok obtain f where f: "ranked f h" by (auto simp: scope_maps_ok_def maps)
  have "(ref b, ref e) \<in> (success_rel acts)\<^sup>*"
    if "dict_get scopes (ref b) = Some sc" "(sc, ref a) \<in> (parent_rel h)\<^sup>*" for b sc
  proof -
    from synced have "ref b \<in> set (can_reach (reverse_success_adj acts tadj) [le] [])"
      using map_of_SomeD [OF that(1)] scope_walk_total [OF f, of "ref a" sc] that(2)
      by (intro unsynchronized_none) simp_all
    then have "(le, ref b) \<in> ((success_rel acts)\<inverse>)\<^sup>*"
      by (simp add: can_reach_eq reverse_success_rel [OF wf tadj])
    then show ?thesis by (simp add: rtrancl_converse e)
  qed
  with adj asg e show ?thesis unfolding maps by blast
qed

definition loop_actions :: "action_stmt list" where
  "loop_actions =
     [new_stmt ''start'' LOOP_START,
      (new_stmt ''body'' ''core.http'')\<lparr>depends_on := [''start'']\<rparr>,
      (new_stmt ''end'' LOOP_END)\<lparr>depends_on := [''body'']\<rparr>]"

definition loop_scope_maps :: scope_maps where
  "loop_scope_maps =
     ([(''start'', ''start''), (''body'', ''start''), (''end'', ROOT_SCOPE)],
      [(ROOT_SCOPE, None), (''start'', Some ROOT_SCOPE)], [(''start'', LOOP_START)])"

lemma scope_walk_self: "scope_walk x x h = Some True"
  by (simp add: scope_walk.simps [of x x])

lemma loop_scopes_assigned:
  "to_adjacency loop_actions = Inr [(''start'', [''body'']), (''body'', [''end'']), (''end'', [])]"
  "assign_action_scopes loop_actions [(''start'', [''body'']), (''body'', [''end'']), (''end'', [])] = Inr loop_scope_maps"
  by code_simp+

lemma loop_validated: "validate_structure (\<lambda>_. Some []) loop_actions = Inr ()"
proof -
  have "unsynchronized_actions (fst loop_scope_maps) (fst (snd loop_scope_maps)) ''start'' [''start'', ''body'', ''end''] = Inr []"
    by (simp add: unsynchronized_actions_def is_unsynchronized_def is_same_or_descendant_scope_def
        loop_scope_maps_def scope_walk_self returned_def ROOT_SCOPE_def
        scope_walk.simps [of "''start''" "''<root>''"] get_opt_def)
  moreover have "to_typed_adjacency loop_actions =
      Inr [(''start'', [(''body'', SUCCESS)]), (''body'', [(''end'', SUCCESS)]), (''end'', [])]" by code_simp
  moreover have "can_reach (reverse_success_adj loop_actions
      [(''start'', [(''body'', SUCCESS)]), (''body'', [(''end'', SUCCESS)]), (''end'', [])]) [''end''] []
      = [''start'', ''body'', ''end'']" by code_simp
  moreover have "loop_end_by_scope loop_actions loop_scope_maps = Inr [(''start'', ''end'')]" by code_simp
  ultimately have "validate_loop_scope_synchronization loop_actions loop_scope_maps = Inr ()"
    by (simp add: validate_loop_scope_synchronization_def loop_scope_maps_def py_raises_def)
  moreover have "validate_scope_dependencies (\<lambda>_. Some []) loop_actions loop_scope_maps = Inr ()"
    by code_simp
  moreover have "collect_dependencies loop_actions = Inr [''start'', ''body'']"
    "all_action_expressions_valid (\<lambda>_. Some []) (set (map ref loop_actions)) loop_actions = Inr ()"
    "card (set (map ref loop_actions)) = length loop_actions"
    "refs_of_action TRANSFORM_SCATTER loop_actions = []" "refs_of_action TRANSFORM_GATHER loop_actions = []"
    "refs_of_action LOOP_START loop_actions = [''start'']" "refs_of_action LOOP_END loop_actions = [''end'']"
    "filter (\<lambda>a. depends_on a = []) loop_actions = [new_stmt ''start'' LOOP_START]"
    "filter (\<lambda>d. d \<notin> set (map ref loop_actions)) [''start'', ''body''] = []" "loop_actions \<noteq> []"
    by code_simp+
  ultimately show ?thesis
    unfolding validate_structure_def validate_scatter_gather_scopes_def Let_def
    by (simp add: loop_scopes_assigned py_raises_def del: filter_empty_conv)
qed

theorem validated_loop_synchronized_witness:
  "\<exists>adj scopes h openers e.
     to_adjacency loop_actions = Inr adj \<and> assign_action_scopes loop_actions adj = Inr (scopes, h, openers) \<and>
     e \<in> set loop_actions \<and> action e = LOOP_END \<and>
     resolve_closed_loop_scope e (scopes, h, openers) = Inr ''start'' \<and>
     (\<forall>b \<in> set loop_actions. \<forall>sc. dict_get scopes (ref b) = Some sc \<longrightarrow> (sc, ''start'') \<in> (parent_rel h)\<^sup>* \<longrightarrow>
        (ref b, ref e) \<in> (success_rel loop_actions)\<^sup>*)"
proof -
  let ?a = "new_stmt ''start'' LOOP_START"
  have "list_all (\<lambda>a. slug_ok (ref a)) loop_actions" by code_simp
  moreover have "?a \<in> set loop_actions" "action ?a = LOOP_START" "ref ?a = ''start''"
    by (simp_all add: loop_actions_def new_stmt_def)
  ultimately show ?thesis using validated_loop_synchronized [OF loop_validated, of ?a] by simp
qed

lemma resolve_closed_loop_scope_parent:
  assumes "resolve_closed_loop_scope e (scopes, h, openers) = Inr sd" and "dict_get scopes (ref e) = Some sa"
  shows "get_opt h sd = Some sa"
proof -
  from assms obtain ds where "dep_scopes_of scopes (depends_on e) = Inr ds"
    by (auto simp: resolve_closed_loop_scope_def index_or_def sbind_eq_Inr)
  with assms show ?thesis
    by (cases ds; cases "tl ds") (auto simp: resolve_closed_loop_scope_def index_or_def split: if_splits)
qed

lemma loop_end_infos_entry:
  assumes "loop_end_infos parse acts maps = Inr info" and "dict_get info r = Some (sc, refs)"
  shows "\<exists>e \<in> set acts. ref e = r \<and> resolve_closed_loop_scope e maps = Inr sc"
proof -
  define I where "I info \<longleftrightarrow> (\<forall>r sc refs. dict_get info r = Some (sc, refs) \<longrightarrow>
    (\<exists>e \<in> set acts. ref e = r \<and> resolve_closed_loop_scope e maps = Inr sc))" for info :: loop_end_info
  have "I info"
    by (rule sfold_invariant [OF assms(1) [unfolded loop_end_infos_def]])
      (auto simp: sbind_eq_Inr I_def split: if_splits)
  with assms(2) show ?thesis by (auto simp: I_def)
qed

text \<open>C23: scope isolation. In an accepted definition with scopes, every dependency edge either stays
  inside one scope, enters a scope through its opener from the parent scope, or leaves a child
  scope through a gather or a loop end that runs in the parent scope.\<close>

theorem validated_edges_respect_scopes:
  assumes v: "validate_structure parse acts = Inr u" and slugs: "list_all (\<lambda>a. slug_ok (ref a)) acts"
    and opener: "o' \<in> set acts" "action o' \<in> SCOPE_OPENER_ACTIONS"
  shows "\<exists>adj scopes h openers. to_adjacency acts = Inr adj \<and>
     assign_action_scopes acts adj = Inr (scopes, h, openers) \<and>
     (\<forall>a \<in> set acts. \<forall>d \<in> set (depends_on a). \<exists>sa sd.
        dict_get scopes (ref a) = Some sa \<and> dict_get scopes (dep_src d) = Some sd \<and>
        (if action a \<in> SCOPE_OPENER_ACTIONS then get_opt h sa = Some sd
         else if action a \<in> SCOPE_CLOSER_ACTIONS then get_opt h sd = Some sa
         else sd = sa))"
proof -
  from validated_scopes [OF v slugs opener] obtain adj maps where
    adj: "to_adjacency acts = Inr adj" and asg: "assign_action_scopes acts adj = Inr maps"
    and deps: "validate_scope_dependencies parse acts maps = Inr ()" .
  obtain scopes h openers where maps: "maps = (scopes, h, openers)" by (cases maps)
  from deps obtain info where info: "loop_end_infos parse acts maps = Inr info"
    and each: "\<forall>a \<in> set acts. check_action_scope parse maps info a = Inr ()"
    by (auto simp: validate_scope_dependencies_def sbind_eq_Inr sall_ok_iff)
  have "\<exists>sa sd. dict_get scopes (ref a) = Some sa \<and> dict_get scopes (dep_src d) = Some sd \<and>
      (if action a \<in> SCOPE_OPENER_ACTIONS then get_opt h sa = Some sd
       else if action a \<in> SCOPE_CLOSER_ACTIONS then get_opt h sd = Some sa else sd = sa)"
    if a: "a \<in> set acts" and d: "d \<in> set (depends_on a)" for a d
  proof -
    from each a d obtain sa where sa: "dict_get scopes (ref a) = Some sa"
      and edge: "check_edge maps info a sa d = Inr ()"
      by (auto simp: check_action_scope_def maps index_or_def sbind_eq_Inr sall_ok_iff split: option.splits)
    from edge wf_actions_dep(1) [OF validate_structure_parts(1) [OF v] a d]
    obtain sd where sd: "dict_get scopes (dep_src d) = Some sd"
      by (auto simp: check_edge_def maps sbind_eq_Inr py_raises_def index_or_def split: option.splits prod.splits)
    show ?thesis
    proof (cases "action a = LOOP_END")
      case True
      with edge sd wf_actions_dep(1) [OF validate_structure_parts(1) [OF v] a d]
      obtain refs where "dict_get info (ref a) = Some (sd, refs)"
        by (auto simp: check_edge_def maps sbind_eq_Inr py_raises_def index_or_def SCOPE_OPENER_ACTIONS_def
            platform_action_defs split: option.splits prod.splits if_splits)
      then have "resolve_closed_loop_scope a maps = Inr sd"
        using loop_end_infos_entry [OF info, of "ref a" sd refs]
          wf_actions_unique [OF validate_structure_parts(1) [OF v] _ a] by auto
      then have "get_opt h sd = Some sa"
        using sa resolve_closed_loop_scope_parent unfolding maps by blast
      with True sa sd show ?thesis
        by (simp add: SCOPE_OPENER_ACTIONS_def SCOPE_CLOSER_ACTIONS_def platform_action_defs)
    next
      case False
      with edge sa sd wf_actions_dep(1) [OF validate_structure_parts(1) [OF v] a d] show ?thesis
        by (auto simp: check_edge_def maps sbind_eq_Inr py_raises_def index_or_def get_opt_def
            split: option.splits prod.splits if_splits)
    qed
  qed
  with adj asg show ?thesis unfolding maps by blast
qed

theorem validated_edges_respect_scopes_witness:
  "\<exists>adj scopes h openers. to_adjacency loop_actions = Inr adj \<and>
     assign_action_scopes loop_actions adj = Inr (scopes, h, openers) \<and>
     (\<forall>a \<in> set loop_actions. \<forall>d \<in> set (depends_on a). \<exists>sa sd.
        dict_get scopes (ref a) = Some sa \<and> dict_get scopes (dep_src d) = Some sd \<and>
        (if action a \<in> SCOPE_OPENER_ACTIONS then get_opt h sa = Some sd
         else if action a \<in> SCOPE_CLOSER_ACTIONS then get_opt h sd = Some sa
         else sd = sa))"
proof (rule validated_edges_respect_scopes [OF loop_validated])
  show "list_all (\<lambda>a. slug_ok (ref a)) loop_actions" by code_simp
  show "new_stmt ''start'' LOOP_START \<in> set loop_actions" by (simp add: loop_actions_def)
  show "action (new_stmt ''start'' LOOP_START) \<in> SCOPE_OPENER_ACTIONS"
    by (simp add: new_stmt_def SCOPE_OPENER_ACTIONS_def)
qed

end
