(* ===== verification/Dsl_Build.thy ===== *)
theory Dsl_Build
  imports Dsl_Validation
begin

text \<open>
  From the database to a workflow definition (\<open>build_action_statements_from_actions\<close> of
  \<open>tracecat/dsl/common.py\<close>): the actions reachable from the trigger become statements, and their
  upstream edges become dependency references. The UUID parser and the YAML loader are parameters;
  upstream edges are the validated \<open>UpstreamEdgeData\<close> dictionaries.
\<close>

section \<open>Database rows\<close>

record upstream_edge =
  source_id :: string
  source_type :: "string option"
  source_handle :: "string option"

record control_flow =
  cf_run_if :: "string option"
  cf_for_each :: pyval
  cf_join_strategy :: join_strategy
  cf_retry_policy :: retry_policy
  cf_start_delay :: rat
  cf_wait_until :: "string option"
  cf_environment :: "string option"
  cf_mask_output :: bool

record db_action =
  db_id :: string
  db_ref :: string
  db_type :: string
  db_inputs :: string
  db_control_flow :: control_flow
  db_is_interactive :: bool
  db_interaction :: pyval
  upstream_edges :: "upstream_edge list"

section \<open>Reachable actions\<close>

definition id2action :: "db_action list \<Rightarrow> (string, db_action) dict" where
  "id2action acts = fold (\<lambda>a d. dict_set (db_id a) a d) acts []"

definition is_trigger_edge :: "upstream_edge \<Rightarrow> bool" where
  "is_trigger_edge e \<longleftrightarrow>
     source_type e = Some ''trigger'' \<or>
     source_type e = None \<and> starts_with ''trigger-'' (source_id e)"

text \<open>One edge of the first loop: a trigger root, an adjacency entry, or nothing.\<close>

type_synonym reach_state = "string list \<times> (string, string list) dict"

definition scan_edge ::
  "(string \<Rightarrow> string option) \<Rightarrow> (string, db_action) dict \<Rightarrow> db_action \<Rightarrow> upstream_edge \<Rightarrow> reach_state \<Rightarrow> reach_state"
where
  "scan_edge uuid ids a e st =
     (case st of (roots, adjacency) \<Rightarrow>
        if source_id e = [] then st
        else if is_trigger_edge e then (List.insert (db_id a) roots, adjacency)
        else if (case source_type e of None \<Rightarrow> ''udf'' | Some t \<Rightarrow> t) \<noteq> ''udf'' then st
        else case uuid (source_id e) of
               None \<Rightarrow> st
             | Some src \<Rightarrow>
                 if dict_get ids src \<noteq> None
                 then (roots, dict_set src (List.insert (db_id a) (get_default [] adjacency src)) adjacency)
                 else st)"

definition scan_edges :: "(string \<Rightarrow> string option) \<Rightarrow> db_action list \<Rightarrow> reach_state" where
  "scan_edges uuid acts =
     fold (\<lambda>a. fold (scan_edge uuid (id2action acts) a) (upstream_edges a)) acts ([], [])"

text \<open>The breadth-first search: targets are marked when they are queued.\<close>

definition enqueue_new :: "string list \<Rightarrow> string list \<times> string list \<Rightarrow> string list \<times> string list" where
  "enqueue_new targets st =
     fold (\<lambda>t (queue, reachable). if t \<in> set reachable then (queue, reachable)
                                 else (queue @ [t], reachable @ [t])) targets st"

lemma enqueue_new_spec:
  assumes "enqueue_new ts (q, r) = (q', r')"
  shows "\<exists>new. q' = q @ new \<and> r' = r @ new \<and> distinct new \<and> set new = set ts - set r"
  using assms
proof (induction ts arbitrary: q r)
  case (Cons t ts)
  show ?case
  proof (cases "t \<in> set r")
    case True
    with Cons show ?thesis by (auto simp: enqueue_new_def)
  next
    case False
    with Cons.prems have "enqueue_new ts (q @ [t], r @ [t]) = (q', r')" by (simp add: enqueue_new_def)
    from Cons.IH [OF this] obtain new where
      "q' = (q @ [t]) @ new" "r' = (r @ [t]) @ new" "distinct new" "set new = set ts - set (r @ [t])" by blast
    with False show ?thesis by (intro exI [of _ "t # new"]) auto
  qed
qed (simp add: enqueue_new_def)

function reach_queue :: "(string, string list) dict \<Rightarrow> string list \<Rightarrow> string list \<Rightarrow> string list" where
  "reach_queue adj [] reachable = reachable"
| "reach_queue adj (s # queue) reachable =
     (case enqueue_new (get_default [] adj s) (queue, reachable) of
        (queue', reachable') \<Rightarrow> reach_queue adj queue' reachable')"
  by pat_completeness auto
termination
proof (relation "measures [\<lambda>(adj, _, r). card ((\<Union>x. set (get_default [] adj x)) - set r), \<lambda>(_, q, _). length q]")
  fix adj :: "(string, string list) dict" and s queue r q' r'
  assume "(q', r') = enqueue_new (get_default [] adj s) (queue, r)"
  then obtain new where new: "q' = queue @ new" "r' = r @ new" "set new = set (get_default [] adj s) - set r"
    using enqueue_new_spec by metis
  let ?U = "\<Union>x. set (get_default [] adj x)"
  have "set (get_default [] adj y) \<subseteq> \<Union> (set ` snd ` set adj)" for y
    by (cases "dict_get adj y") (force simp: get_default_def dest: map_of_SomeD)+
  then have "?U \<subseteq> \<Union> (set ` snd ` set adj)" by blast
  then have fin: "finite (?U - set r)" by (rule finite_subset [OF Diff_subset [THEN subset_trans]]) simp
  have "card (?U - set r') < card (?U - set r)" if "new \<noteq> []"
  proof (rule psubset_card_mono [OF fin])
    from that obtain y where "y \<in> set new" by (cases new) auto
    then show "?U - set r' \<subset> ?U - set r" using new by auto
  qed
  then show "((adj, q', r'), adj, s # queue, r) \<in>
      measures [\<lambda>(adj, _, r). card ((\<Union>x. set (get_default [] adj x)) - set r), \<lambda>(_, q, _). length q]"
    using new by (cases "new = []") auto
qed simp

declare reach_queue.simps [simp del]

definition get_reachable_action_ids :: "(string \<Rightarrow> string option) \<Rightarrow> db_action list \<Rightarrow> string list" where
  "get_reachable_action_ids uuid acts =
     (case scan_edges uuid acts of
        ([], _) \<Rightarrow> dict_keys (id2action acts)
      | (roots, adjacency) \<Rightarrow> reach_queue adjacency roots roots)"

section \<open>Statements\<close>

definition edge_dependency ::
  "(string \<Rightarrow> string option) \<Rightarrow> (string, db_action) dict \<Rightarrow> string list \<Rightarrow> upstream_edge \<Rightarrow> string option"
where
  "edge_dependency uuid ids reachable e =
     (if source_id e = [] then None
      else case uuid (source_id e) of
             None \<Rightarrow> None
           | Some src \<Rightarrow>
               (case dict_get ids src of
                  None \<Rightarrow> None
                | Some a \<Rightarrow>
                    if src \<notin> set reachable then None
                    else Some (if source_handle e = Some ''error''
                               then dep_from_edge_components (db_ref a) ERROR
                               else db_ref a)))"

definition build_statement ::
  "(string \<Rightarrow> pyval) \<Rightarrow> string list \<Rightarrow> db_action \<Rightarrow> exn + action_stmt" where
  "build_statement load_yaml dependencies a =
     (let cf = db_control_flow a; v = load_yaml (db_inputs a)
      in case (if py_bool v then v else VDict []) of
           VDict arguments \<Rightarrow>
             if slug_ok (db_ref a) \<and> action_type_ok (db_type a) then
               validate_interaction
                 \<lparr>ref = db_ref a, description = [], action = db_type a, args = arguments,
                  depends_on = dependencies,
                  interaction = (if db_is_interactive a \<and> py_bool (db_interaction a)
                                 then db_interaction a else VNone),
                  run_if = cf_run_if cf, for_each_expr = cf_for_each cf,
                  retry_policy = cf_retry_policy cf, start_delay = cf_start_delay cf,
                  wait_until = cf_wait_until cf, join_strategy = cf_join_strategy cf,
                  environment = cf_environment cf, mask_output = cf_mask_output cf\<rparr>
             else Inl (ValidationError ''ActionStatement'')
         | _ \<Rightarrow> Inl (ValidationError ''ActionStatement''))"

definition build_action_statements_from_actions ::
  "(string \<Rightarrow> string option) \<Rightarrow> (string \<Rightarrow> pyval) \<Rightarrow> db_action list \<Rightarrow> exn + action_stmt list" where
  "build_action_statements_from_actions uuid load_yaml acts =
     (let ids = id2action acts; reachable = get_reachable_action_ids uuid acts
      in sfold (\<lambda>a statements.
             if db_id a \<notin> set reachable then Inr statements
             else sbind (build_statement load_yaml
                     (sort (List.map_filter (edge_dependency uuid ids reachable) (upstream_edges a))) a)
                   (\<lambda>stmt. Inr (statements @ [stmt])))
           acts [])"

section \<open>The search finds exactly what the trigger reaches\<close>

lemma reach_queue_sound:
  assumes "set queue \<union> set r \<subseteq> (adj_rel adj)\<^sup>* `` S"
  shows "set (reach_queue adj queue r) \<subseteq> (adj_rel adj)\<^sup>* `` S"
  using assms
proof (induction adj queue r rule: reach_queue.induct)
  case (2 adj s queue r)
  obtain q' r' where e: "enqueue_new (get_default [] adj s) (queue, r) = (q', r')" by fastforce
  then obtain new where new: "q' = queue @ new" "r' = r @ new" "set new = set (get_default [] adj s) - set r"
    using enqueue_new_spec by metis
  have "set (get_default [] adj s) \<subseteq> (adj_rel adj)\<^sup>* `` S"
    using "2.prems" by (auto simp: adj_rel_def intro: rtrancl_into_rtrancl)
  with "2.prems" new have "set q' \<union> set r' \<subseteq> (adj_rel adj)\<^sup>* `` S" by auto
  from "2.IH" [OF e [symmetric] this] e show ?case by (simp add: reach_queue.simps)
qed (simp add: reach_queue.simps)

lemma reach_queue_complete:
  assumes "set queue \<subseteq> set r" and "\<forall>x \<in> set r - set queue. adj_rel adj `` {x} \<subseteq> set r"
  shows "set r \<subseteq> set (reach_queue adj queue r) \<and>
     adj_rel adj `` set (reach_queue adj queue r) \<subseteq> set (reach_queue adj queue r)"
  using assms
proof (induction adj queue r rule: reach_queue.induct)
  case (2 adj s queue r)
  obtain q' r' where e: "enqueue_new (get_default [] adj s) (queue, r) = (q', r')" by fastforce
  then obtain new where new: "q' = queue @ new" "r' = r @ new" "set new = set (get_default [] adj s) - set r"
    using enqueue_new_spec by metis
  have "adj_rel adj `` {s} = set (get_default [] adj s)" by (auto simp: adj_rel_def)
  then have "\<forall>x \<in> set r' - set q'. adj_rel adj `` {x} \<subseteq> set r'"
    using "2.prems" new by (auto 0 3)
  moreover have "set q' \<subseteq> set r'" using "2.prems" new by auto
  ultimately have "set r' \<subseteq> set (reach_queue adj q' r') \<and>
     adj_rel adj `` set (reach_queue adj q' r') \<subseteq> set (reach_queue adj q' r')"
    using "2.IH" [OF e [symmetric]] by blast
  with e new show ?case by (auto simp: reach_queue.simps)
qed (auto simp: reach_queue.simps)

lemma reach_queue_eq: "set (reach_queue adj roots roots) = (adj_rel adj)\<^sup>* `` set roots"
proof
  show "set (reach_queue adj roots roots) \<subseteq> (adj_rel adj)\<^sup>* `` set roots"
    by (rule reach_queue_sound) auto
next
  have start: "set roots \<subseteq> set (reach_queue adj roots roots)"
    and closed: "adj_rel adj `` set (reach_queue adj roots roots) \<subseteq> set (reach_queue adj roots roots)"
    using reach_queue_complete [of roots roots adj] by auto
  have "y \<in> set (reach_queue adj roots roots)" if "(x, y) \<in> (adj_rel adj)\<^sup>*" "x \<in> set roots" for x y
    using that by (induction rule: rtrancl_induct) (use start closed in auto)
  then show "(adj_rel adj)\<^sup>* `` set roots \<subseteq> set (reach_queue adj roots roots)" by auto
qed

text \<open>The edges between database actions and the trigger roots, as the first loop reads them.\<close>

definition udf_edge :: "(string \<Rightarrow> string option) \<Rightarrow> db_action list \<Rightarrow> upstream_edge \<Rightarrow> string option" where
  "udf_edge uuid acts e =
     (if source_id e = [] \<or> is_trigger_edge e then None
      else if source_type e \<noteq> None \<and> source_type e \<noteq> Some ''udf'' then None
      else case uuid (source_id e) of
             None \<Rightarrow> None
           | Some src \<Rightarrow> if src \<in> db_id ` set acts then Some src else None)"

definition trigger_roots :: "db_action list \<Rightarrow> string set" where
  "trigger_roots acts =
     {db_id a | a e. a \<in> set acts \<and> e \<in> set (upstream_edges a) \<and> source_id e \<noteq> [] \<and> is_trigger_edge e}"

definition flow_rel :: "(string \<Rightarrow> string option) \<Rightarrow> db_action list \<Rightarrow> (string \<times> string) set" where
  "flow_rel uuid acts =
     {(src, db_id a) | src a e. a \<in> set acts \<and> e \<in> set (upstream_edges a) \<and> udf_edge uuid acts e = Some src}"

lemma fold_dict_set_dom:
  "(dict_get (fold (\<lambda>a d. dict_set (f a) a d) xs d) k \<noteq> None) \<longleftrightarrow> dict_get d k \<noteq> None \<or> k \<in> f ` set xs"
  by (induction xs arbitrary: d) auto

lemma id2action_dom: "(dict_get (id2action acts) k \<noteq> None) \<longleftrightarrow> k \<in> db_id ` set acts"
  using fold_dict_set_dom [of db_id acts "[]" k] by (simp add: id2action_def)

lemma scan_edge_spec:
  assumes "scan_edge uuid (id2action acts) a e (roots, adj) = (roots', adj')"
  shows "set roots' = set roots \<union> (if source_id e \<noteq> [] \<and> is_trigger_edge e then {db_id a} else {})"
    and "adj_rel adj' = adj_rel adj \<union> {(src, db_id a) | src. udf_edge uuid acts e = Some src}"
  using assms id2action_dom [of acts]
  by (auto simp: scan_edge_def udf_edge_def adj_rel_def split: if_splits option.splits)

lemma scan_edges_spec:
  assumes "scan_edges uuid acts = (roots, adj)"
  shows "set roots = trigger_roots acts" and "adj_rel adj = flow_rel uuid acts"
proof -
  let ?f = "scan_edge uuid (id2action acts)"
  have inner: "set roots' = set roots \<union> {db_id a | e. e \<in> set es \<and> source_id e \<noteq> [] \<and> is_trigger_edge e} \<and>
      adj_rel adj' = adj_rel adj \<union> {(src, db_id a) | src e. e \<in> set es \<and> udf_edge uuid acts e = Some src}"
    if "fold (?f a) es (roots, adj) = (roots', adj')" for a es roots adj roots' adj'
    using that
  proof (induction es arbitrary: roots adj)
    case (Cons e es)
    obtain r1 a1 where e: "?f a e (roots, adj) = (r1, a1)" by fastforce
    with Cons.prems have "fold (?f a) es (r1, a1) = (roots', adj')" by simp
    from Cons.IH [OF this] scan_edge_spec [OF e] show ?case by (auto split: if_splits)
  qed simp
  have outer: "set roots' = set roots \<union> {db_id a | a e. a \<in> set as \<and> e \<in> set (upstream_edges a) \<and>
         source_id e \<noteq> [] \<and> is_trigger_edge e} \<and>
      adj_rel adj' = adj_rel adj \<union> {(src, db_id a) | src a e. a \<in> set as \<and> e \<in> set (upstream_edges a) \<and>
         udf_edge uuid acts e = Some src}"
    if "fold (\<lambda>a. fold (?f a) (upstream_edges a)) as (roots, adj) = (roots', adj')" for as roots adj roots' adj'
    using that
  proof (induction as arbitrary: roots adj)
    case (Cons a as)
    obtain r1 a1 where e: "fold (?f a) (upstream_edges a) (roots, adj) = (r1, a1)" by fastforce
    with Cons.prems have "fold (\<lambda>a. fold (?f a) (upstream_edges a)) as (r1, a1) = (roots', adj')" by simp
    from Cons.IH [OF this] inner [OF e] show ?case by auto
  qed simp
  have "adj_rel ([] :: (string, string list) dict) = {}" by (simp add: adj_rel_def get_default_def)
  with outer [OF assms [unfolded scan_edges_def]]
  show "set roots = trigger_roots acts" and "adj_rel adj = flow_rel uuid acts"
    by (simp_all add: trigger_roots_def flow_rel_def)
qed

text \<open>Which actions of a stored workflow run. With at least one trigger edge, the selected
  actions are exactly those that a path of action edges links to a trigger-connected action;
  without any trigger edge all actions are selected.\<close>

theorem reachable_actions_exact:
  "set (get_reachable_action_ids uuid acts) =
     (if trigger_roots acts = {} then db_id ` set acts
      else (flow_rel uuid acts)\<^sup>* `` trigger_roots acts)"
proof -
  obtain roots adj where s: "scan_edges uuid acts = (roots, adj)" by fastforce
  note spec = scan_edges_spec [OF s]
  show ?thesis
  proof (cases roots)
    case Nil
    have "set (dict_keys (id2action acts)) = db_id ` set acts"
      using id2action_dom [of acts] by (auto simp: dict_get_None_iff)
    with Nil s spec show ?thesis by (auto simp: get_reachable_action_ids_def)
  next
    case (Cons x xs)
    then have "trigger_roots acts \<noteq> {}" using spec by auto
    with Cons s spec reach_queue_eq [of adj roots] show ?thesis
      by (simp add: get_reachable_action_ids_def)
  qed
qed

section \<open>Built statements are well formed\<close>

lemma build_statement_fields:
  "build_statement load deps a = Inr stmt \<Longrightarrow>
     ref stmt = db_ref a \<and> depends_on stmt = deps \<and> slug_ok (db_ref a)"
  by (auto simp: build_statement_def Let_def validate_interaction_def split: if_splits pyval.splits)

lemma build_actions_list:
  assumes "build_action_statements_from_actions uuid load acts = Inr stmts"
  shows "list_all2 (\<lambda>a stmt. build_statement load
        (sort (List.map_filter (edge_dependency uuid (id2action acts) (get_reachable_action_ids uuid acts))
           (upstream_edges a))) a = Inr stmt)
     (filter (\<lambda>a. db_id a \<in> set (get_reachable_action_ids uuid acts)) acts) stmts"
  using sfold_collect [OF assms [unfolded build_action_statements_from_actions_def Let_def]] by simp

text \<open>C37: the statements built from the database pass the structural checks. If the rows have
  distinct identifiers and distinct references, then the built statements have unique references
  and each dependency names a built statement, even when rows were dropped as unreachable.\<close>

theorem built_statements_wf:
  assumes ids: "distinct (map db_id acts)" and refs: "distinct (map db_ref acts)"
    and build: "build_action_statements_from_actions uuid load acts = Inr stmts"
  shows "wf_actions stmts"
proof -
  let ?R = "get_reachable_action_ids uuid acts"
  let ?as = "filter (\<lambda>a. db_id a \<in> set ?R) acts"
  let ?deps = "\<lambda>a. sort (List.map_filter (edge_dependency uuid (id2action acts) ?R) (upstream_edges a))"
  from build_actions_list [OF build] have all: "list_all2 (\<lambda>a s. build_statement load (?deps a) a = Inr s) ?as stmts" .
  then have refs_eq: "map ref stmts = map db_ref ?as"
    by (induction rule: list_all2_induct) (auto dest: build_statement_fields)
  have "dep_ok stmts d" if s: "s \<in> set stmts" and d: "d \<in> set (depends_on s)" for s d
  proof -
    from list_all2_in_right [OF all s] obtain a where
      "a \<in> set ?as" "build_statement load (?deps a) a = Inr s" ..
    with d obtain e where "edge_dependency uuid (id2action acts) ?R e = Some d"
      by (auto dest!: build_statement_fields simp: map_filter_def)
    then obtain src b where src: "dict_get (id2action acts) src = Some b" "src \<in> set ?R"
      and d: "d = db_ref b \<or> d = dep_from_edge_components (db_ref b) ERROR"
      by (auto simp: edge_dependency_def split: if_splits option.splits)
    from src(1) have b: "b \<in> set acts" "db_id b = src"
      using fold_dict_set_get [of db_id "\<lambda>a. a" acts "[]" src]
      by (auto simp: id2action_def split: list.splits dest: filter_eq_Cons_mem)
    with src have "b \<in> set ?as" by simp
    from list_all2_in_left [OF all this] obtain s' where
      s': "s' \<in> set stmts" "build_statement load (?deps b) b = Inr s'" ..
    from build_statement_fields [OF s'(2)] have "CHR ''.'' \<notin> set (db_ref b)" "db_ref b \<in> ref ` set stmts"
      using slug_no_sep(1) s'(1) by (auto intro: rev_image_eqI)
    with d show ?thesis
      by (auto simp: dep_ok_def edge_components_from_dep_plain edge_components_roundtrip)
  qed
  moreover have "distinct (map ref stmts)" unfolding refs_eq by (rule distinct_map_filter [OF refs])
  ultimately show ?thesis by (simp add: wf_actions_def list_all_iff)
qed

definition sample_control_flow :: control_flow where
  "sample_control_flow =
     \<lparr>cf_run_if = None, cf_for_each = VNone, cf_join_strategy = JoinAll,
      cf_retry_policy = \<lparr>max_attempts = 1, retry_timeout = 300, retry_until = None\<rparr>,
      cf_start_delay = 0, cf_wait_until = None, cf_environment = None, cf_mask_output = False\<rparr>"

definition sample_row :: "string \<Rightarrow> upstream_edge list \<Rightarrow> db_action" where
  "sample_row r es =
     \<lparr>db_id = r, db_ref = r, db_type = ''core.http'', db_inputs = [], db_control_flow = sample_control_flow,
      db_is_interactive = False, db_interaction = VNone, upstream_edges = es\<rparr>"

definition sample_rows :: "db_action list" where
  "sample_rows =
     [sample_row ''a'' [\<lparr>source_id = ''trigger-1'', source_type = None, source_handle = None\<rparr>],
      sample_row ''b'' [\<lparr>source_id = ''a'', source_type = Some ''udf'', source_handle = Some ''error''\<rparr>],
      sample_row ''c'' []]"

theorem built_statements_wf_witness:
  "\<exists>stmts. build_action_statements_from_actions Some (\<lambda>_. VNone) sample_rows = Inr stmts \<and>
     map ref stmts = [''a'', ''b''] \<and> wf_actions stmts"
proof -
  have "(case build_action_statements_from_actions Some (\<lambda>_. VNone) sample_rows of
      Inr s \<Rightarrow> map ref s = [''a'', ''b''] | Inl _ \<Rightarrow> False)" by code_simp
  then obtain stmts where b: "build_action_statements_from_actions Some (\<lambda>_. VNone) sample_rows = Inr stmts"
    and "map ref stmts = [''a'', ''b'']" by (auto split: sum.splits)
  moreover have "wf_actions stmts" by (rule built_statements_wf [OF _ _ b]) code_simp+
  ultimately show ?thesis by (intro exI [of _ stmts] conjI)
qed

end
