(* ===== verification/Coroutine.thy ===== *)
theory Coroutine
  imports Prelude
begin

text \<open>
  Asyncio coroutines over a shared state. A coroutine runs atomically until it returns, raises
  or awaits; at an await it hands a request to the event loop and is resumed later with a
  response, in a state other coroutines may have changed meanwhile. The state is threaded
  explicitly, and a raise keeps the state changes made before it, as in Python.
\<close>

named_theorems co_simps \<open>evaluation of coroutines\<close>
named_theorems keeps_intros \<open>introduction rules for invariants of coroutines\<close>

section \<open>Coroutines\<close>

datatype (dead 's, dead 'q, dead 'r, dead 'e, 'a) co =
    Ret 'a
  | Raise 'e
  | Await 'q "'r \<Rightarrow> 's \<Rightarrow> 's \<times> ('s, 'q, 'r, 'e, 'a) co"

type_synonym ('s, 'q, 'r, 'e, 'a) comp = "'s \<Rightarrow> 's \<times> ('s, 'q, 'r, 'e, 'a) co"

definition return :: "'a \<Rightarrow> ('s, 'q, 'r, 'e, 'a) comp" where
  "return a = (\<lambda>s. (s, Ret a))"

definition raise :: "'e \<Rightarrow> ('s, 'q, 'r, 'e, 'a) comp" where
  "raise e = (\<lambda>s. (s, Raise e))"

definition gets :: "('s \<Rightarrow> 'a) \<Rightarrow> ('s, 'q, 'r, 'e, 'a) comp" where
  "gets f = (\<lambda>s. (s, Ret (f s)))"

definition modify :: "('s \<Rightarrow> 's) \<Rightarrow> ('s, 'q, 'r, 'e, unit) comp" where
  "modify f = (\<lambda>s. (f s, Ret ()))"

definition await :: "'q \<Rightarrow> ('s, 'q, 'r, 'e, 'r) comp" where
  "await q = (\<lambda>s. (s, Await q (\<lambda>r s'. (s', Ret r))))"

primrec bindC ::
  "('s, 'q, 'r, 'e, 'a) co \<Rightarrow> ('a \<Rightarrow> ('s, 'q, 'r, 'e, 'b) comp) \<Rightarrow> ('s, 'q, 'r, 'e, 'b) comp"
where
  "bindC (Ret a) = (\<lambda>f s. f a s)"
| "bindC (Raise e) = (\<lambda>f s. (s, Raise e))"
| "bindC (Await q k) =
     (\<lambda>f s. (s, Await q (\<lambda>r s'. case map_prod id bindC (k r s') of (s'', g) \<Rightarrow> g f s'')))"

definition bind ::
  "('s, 'q, 'r, 'e, 'a) comp \<Rightarrow> ('a \<Rightarrow> ('s, 'q, 'r, 'e, 'b) comp) \<Rightarrow> ('s, 'q, 'r, 'e, 'b) comp"
where
  "bind m f = (\<lambda>s. case m s of (s', c) \<Rightarrow> bindC c f s')"

text \<open>\<open>try: m except e: h e\<close>.\<close>

primrec catchC ::
  "('s, 'q, 'r, 'e, 'a) co \<Rightarrow> ('e \<Rightarrow> ('s, 'q, 'r, 'e, 'a) comp) \<Rightarrow> ('s, 'q, 'r, 'e, 'a) comp"
where
  "catchC (Ret a) = (\<lambda>h s. (s, Ret a))"
| "catchC (Raise e) = (\<lambda>h s. h e s)"
| "catchC (Await q k) =
     (\<lambda>h s. (s, Await q (\<lambda>r s'. case map_prod id catchC (k r s') of (s'', g) \<Rightarrow> g h s'')))"

definition catch ::
  "('s, 'q, 'r, 'e, 'a) comp \<Rightarrow> ('e \<Rightarrow> ('s, 'q, 'r, 'e, 'a) comp) \<Rightarrow> ('s, 'q, 'r, 'e, 'a) comp"
where
  "catch m h = (\<lambda>s. case m s of (s', c) \<Rightarrow> catchC c h s')"

text \<open>\<open>try: m finally: fin\<close>, with a clean-up that neither awaits nor raises.\<close>

primrec finallyC ::
  "('s, 'q, 'r, 'e, 'a) co \<Rightarrow> ('s \<Rightarrow> 's) \<Rightarrow> ('s, 'q, 'r, 'e, 'a) comp"
where
  "finallyC (Ret a) = (\<lambda>fin s. (fin s, Ret a))"
| "finallyC (Raise e) = (\<lambda>fin s. (fin s, Raise e))"
| "finallyC (Await q k) =
     (\<lambda>fin s. (s, Await q (\<lambda>r s'. case map_prod id finallyC (k r s') of (s'', g) \<Rightarrow> g fin s'')))"

definition finalize ::
  "('s, 'q, 'r, 'e, 'a) comp \<Rightarrow> ('s \<Rightarrow> 's) \<Rightarrow> ('s, 'q, 'r, 'e, 'a) comp"
where
  "finalize m fin = (\<lambda>s. case m s of (s', c) \<Rightarrow> finallyC c fin s')"

text \<open>A \<open>for\<close> loop, and sequencing that drops the value.\<close>

definition andthen ::
  "('s, 'q, 'r, 'e, 'a) comp \<Rightarrow> ('s, 'q, 'r, 'e, 'b) comp \<Rightarrow> ('s, 'q, 'r, 'e, 'b) comp"
where
  "andthen m n = bind m (\<lambda>_. n)"

fun for_each :: "'x list \<Rightarrow> ('x \<Rightarrow> ('s, 'q, 'r, 'e, unit) comp) \<Rightarrow> ('s, 'q, 'r, 'e, unit) comp" where
  "for_each [] f = return ()"
| "for_each (x # xs) f = andthen (f x) (for_each xs f)"

definition lift_sum :: "'e + 'a \<Rightarrow> ('s, 'q, 'r, 'e, 'a) comp" where
  "lift_sum x = (case x of Inl e \<Rightarrow> raise e | Inr a \<Rightarrow> return a)"

text \<open>\<open>d[k]\<close>: the value, or the given exception (\<open>KeyError\<close>).\<close>

definition get_or_raise :: "'e \<Rightarrow> 'a option \<Rightarrow> ('s, 'q, 'r, 'e, 'a) comp" where
  "get_or_raise e x = (case x of None \<Rightarrow> raise e | Some a \<Rightarrow> return a)"

section \<open>Evaluation\<close>

lemma run_simps [simp, co_simps]:
  "return a s = (s, Ret a)"
  "raise e s = (s, Raise e)"
  "gets g s = (s, Ret (g s))"
  "modify h s = (h s, Ret ())"
  by (simp_all add: return_def raise_def gets_def modify_def)

lemma bindC_simps [simp, co_simps]:
  "bindC (Ret a) f s = f a s"
  "bindC (Raise e) f s = (s, Raise e)"
  "bindC (Await q k) f s = (s, Await q (\<lambda>r s'. case k r s' of (s'', c) \<Rightarrow> bindC c f s''))"
  by (simp_all add: map_prod_def split_def)

lemma catchC_simps [simp, co_simps]:
  "catchC (Ret a) h s = (s, Ret a)"
  "catchC (Raise e) h s = h e s"
  "catchC (Await q k) h s = (s, Await q (\<lambda>r s'. case k r s' of (s'', c) \<Rightarrow> catchC c h s''))"
  by (simp_all add: map_prod_def split_def)

lemma finallyC_simps [simp, co_simps]:
  "finallyC (Ret a) fin s = (fin s, Ret a)"
  "finallyC (Raise e) fin s = (fin s, Raise e)"
  "finallyC (Await q k) fin s =
     (s, Await q (\<lambda>r s'. case k r s' of (s'', c) \<Rightarrow> finallyC c fin s''))"
  by (simp_all add: map_prod_def split_def)

declare bindC.simps [simp del] catchC.simps [simp del] finallyC.simps [simp del]

lemma await_apply [simp, co_simps]: "await q s = (s, Await q (\<lambda>r s'. (s', Ret r)))"
  by (simp add: await_def)

lemma bind_apply [co_simps]: "bind m f s = (case m s of (s', c) \<Rightarrow> bindC c f s')"
  by (simp add: bind_def)

lemma andthen_apply [co_simps]: "andthen m n s = (case m s of (s', c) \<Rightarrow> bindC c (\<lambda>_. n) s')"
  by (simp add: andthen_def bind_def)

lemma catch_apply [co_simps]: "catch m h s = (case m s of (s', c) \<Rightarrow> catchC c h s')"
  by (simp add: catch_def)

lemma finalize_apply [co_simps]: "finalize m fin s = (case m s of (s', c) \<Rightarrow> finallyC c fin s')"
  by (simp add: finalize_def)

lemma get_or_raise_simps [simp, co_simps]:
  "get_or_raise e None = raise e"
  "get_or_raise e (Some a) = return a"
  by (simp_all add: get_or_raise_def)

lemma lift_sum_simps [simp, co_simps]:
  "lift_sum (Inl e) = raise e"
  "lift_sum (Inr a) = return a"
  by (simp_all add: lift_sum_def)

text \<open>The monad laws.\<close>

lemma co_induct [case_names Ret Raise Await, induct type: co]:
  assumes "\<And>a. P (Ret a)" and "\<And>e. P (Raise e)"
    and step: "\<And>q k. (\<And>r s. P (snd (k r s))) \<Longrightarrow> P (Await q k)"
  shows "P c"
proof (induction c rule: co.induct)
  case (Await q k)
  have "P (snd (k r s))" for r s
    by (rule Await.IH [of "k r" "k r s"]) (auto simp: prod_set_defs)
  then show ?case by (rule step)
qed (use assms in auto)

lemma bindC_Ret: "bindC c return s = (s, c)"
proof (induction c arbitrary: s)
  case (Await q k)
  have "(case k r t of (t', c) \<Rightarrow> bindC c return t') = k r t" for r t
    using Await.IH [of r t] by (cases "k r t") (simp del: run_simps)
  then show ?case by (simp del: run_simps)
qed simp_all

lemma bind_return [simp]: "bind m return = m"
  by (rule ext) (simp add: bind_def bindC_Ret split: prod.splits)

lemma return_bind [simp]: "bind (return a) f = f a"
  by (rule ext) (simp add: bind_def)

lemma raise_bind [simp]: "bind (raise e) f = raise e"
  by (rule ext) (simp add: bind_def)

lemma bindC_assoc:
  "(case bindC c f s of (s', d) \<Rightarrow> bindC d g s') = bindC c (\<lambda>a. bind (f a) g) s"
proof (induction c arbitrary: s)
  case (Ret a)
  then show ?case by (simp add: bind_def)
next
  case (Await q k)
  have "(case (case k r t of (t', c) \<Rightarrow> bindC c f t') of (t', d) \<Rightarrow> bindC d g t') =
        (case k r t of (t', c) \<Rightarrow> bindC c (\<lambda>a. bind (f a) g) t')" for r t
    using Await.IH [of r t] by (cases "k r t") simp
  then show ?case by simp
qed simp

lemma bind_assoc: "bind (bind m f) g = bind m (\<lambda>a. bind (f a) g)"
proof (rule ext)
  fix s
  show "bind (bind m f) g s = bind m (\<lambda>a. bind (f a) g) s"
    using bindC_assoc by (cases "m s") (simp add: bind_def)
qed

section \<open>Guarantees between awaits\<close>

text \<open>
  The rule format for interleaved coroutines. A segment starts in a state satisfying the
  invariant \<open>J\<close> with a response allowed by the contract \<open>R\<close> of its request; it ends at an await
  (having done a change allowed by \<open>F\<close>), with a value (\<open>Q\<close>) or with an exception (\<open>E\<close>), all
  three relating the segment's first state to its last.
\<close>

inductive seg ::
  "('s \<Rightarrow> bool) \<Rightarrow> ('q \<Rightarrow> 'r \<Rightarrow> bool) \<Rightarrow> ('s \<Rightarrow> 's \<Rightarrow> bool) \<Rightarrow> ('s \<Rightarrow> 's \<Rightarrow> 'a \<Rightarrow> bool) \<Rightarrow>
   ('s \<Rightarrow> 's \<Rightarrow> 'e \<Rightarrow> bool) \<Rightarrow> 's \<Rightarrow> 's \<times> ('s, 'q, 'r, 'e, 'a) co \<Rightarrow> bool"
  for J R F Q E
where
  seg_Ret: "Q s0 s a \<Longrightarrow> seg J R F Q E s0 (s, Ret a)"
| seg_Raise: "E s0 s e \<Longrightarrow> seg J R F Q E s0 (s, Raise e)"
| seg_Await: "F s0 s \<Longrightarrow> (\<And>r s'. R q r \<Longrightarrow> J s' \<Longrightarrow> seg J R F Q E s' (k r s')) \<Longrightarrow>
     seg J R F Q E s0 (s, Await q k)"

inductive_simps seg_Ret_iff [simp]: "seg J R F Q E s0 (s, Ret a)"
inductive_simps seg_Raise_iff [simp]: "seg J R F Q E s0 (s, Raise e)"
inductive_simps seg_Await_iff: "seg J R F Q E s0 (s, Await q k)"

lemma seg_await [keeps_intros]:
  "F s0 s \<Longrightarrow> (\<And>r s'. R q r \<Longrightarrow> J s' \<Longrightarrow> Q s' s' r) \<Longrightarrow> seg J R F Q E s0 (await q s)"
  by (auto simp: seg_Await_iff)

lemma seg_bindC:
  assumes "seg J R F Q1 E s0 (s, c)"
    and "\<And>s0 s a. Q1 s0 s a \<Longrightarrow> seg J R F Q E s0 (f a s)"
  shows "seg J R F Q E s0 (bindC c f s)"
  using assms(1)
proof (induction c arbitrary: s0 s)
  case (Await q k)
  from Await.prems have F: "F s0 s" and k: "\<And>r s'. R q r \<Longrightarrow> J s' \<Longrightarrow> seg J R F Q1 E s' (k r s')"
    by (auto simp: seg_Await_iff)
  have "seg J R F Q E t (case k r t of (t', c) \<Rightarrow> bindC c f t')" if "R q r" "J t" for r t
    using Await.IH k [OF that] by (cases "k r t") (metis prod.case snd_conv)
  with F show ?case by (simp add: seg_Await_iff)
qed (use assms(2) in auto)

lemma seg_bind [keeps_intros]:
  assumes "seg J R F Q1 E s0 (m s)"
    and "\<And>s0 s a. Q1 s0 s a \<Longrightarrow> seg J R F Q E s0 (f a s)"
  shows "seg J R F Q E s0 (bind m f s)"
  using assms seg_bindC [of J R F Q1 E s0 "fst (m s)" "snd (m s)" Q f]
  by (cases "m s") (simp add: bind_apply)

lemma seg_andthen [keeps_intros]:
  assumes "seg J R F Q1 E s0 (m s)"
    and "\<And>s0 s a. Q1 s0 s a \<Longrightarrow> seg J R F Q E s0 (n s)"
  shows "seg J R F Q E s0 (andthen m n s)"
  using assms unfolding andthen_def by (rule seg_bind)

lemma seg_catchC:
  assumes "seg J R F Q E1 s0 (s, c)"
    and "\<And>s0 s e. E1 s0 s e \<Longrightarrow> seg J R F Q E s0 (h e s)"
  shows "seg J R F Q E s0 (catchC c h s)"
  using assms(1)
proof (induction c arbitrary: s0 s)
  case (Await q k)
  from Await.prems have F: "F s0 s" and k: "\<And>r s'. R q r \<Longrightarrow> J s' \<Longrightarrow> seg J R F Q E1 s' (k r s')"
    by (auto simp: seg_Await_iff)
  have "seg J R F Q E t (case k r t of (t', c) \<Rightarrow> catchC c h t')" if "R q r" "J t" for r t
    using Await.IH k [OF that] by (cases "k r t") (metis prod.case snd_conv)
  with F show ?case by (simp add: seg_Await_iff)
qed (use assms(2) in auto)

lemma seg_catch [keeps_intros]:
  assumes "seg J R F Q E1 s0 (m s)"
    and "\<And>s0 s e. E1 s0 s e \<Longrightarrow> seg J R F Q E s0 (h e s)"
  shows "seg J R F Q E s0 (catch m h s)"
  using assms seg_catchC [of J R F Q E1 s0 "fst (m s)" "snd (m s)" E h]
  by (cases "m s") (simp add: catch_apply)

lemma seg_finallyC:
  assumes "seg J R F Q1 E1 s0 (s, c)"
    and "\<And>s0 s a. Q1 s0 s a \<Longrightarrow> Q s0 (fin s) a"
    and "\<And>s0 s e. E1 s0 s e \<Longrightarrow> E s0 (fin s) e"
  shows "seg J R F Q E s0 (finallyC c fin s)"
  using assms(1)
proof (induction c arbitrary: s0 s)
  case (Await q k)
  from Await.prems have F: "F s0 s" and k: "\<And>r s'. R q r \<Longrightarrow> J s' \<Longrightarrow> seg J R F Q1 E1 s' (k r s')"
    by (auto simp: seg_Await_iff)
  have "seg J R F Q E t (case k r t of (t', c) \<Rightarrow> finallyC c fin t')" if "R q r" "J t" for r t
    using Await.IH k [OF that] by (cases "k r t") (metis prod.case snd_conv)
  with F show ?case by (simp add: seg_Await_iff)
qed (use assms(2,3) in auto)

lemma seg_finalize [keeps_intros]:
  assumes "seg J R F Q1 E1 s0 (m s)"
    and "\<And>s0 s a. Q1 s0 s a \<Longrightarrow> Q s0 (fin s) a"
    and "\<And>s0 s e. E1 s0 s e \<Longrightarrow> E s0 (fin s) e"
  shows "seg J R F Q E s0 (finalize m fin s)"
  using assms seg_finallyC [of J R F Q1 E1 s0 "fst (m s)" "snd (m s)" Q fin E]
  by (cases "m s") (simp add: finalize_apply)

lemma seg_mono:
  assumes "seg J R F Q E s0 (s, c)"
    and "\<And>s0 s a. Q s0 s a \<Longrightarrow> Q' s0 s a" and "\<And>s0 s e. E s0 s e \<Longrightarrow> E' s0 s e"
    and "\<And>s0 s. F s0 s \<Longrightarrow> F' s0 s"
  shows "seg J R F' Q' E' s0 (s, c)"
  using assms(1)
proof (induction c arbitrary: s0 s)
  case (Await q k)
  then show ?case using assms(4) by (auto simp: seg_Await_iff) (metis prod.collapse)
qed (use assms(2,3) in auto)

end
