(* ===== verification/Scheduler.thy ===== *)
theory Scheduler
  imports Dsl_Validation Coroutine "HOL-Library.Product_Lexorder"
begin

text \<open>
  The workflow scheduler (\<open>tracecat/dsl/scheduler.py\<close>): its state, its constructor and every
  handler, each a coroutine over the shared state. Activities, the action executor and timers are
  requests to the event loop; between a request and its response other coroutines may run. Pydantic's
  conversions of numbers and booleans, JSON rendering and the expression parser are parameters.
\<close>

section \<open>Data\<close>

type_synonym task_key = "string \<times> stream_id"

record task =
  t_ref :: string
  t_stream :: stream_id
  t_delay :: rat

text \<open>\<open>Task\<close> compares by reference and stream only; the delay is not part of its identity.\<close>

definition tkey :: "task \<Rightarrow> task_key" where
  "tkey t = (t_ref t, t_stream t)"

definition mk_task :: "string \<Rightarrow> stream_id \<Rightarrow> rat \<Rightarrow> task" where
  "mk_task r sid d = \<lparr>t_ref = r, t_stream = sid, t_delay = d\<rparr>"

record dsl_edge =
  e_src :: string
  e_dst :: string
  e_type :: edge_type
  e_stream :: stream_id

definition mk_edge :: "string \<Rightarrow> stream_id \<Rightarrow> adj_dst \<Rightarrow> dsl_edge" where
  "mk_edge src sid d = \<lparr>e_src = src, e_dst = fst d, e_type = snd d, e_stream = sid\<rparr>"

record loop_region =
  start_ref :: string
  end_ref :: string
  scope_ref :: string
  members :: "string list"

record scatter_args =
  sc_collection :: pyval
  sc_interval :: "rat option"

record gather_args =
  ga_items :: string
  ga_drop_nulls :: bool
  ga_error_strategy :: error_strategy

record loop_end_args =
  le_condition :: string
  le_max_iterations :: int

text \<open>
  What the scheduler is given: the expression parser, pydantic's conversions of a value to \<open>int\<close>,
  \<open>float\<close> and \<open>bool\<close> (nothing when the value does not convert), the JSON rendering of error details,
  the text of a \<open>TypeError\<close> for wrong keyword arguments, the validator for stored objects, and the
  identifiers used in storage keys.
\<close>

record sched_env =
  env_parse :: expr_parser
  env_int :: "pyval \<Rightarrow> int option"
  env_float :: "pyval \<Rightarrow> rat option"
  env_bool :: "pyval \<Rightarrow> bool option"
  env_to_json :: "pyval \<Rightarrow> string option"
  env_kwargs_error :: "pyval \<Rightarrow> string"
  env_validate_stored :: "pyval \<Rightarrow> exn + stored_object"
  env_workspace_id :: "string option"
  env_wf_exec_id :: string

text \<open>
  The argument models of the control-flow actions (\<open>ScatterArgs\<close>, \<open>GatherArgs\<close>, \<open>LoopEndArgs\<close>): their
  fields, defaults and bounds. A missing required field, a value that does not convert and a value out
  of bounds are a validation error; other keys are ignored. \<open>ExpressionStr\<close> passes every string, be it
  a template or not, and nothing else.
\<close>

definition field :: "(pyval \<Rightarrow> 'a option) \<Rightarrow> (string, pyval) dict \<Rightarrow> string \<Rightarrow> 'a option" where
  "field conv d k = (case dict_get d k of None \<Rightarrow> None | Some v \<Rightarrow> conv v)"

definition field_default :: "'a \<Rightarrow> (pyval \<Rightarrow> 'a option) \<Rightarrow> (string, pyval) dict \<Rightarrow> string \<Rightarrow> 'a option" where
  "field_default x conv d k = (case dict_get d k of None \<Rightarrow> Some x | Some v \<Rightarrow> conv v)"

definition expression_str :: "pyval \<Rightarrow> string option" where
  "expression_str v = (case v of VStr e \<Rightarrow> Some e | _ \<Rightarrow> None)"

definition expression_or_list :: "pyval \<Rightarrow> pyval option" where
  "expression_or_list v = (case v of VStr _ \<Rightarrow> Some v | VList _ \<Rightarrow> Some v | _ \<Rightarrow> None)"

definition nullable :: "(pyval \<Rightarrow> 'a option) \<Rightarrow> pyval \<Rightarrow> 'a option option" where
  "nullable conv v = (if v = VNone then Some None else map_option Some (conv v))"

definition bounded_int :: "int \<Rightarrow> int \<Rightarrow> int option \<Rightarrow> int option" where
  "bounded_int ge le x = (case x of None \<Rightarrow> None | Some n \<Rightarrow> if ge \<le> n \<and> n \<le> le then Some n else None)"

definition StreamErrorHandlingStrategy :: "pyval \<Rightarrow> error_strategy option" where
  "StreamErrorHandlingStrategy v =
     (if v = VStr ''partition'' then Some PARTITION
      else if v = VStr ''include'' then Some INCLUDE
      else if v = VStr ''drop'' then Some DROP
      else if v = VStr ''raise'' then Some RAISE
      else None)"

definition ScatterArgs :: "sched_env \<Rightarrow> (string, pyval) dict \<Rightarrow> exn + scatter_args" where
  "ScatterArgs env d =
     (case (field expression_or_list d ''collection'', field_default None (nullable (env_float env)) d ''interval'') of
        (Some c, Some i) \<Rightarrow> Inr \<lparr>sc_collection = c, sc_interval = i\<rparr>
      | _ \<Rightarrow> Inl (ValidationError ''ScatterArgs''))"

definition GatherArgs :: "sched_env \<Rightarrow> (string, pyval) dict \<Rightarrow> exn + gather_args" where
  "GatherArgs env d =
     (case (field expression_str d ''items'', field_default False (env_bool env) d ''drop_nulls'',
            field_default PARTITION StreamErrorHandlingStrategy d ''error_strategy'') of
        (Some i, Some b, Some e) \<Rightarrow> Inr \<lparr>ga_items = i, ga_drop_nulls = b, ga_error_strategy = e\<rparr>
      | _ \<Rightarrow> Inl (ValidationError ''GatherArgs''))"

definition LoopEndArgs :: "sched_env \<Rightarrow> (string, pyval) dict \<Rightarrow> exn + loop_end_args" where
  "LoopEndArgs env d =
     (case (field expression_str d ''condition'',
            field_default 100 (\<lambda>v. bounded_int 1 MAX_DO_WHILE_ITERATIONS (env_int env v)) d ''max_iterations'') of
        (Some e, Some n) \<Rightarrow> Inr \<lparr>le_condition = e, le_max_iterations = n\<rparr>
      | _ \<Rightarrow> Inl (ValidationError ''LoopEndArgs''))"

text \<open>An instance for examples: no expression refers to an action, values are not converted.\<close>

definition sample_env :: sched_env where
  "sample_env =
     \<lparr>env_parse = (\<lambda>_. Some []),
      env_int = (\<lambda>v. case v of VInt n \<Rightarrow> Some n | _ \<Rightarrow> None),
      env_float = (\<lambda>v. case v of VFloat x \<Rightarrow> Some x | VInt n \<Rightarrow> Some (of_int n) | _ \<Rightarrow> None),
      env_bool = (\<lambda>v. case v of VBool b \<Rightarrow> Some b | _ \<Rightarrow> None),
      env_to_json = (\<lambda>_. None), env_kwargs_error = (\<lambda>_. []),
      env_validate_stored = (\<lambda>_. Inl (ValidationError ''StoredObject'')),
      env_workspace_id = Some ''ws'', env_wf_exec_id = ''wf''\<rparr>"

record sched =
  tasks :: "(string, action_stmt) dict"
  adj :: "(string, adj_dst list) dict"
  max_pending_tasks :: int
  action_scopes :: "(string, string) dict"
  scope_hierarchy :: hierarchy
  loop_regions :: "(string, loop_region) dict"
  loop_regions_by_end :: "(string, loop_region) dict"
  root_context :: exec_context
  queue :: "task list"
  indegrees :: "(task_key, int) dict"
  completed_tasks :: "task_key set"
  edges :: "(dsl_edge, edge_marker) dict"
  task_exceptions :: "(string, task_exception_info) dict"
  stream_exceptions :: "(stream_id, task_exception_info) dict"
  loop_indices :: "(string \<times> stream_id, int) dict"
  loop_start_skips :: "(string \<times> stream_id) set"
  streams :: "(stream_id, exec_context) dict"
  stream_hierarchy :: "(stream_id, stream_id option) dict"
  task_streams :: "(task_key, stream_id list) dict"
  open_streams :: "(task_key, int) dict"

text \<open>A string literal in an f-string message.\<close>

definition quoted :: "string \<Rightarrow> string" where
  "quoted s = CHR 0x27 # s @ [CHR 0x27]"

section \<open>Requests to the event loop\<close>

datatype request =
    ReqExecute action_stmt stream_id
  | ReqEvalExpr string exec_context
  | ReqScatterInput action_stmt stream_id pyval exec_context string
  | ReqEvalObject string exec_context string
  | ReqFinalizeGather "stored_object list" string bool error_strategy
  | ReqSleep rat

text \<open>
  The executor writes the action's result into the context of the stream (the \<open>finally\<close> of
  \<open>DSLWorkflow._execute_task\<close>) and then returns or raises.
\<close>

datatype response =
    RespExec "task_result option" "exn option"
  | RespValue pyval
  | RespStored stored_object
  | RespFinal stored_object "action_error_info list"
  | RespDone
  | RespRaise exn

type_synonym 'a sc = "(sched, request, response, exn, 'a) comp"

definition get_collection_size :: "stored_object \<Rightarrow> exn + int" where
  "get_collection_size stored =
     (case stored of
        CollectionObject _ n _ _ _ _ _ \<Rightarrow> Inr n
      | InlineObject (VList xs) _ \<Rightarrow> Inr (int (length xs))
      | _ \<Rightarrow> Inl (TypeError (''Expected CollectionObject or InlineObject with list data, got '' @
               type_name (VStored stored))))"

section \<open>Construction\<close>

definition adj_sort_key :: "adj_dst \<Rightarrow> string \<times> string" where
  "adj_sort_key d = (fst d, edge_value (snd d))"

text \<open>The adjacency sets, then sorted tuples, one per task.\<close>

definition collect_adj :: "action_stmt list \<Rightarrow> exn + (string, adj_dst list) dict" where
  "collect_adj acts =
     sfold (\<lambda>a. sfold (\<lambda>dep tmp. sbind (edge_components_from_dep dep)
         (\<lambda>(src, t). Inr (dict_set src (List.insert (ref a, t) (get_default [] tmp src)) tmp)))
       (depends_on a)) acts []"

definition sorted_adj :: "action_stmt list \<Rightarrow> (string, adj_dst list) dict \<Rightarrow> (string, adj_dst list) dict" where
  "sorted_adj acts tmp =
     map (\<lambda>r. (r, sort_key adj_sort_key (get_default [] tmp r))) (dict_keys (stmts_by_ref acts))"

text \<open>\<open>_build_loop_regions\<close>, phase 1: every loop end and the loop start it closes.\<close>

definition loop_end_step ::
  "(string, action_stmt) dict \<Rightarrow> (string, string) dict \<Rightarrow> action_stmt \<Rightarrow> (string, string) dict \<Rightarrow>
   exn + (string, string) dict" where
  "loop_end_step stmts scopes a ends =
     (if action a \<noteq> LOOP_END then Inr ends
      else if depends_on a = [] then
        Inl (RuntimeError (''Loop end action '' @ quoted (ref a) @ '' must depend on loop body actions''))
      else
        sbind (sfold (\<lambda>dep acc. sbind (edge_components_from_dep dep) (\<lambda>(src, _).
            case dict_get scopes src of None \<Rightarrow> Inl (KeyError src) | Some sc \<Rightarrow> Inr (List.insert sc acc)))
          (depends_on a) []) (\<lambda>dep_scopes.
          case dep_scopes of
            [loop_scope] \<Rightarrow>
              (case dict_get stmts loop_scope of
                 None \<Rightarrow> Inl (RuntimeError (''Loop end action '' @ quoted (ref a) @ '' does not match a loop start action''))
               | Some start \<Rightarrow>
                   if action start \<noteq> LOOP_START then
                     Inl (RuntimeError (''Loop end action '' @ quoted (ref a) @ '' does not match a loop start action''))
                   else if dict_get ends loop_scope \<noteq> None then
                     Inl (RuntimeError (''Loop start action '' @ quoted loop_scope @ '' has multiple loop end actions''))
                   else Inr (dict_set loop_scope (ref a) ends))
          | _ \<Rightarrow> Inl (RuntimeError (''Loop end action '' @ quoted (ref a) @ '' must close exactly one loop scope''))))"

text \<open>Phase 2: one walk up the scope chain of every action; each loop scope met claims it.\<close>

partial_function (option) claim_walk ::
  "hierarchy \<Rightarrow> string \<Rightarrow> string \<Rightarrow> (string, string list) dict \<Rightarrow> (string, string list) dict option" where
  "claim_walk h r cur ms =
     (let ms' = (case dict_get ms cur of None \<Rightarrow> ms | Some xs \<Rightarrow> dict_set cur (List.insert r xs) ms)
      in case get_opt h cur of None \<Rightarrow> Some ms' | Some p \<Rightarrow> claim_walk h r p ms')"

definition build_loop_regions ::
  "action_stmt list \<Rightarrow> (string, action_stmt) dict \<Rightarrow> (string, string) dict \<Rightarrow> hierarchy \<Rightarrow>
   exn + (string, loop_region) dict" where
  "build_loop_regions acts stmts scopes h =
     sbind (sfold (loop_end_step stmts scopes) acts []) (\<lambda>ends.
     sbind (sfold (\<lambda>(r, sc) ms. case claim_walk h r sc ms of None \<Rightarrow> Inl NonTermination | Some ms' \<Rightarrow> Inr ms')
              scopes (map (\<lambda>(sc, _). (sc, [])) ends)) (\<lambda>ms.
       Inr (map (\<lambda>(sc, e). (sc, \<lparr>start_ref = sc, end_ref = e, scope_ref = sc,
                                members = List.insert e (get_default [] ms sc)\<rparr>)) ends)))"

definition dsl_exn :: "dsl_error + 'a \<Rightarrow> exn + 'a" where
  "dsl_exn x =
     (case x of
        Inr v \<Rightarrow> Inr v
      | Inl (PyExn e) \<Rightarrow> Inl e
      | Inl _ \<Rightarrow> Inl (PyError ''TracecatDSLError'' []))"

definition init_task_indegrees :: "action_stmt list \<Rightarrow> (task_key, int) dict" where
  "init_task_indegrees acts =
     fold (\<lambda>a d. dict_set (ref a, root_stream) (int (length (depends_on a))) d) acts []"

definition new_scheduler :: "action_stmt list \<Rightarrow> int \<Rightarrow> exec_context \<Rightarrow> exn + sched" where
  "new_scheduler acts max_pending context =
     (if max_pending < 1 then Inl (ValueError ''max_pending_tasks must be greater than 0'')
      else
        sbind (collect_adj acts) (\<lambda>tmp.
        sbind (to_adjacency acts) (\<lambda>control_adj.
        sbind (dsl_exn (assign_action_scopes acts control_adj)) (\<lambda>(scopes, h, _).
        sbind (build_loop_regions acts (stmts_by_ref acts) scopes h) (\<lambda>regions.
          Inr \<lparr>tasks = stmts_by_ref acts, adj = sorted_adj acts tmp, max_pending_tasks = max_pending,
               action_scopes = scopes, scope_hierarchy = h, loop_regions = regions,
               loop_regions_by_end = fold (\<lambda>(_, rg) d. dict_set (end_ref rg) rg d) regions [],
               root_context = context, queue = [], indegrees = init_task_indegrees acts,
               completed_tasks = {}, edges = [], task_exceptions = [], stream_exceptions = [],
               loop_indices = [], loop_start_skips = {}, streams = [(root_stream, context)],
               stream_hierarchy = [(root_stream, None)], task_streams = [], open_streams = []\<rparr>)))))"

section \<open>Edges and readiness\<close>

definition mark_edge :: "dsl_edge \<Rightarrow> edge_marker \<Rightarrow> sched \<Rightarrow> sched" where
  "mark_edge e m s = s\<lparr>edges := dict_set e m (edges s)\<rparr>"

definition get_edge_by_refs :: "string \<Rightarrow> string \<Rightarrow> stream_id \<Rightarrow> exn + dsl_edge" where
  "get_edge_by_refs src_ref_path dst_ref sid =
     sbind (edge_components_from_dep src_ref_path) (\<lambda>(src, t). Inr (mk_edge src sid (dst_ref, t)))"

text \<open>The edge table is a \<open>defaultdict\<close>: an edge without an entry is \<open>PENDING\<close>.\<close>

definition edge_marker_of :: "sched \<Rightarrow> dsl_edge \<Rightarrow> edge_marker" where
  "edge_marker_of s e = get_default PENDING (edges s) e"

definition edge_has_marker :: "sched \<Rightarrow> string \<Rightarrow> string \<Rightarrow> edge_marker \<Rightarrow> stream_id \<Rightarrow> exn + bool" where
  "edge_has_marker s src_ref_path dst_ref m sid =
     sbind (get_edge_by_refs src_ref_path dst_ref sid) (\<lambda>e. Inr (edge_marker_of s e = m))"

fun all_have_marker :: "sched \<Rightarrow> string \<Rightarrow> edge_marker \<Rightarrow> stream_id \<Rightarrow> string list \<Rightarrow> exn + bool" where
  "all_have_marker s dst m sid [] = Inr True"
| "all_have_marker s dst m sid (dep # deps) =
     sbind (edge_has_marker s dep dst m sid) (\<lambda>b. if b then all_have_marker s dst m sid deps else Inr False)"

definition skip_should_propagate :: "sched \<Rightarrow> task \<Rightarrow> action_stmt \<Rightarrow> exn + bool" where
  "skip_should_propagate s t stmt =
     (if depends_on stmt = [] then Inr False
      else all_have_marker s (t_ref t) SKIPPED (t_stream t) (depends_on stmt))"

definition count_marker :: "sched \<Rightarrow> string \<Rightarrow> edge_marker \<Rightarrow> stream_id \<Rightarrow> string list \<Rightarrow> exn + int" where
  "count_marker s dst m sid deps =
     sfold (\<lambda>dep n. sbind (edge_has_marker s dep dst m sid) (\<lambda>b. Inr (if b then n + 1 else n))) deps 0"

definition is_reachable :: "sched \<Rightarrow> task \<Rightarrow> action_stmt \<Rightarrow> exn + bool" where
  "is_reachable s t stmt =
     (case depends_on stmt of
        [] \<Rightarrow> Inr True
      | [dep] \<Rightarrow> edge_has_marker s dep (t_ref t) VISITED (t_stream t)
      | deps \<Rightarrow>
          sbind (count_marker s (t_ref t) VISITED (t_stream t) deps) (\<lambda>n_success_paths.
            case join_strategy stmt of
              JoinAny \<Rightarrow> Inr (0 < n_success_paths)
            | JoinAll \<Rightarrow> Inr (n_success_paths = int (length deps))))"

section \<open>Queueing successors\<close>

text \<open>One successor in \<open>_queue_tasks\<close>; putting on the unbounded queue does not suspend.\<close>

definition queue_next :: "task \<Rightarrow> dsl_edge list \<Rightarrow> adj_dst \<Rightarrow> unit sc" where
  "queue_next t unreachable d =
     (let edge = mk_edge (t_ref t) (t_stream t) d;
          next_task = mk_task (fst d) (t_stream t) (t_delay t)
      in andthen (modify (mark_edge edge (if edge \<in> set unreachable then SKIPPED else VISITED)))
         (bind (gets (\<lambda>s. dict_get (indegrees s) (tkey next_task))) (\<lambda>known.
          bind (case known of
                  Some n \<Rightarrow> return n
                | None \<Rightarrow> bind (gets (\<lambda>s. dict_get (tasks s) (fst d))) (\<lambda>stmt.
                    bind (get_or_raise (KeyError (fst d)) stmt) (\<lambda>stmt. return (int (length (depends_on stmt))))))
            (\<lambda>n. andthen (modify (\<lambda>s. s\<lparr>indegrees := dict_set (tkey next_task) (n - 1) (indegrees s)\<rparr>))
               (if n - 1 = 0 then modify (\<lambda>s. s\<lparr>queue := queue s @ [next_task]\<rparr>) else return ())))))"

definition queue_tasks :: "task \<Rightarrow> dsl_edge list \<Rightarrow> unit sc" where
  "queue_tasks t unreachable =
     bind (gets (\<lambda>s. get_default [] (adj s) (t_ref t))) (\<lambda>next_tasks.
       for_each next_tasks (queue_next t unreachable))"

text \<open>\<open>{DSLEdge(...) for dst, edge_type in self.adj[ref] if ...}\<close>.\<close>

definition out_edges :: "string \<Rightarrow> stream_id \<Rightarrow> (edge_type \<Rightarrow> bool) \<Rightarrow> dsl_edge list sc" where
  "out_edges r sid P =
     bind (gets (\<lambda>s. dict_get (adj s) r)) (\<lambda>out.
     bind (get_or_raise (KeyError r) out) (\<lambda>out.
       return (map (mk_edge r sid) (filter (P \<circ> snd) out))))"

section \<open>Error, success and skip paths\<close>

text \<open>The error record of a failed task without an error path.\<close>

definition json_message :: "sched_env \<Rightarrow> string \<Rightarrow> string \<Rightarrow> pyval \<Rightarrow> string" where
  "json_message env message prefix details =
     message @ (case env_to_json env details of
                  Some j \<Rightarrow> prefix @ j
                | None \<Rightarrow> ''Couldn't parse error details as json.'')"

definition nl :: string where "nl = [CHR 0x0A]"

definition error_details :: "sched_env \<Rightarrow> string \<Rightarrow> stream_id \<Rightarrow> exn \<Rightarrow> action_error_info" where
  "error_details env r sid exc =
     (let info = (\<lambda>message. error_info r message (exn_class exc) sid)
      in case exc of
           ApplicationError _ _ (details # _) \<Rightarrow>
             (case details of
                VDict d \<Rightarrow>
                  if list_all (\<lambda>k. k \<in> set (dict_keys d)) [''ref'', ''message'', ''type''] then
                    (case error_info_from_dict d of
                       Some e \<Rightarrow> e
                     | None \<Rightarrow> info (json_message env
                         (''Failed to parse regular application error details: '' @
                            env_kwargs_error env details @ ''.'') nl details))
                  else
                    (case (case d of (_, VDict val) # _ \<Rightarrow> error_info_from_dict val | _ \<Rightarrow> None) of
                       Some e \<Rightarrow> e
                     | None \<Rightarrow> info (json_message env ''Child workflow error details are not a dictionary.''
                         (nl @ ''Got: '') details))
              | _ \<Rightarrow> info (json_message env ''Application error details are not a dictionary.''
                         (nl @ ''Got: '') details))
         | _ \<Rightarrow> info (exn_text exc))"

definition handle_error_path :: "sched_env \<Rightarrow> task \<Rightarrow> exn \<Rightarrow> bool \<Rightarrow> unit sc" where
  "handle_error_path env t exc fail_workflow =
     bind (out_edges (t_ref t) (t_stream t) (\<lambda>e. e \<noteq> ERROR)) (\<lambda>non_err_edges.
     bind (out_edges (t_ref t) (t_stream t) (\<lambda>_. True)) (\<lambda>all_edges.
       if length non_err_edges < length all_edges \<and> \<not> fail_workflow
       then queue_tasks t non_err_edges
       else
         let details = error_details env (t_ref t) (t_stream t) exc;
             info = \<lparr>exc_exception = exc, exc_details = details\<rparr>
         in if t_stream t = root_stream \<or> fail_workflow
            then modify (\<lambda>s. s\<lparr>task_exceptions := dict_set (t_ref t) info (task_exceptions s)\<rparr>)
            else andthen (modify (\<lambda>s. s\<lparr>stream_exceptions := dict_set (t_stream t) info (stream_exceptions s)\<rparr>))
                   (queue_tasks t all_edges)))"

definition handle_success_path :: "task \<Rightarrow> unit sc" where
  "handle_success_path t =
     bind (out_edges (t_ref t) (t_stream t) (\<lambda>e. e \<noteq> SUCCESS)) (\<lambda>non_ok_edges. queue_tasks t non_ok_edges)"

text \<open>Marking every outgoing edge as skipped.\<close>

definition queue_all_skipped :: "task \<Rightarrow> unit sc" where
  "queue_all_skipped t =
     bind (out_edges (t_ref t) (t_stream t) (\<lambda>_. True)) (\<lambda>all_edges. queue_tasks t all_edges)"

section \<open>Contexts\<close>

definition get_context :: "stream_id \<Rightarrow> exec_context sc" where
  "get_context sid = bind (gets (\<lambda>s. dict_get (streams s) sid)) (\<lambda>c. get_or_raise (KeyError sid) c)"

definition get_action_context :: "stream_id \<Rightarrow> (string, task_result) dict sc" where
  "get_action_context sid = bind (get_context sid) (\<lambda>c. return (ctx_actions c))"

text \<open>
  A write through the dictionary of a stream's action results; a stream that has been removed in
  the meantime is no longer visible to anyone.
\<close>

definition set_action_result :: "stream_id \<Rightarrow> string \<Rightarrow> task_result \<Rightarrow> sched \<Rightarrow> sched" where
  "set_action_result sid r tr s =
     (case dict_get (streams s) sid of
        None \<Rightarrow> s
      | Some c \<Rightarrow> s\<lparr>streams := dict_set sid (c\<lparr>ctx_actions := dict_set r tr (ctx_actions c)\<rparr>) (streams s)\<rparr>)"

text \<open>\<open>get_stream_aware_action_result\<close>: the nearest enclosing stream that has the result.\<close>

partial_function (option) stream_lookup ::
  "(stream_id, exec_context) dict \<Rightarrow> (stream_id, stream_id option) dict \<Rightarrow> string \<Rightarrow> stream_id \<Rightarrow>
   task_result option option" where
  "stream_lookup ctxs h r cur =
     (case (case dict_get ctxs cur of None \<Rightarrow> None | Some c \<Rightarrow> dict_get (ctx_actions c) r) of
        Some tr \<Rightarrow> Some (Some tr)
      | None \<Rightarrow> (case get_opt h cur of None \<Rightarrow> Some None | Some p \<Rightarrow> stream_lookup ctxs h r p))"

definition get_stream_aware_action_result :: "sched \<Rightarrow> string \<Rightarrow> stream_id \<Rightarrow> exn + task_result option" where
  "get_stream_aware_action_result s r sid =
     (case stream_lookup (streams s) (stream_hierarchy s) r sid of
        None \<Rightarrow> Inl NonTermination
      | Some x \<Rightarrow> Inr x)"

definition build_stream_aware_context :: "sched_env \<Rightarrow> sched \<Rightarrow> action_stmt \<Rightarrow> stream_id \<Rightarrow> exn + exec_context" where
  "build_stream_aware_context env s stmt sid =
     sbind (extract_expressions (env_parse env) (VDict (dump_stmt stmt))) (\<lambda>refs.
     sbind (sfold (\<lambda>r acc. sbind (get_stream_aware_action_result s r sid) (\<lambda>res.
         Inr (case res of None \<Rightarrow> acc | Some tr \<Rightarrow> dict_set r tr acc))) refs []) (\<lambda>resolved.
       Inr ((root_context s)\<lparr>ctx_actions := resolved\<rparr>)))"

definition build_context :: "sched_env \<Rightarrow> action_stmt \<Rightarrow> stream_id \<Rightarrow> exec_context sc" where
  "build_context env stmt sid =
     bind (gets (\<lambda>s. build_stream_aware_context env s stmt sid)) (\<lambda>c. lift_sum c)"

section \<open>Awaiting activities\<close>

definition bad_response :: exn where
  "bad_response = TypeError ''unexpected response''"

text \<open>\<open>except ActivityError\<close>: an \<open>ApplicationError\<close> cause is raised in its place.\<close>

definition unwrap_activity :: "exn \<Rightarrow> exn" where
  "unwrap_activity e =
     (case e of ActivityError _ (Some (ApplicationError c t d)) \<Rightarrow> ApplicationError c t d | _ \<Rightarrow> e)"

definition resolve_expression :: "string \<Rightarrow> exec_context \<Rightarrow> pyval sc" where
  "resolve_expression expression context =
     bind (await (ReqEvalExpr expression context)) (\<lambda>r.
       case r of RespValue v \<Rightarrow> return v | RespRaise e \<Rightarrow> raise (unwrap_activity e) | _ \<Rightarrow> raise bad_response)"

definition await_stored :: "request \<Rightarrow> stored_object sc" where
  "await_stored q =
     bind (await q) (\<lambda>r.
       case r of RespStored v \<Rightarrow> return v | RespRaise e \<Rightarrow> raise e | _ \<Rightarrow> raise bad_response)"

definition await_final :: "request \<Rightarrow> (stored_object \<times> action_error_info list) sc" where
  "await_final q =
     bind (await q) (\<lambda>r.
       case r of RespFinal v errs \<Rightarrow> return (v, errs) | RespRaise e \<Rightarrow> raise e | _ \<Rightarrow> raise bad_response)"

definition async_sleep :: "rat \<Rightarrow> unit sc" where
  "async_sleep d =
     bind (await (ReqSleep d)) (\<lambda>r.
       case r of RespDone \<Rightarrow> return () | RespRaise e \<Rightarrow> raise e | _ \<Rightarrow> raise bad_response)"

definition execute :: "task \<Rightarrow> action_stmt \<Rightarrow> unit sc" where
  "execute t stmt =
     bind (await (ReqExecute stmt (t_stream t))) (\<lambda>r.
       case r of
         RespExec result err \<Rightarrow>
           andthen (case result of
                      None \<Rightarrow> return ()
                    | Some tr \<Rightarrow>
                        andthen (get_context (t_stream t))
                          (modify (set_action_result (t_stream t) (ref stmt) tr)))
             (case err of None \<Rightarrow> return () | Some e \<Rightarrow> raise e)
       | RespRaise e \<Rightarrow> raise e
       | _ \<Rightarrow> raise bad_response)"

text \<open>\<open>except Exception\<close> lets a cancellation pass; \<open>except ApplicationError\<close> catches only that class.\<close>

definition catch_exception :: "'a sc \<Rightarrow> (exn \<Rightarrow> 'a sc) \<Rightarrow> 'a sc" where
  "catch_exception m h = catch m (\<lambda>e. if e = CancelledError then raise e else h e)"

definition is_application_error :: "exn \<Rightarrow> bool" where
  "is_application_error e = (case e of ApplicationError _ _ _ \<Rightarrow> True | _ \<Rightarrow> False)"

definition catch_application_error :: "'a sc \<Rightarrow> (exn \<Rightarrow> 'a sc) \<Rightarrow> 'a sc" where
  "catch_application_error m h = catch m (\<lambda>e. if is_application_error e then h e else raise e)"

section \<open>Loops\<close>

text \<open>
  The streams created below a loop iteration: those of the scatters in the region, closed under
  children. \<open>close_pass\<close> is one pass of the \<open>for\<close> loop, \<open>close_streams\<close> the \<open>while changed\<close> loop.
\<close>

definition close_pass :: "(stream_id, stream_id option) dict \<Rightarrow> stream_id list \<Rightarrow> stream_id list" where
  "close_pass h rem =
     fold (\<lambda>(candidate, parent) rem.
       case parent of
         None \<Rightarrow> rem
       | Some p \<Rightarrow> if p \<in> set rem \<and> candidate \<notin> set rem then rem @ [candidate] else rem) h rem"

lemma close_pass_spec:
  "\<exists>new. close_pass h rem = rem @ new \<and> set new \<subseteq> fst ` set h - set rem \<and> distinct new"
proof (induction h arbitrary: rem)
  case (Cons x h)
  obtain c p where x: "x = (c, p)" by (cases x)
  define rem1 where "rem1 = (case p of None \<Rightarrow> rem
     | Some p \<Rightarrow> if p \<in> set rem \<and> c \<notin> set rem then rem @ [c] else rem)"
  have step: "close_pass (x # h) rem = close_pass h rem1" by (simp add: close_pass_def rem1_def x)
  from Cons [of rem1] obtain new where
    new: "close_pass h rem1 = rem1 @ new" "set new \<subseteq> fst ` set h - set rem1" "distinct new" by blast
  have "rem1 = rem \<or> rem1 = rem @ [c] \<and> c \<notin> set rem" by (auto simp: rem1_def split: option.splits)
  then show ?case
  proof
    assume "rem1 = rem"
    with new step show ?thesis by (intro exI [of _ new]) auto
  next
    assume "rem1 = rem @ [c] \<and> c \<notin> set rem"
    with new step show ?thesis by (intro exI [of _ "c # new"]) (auto simp: x)
  qed
qed (simp add: close_pass_def)

function close_streams :: "(stream_id, stream_id option) dict \<Rightarrow> stream_id list \<Rightarrow> stream_id list" where
  "close_streams h rem =
     (let rem' = close_pass h rem in if length rem' = length rem then rem' else close_streams h rem')"
  by pat_completeness auto
termination
proof (relation "measure (\<lambda>(h, rem). card (fst ` set h - set rem))")
  fix h rem rem'
  assume "rem' = close_pass h rem" and "length rem' \<noteq> length rem"
  moreover obtain new where "close_pass h rem = rem @ new" "set new \<subseteq> fst ` set h - set rem"
    using close_pass_spec by blast
  ultimately have "fst ` set h - set rem' \<subset> fst ` set h - set rem" by (cases new) auto
  then show "((h, rem'), (h, rem)) \<in> measure (\<lambda>(h, rem). card (fst ` set h - set rem))"
    by (simp add: psubset_card_mono)
qed simp

declare close_streams.simps [simp del]

definition loop_streams :: "loop_region \<Rightarrow> stream_id \<Rightarrow> sched \<Rightarrow> stream_id list" where
  "loop_streams region sid s =
     fold (\<lambda>((r, tsid), scoped) rem.
       if r \<notin> set (members region) \<or> \<not> stream_within tsid sid then rem else List.union scoped rem)
     (task_streams s) []"

definition remove_streams :: "stream_id list \<Rightarrow> sched \<Rightarrow> sched" where
  "remove_streams rem s =
     s\<lparr>streams := dict_filter (\<lambda>k. k \<notin> set rem) (streams s),
       stream_hierarchy := dict_filter (\<lambda>k. k \<notin> set rem) (stream_hierarchy s),
       stream_exceptions := dict_filter (\<lambda>k. k \<notin> set rem) (stream_exceptions s),
       completed_tasks := {k \<in> completed_tasks s. snd k \<notin> set rem},
       indegrees := dict_filter (\<lambda>k. snd k \<notin> set rem) (indegrees s),
       edges := dict_filter (\<lambda>e. e_stream e \<notin> set rem) (edges s),
       task_streams := dict_filter (\<lambda>k. snd k \<notin> set rem) (task_streams s),
       open_streams := dict_filter (\<lambda>k. snd k \<notin> set rem) (open_streams s)\<rparr>"

definition cleanup_loop_descendant_streams :: "loop_region \<Rightarrow> stream_id \<Rightarrow> sched \<Rightarrow> sched" where
  "cleanup_loop_descendant_streams region sid s =
     (let rem = loop_streams region sid s
      in if rem = [] then s else remove_streams (close_streams (stream_hierarchy s) rem) s)"

definition internal_deps :: "loop_region \<Rightarrow> action_stmt \<Rightarrow> exn + int" where
  "internal_deps region stmt =
     sfold (\<lambda>dep n. sbind (edge_components_from_dep dep) (\<lambda>(src, _).
       Inr (if src \<in> set (members region) then n + 1 else n))) (depends_on stmt) 0"

definition reset_member :: "loop_region \<Rightarrow> stream_id \<Rightarrow> string \<Rightarrow> unit sc" where
  "reset_member region sid r =
     andthen (modify (\<lambda>s. s\<lparr>completed_tasks := completed_tasks s - {(r, sid)}\<rparr>))
     (bind (gets (\<lambda>s. dict_get (tasks s) r)) (\<lambda>stmt.
        case stmt of
          None \<Rightarrow> return ()
        | Some stmt \<Rightarrow>
            bind (lift_sum (internal_deps region stmt)) (\<lambda>n.
              modify (\<lambda>s. s\<lparr>indegrees := dict_set (r, sid) n (indegrees s)\<rparr>))))"

definition reset_loop_iteration_state :: "loop_region \<Rightarrow> stream_id \<Rightarrow> unit sc" where
  "reset_loop_iteration_state region sid =
     andthen (modify (cleanup_loop_descendant_streams region sid))
     (andthen (modify (\<lambda>s.
         s\<lparr>task_streams := dict_filter (\<lambda>(r, t). \<not> (r \<in> set (members region) \<and> t = sid)) (task_streams s),
           open_streams := dict_filter (\<lambda>(r, t). \<not> (r \<in> set (members region) \<and> t = sid)) (open_streams s),
           edges := map (\<lambda>(e, m). (e, if e_stream e = sid \<and> e_src e \<in> set (members region) \<and>
                                       e_dst e \<in> set (members region) then PENDING else m)) (edges s)\<rparr>))
     (andthen (for_each (members region) (reset_member region sid))
       (modify (\<lambda>s.
         s\<lparr>loop_indices := dict_filter (\<lambda>(r, t). \<not> (r \<in> set (members region) \<and> stream_within t sid))
                            (loop_indices s)\<rparr>))))"

definition handle_loop_start :: "sched_env \<Rightarrow> task \<Rightarrow> action_stmt \<Rightarrow> bool \<Rightarrow> unit sc" where
  "handle_loop_start env t stmt is_skipping =
     (let loop_key = (t_ref t, t_stream t)
      in if is_skipping then
           andthen (modify (\<lambda>s. s\<lparr>loop_start_skips := insert loop_key (loop_start_skips s)\<rparr>))
             (queue_all_skipped t)
         else
           andthen (modify (\<lambda>s. s\<lparr>loop_start_skips := loop_start_skips s - {loop_key}\<rparr>))
           (bind (gets (\<lambda>s. get_default 0 (loop_indices s) loop_key)) (\<lambda>index.
            andthen (get_action_context (t_stream t))
            (andthen (modify (set_action_result (t_stream t) (t_ref t)
                (from_result (VDict [(''iteration'', VInt index)]))))
            (andthen (execute t stmt) (handle_success_path t))))))"

text \<open>The cap test reads the raw argument; a \<open>bool\<close> is an \<open>int\<close> but never above the cap.\<close>

definition exceeds_cap :: "(string, pyval) dict \<Rightarrow> int option" where
  "exceeds_cap arguments =
     (case get_default (VInt 100) arguments ''max_iterations'' of
        VInt n \<Rightarrow> if MAX_DO_WHILE_ITERATIONS < n then Some n else None
      | _ \<Rightarrow> None)"

definition cap_error :: "int \<Rightarrow> exn" where
  "cap_error n = application_error (''Loop max_iterations exceeds platform cap: '' @ show_int n @ '' > '' @
     show_int MAX_DO_WHILE_ITERATIONS @ ''.'') []"

definition loop_condition :: "sched_env \<Rightarrow> task \<Rightarrow> action_stmt \<Rightarrow> string \<Rightarrow> bool sc" where
  "loop_condition env t stmt condition =
     bind (build_context env stmt (t_stream t)) (\<lambda>context.
     bind (catch_exception (resolve_expression condition context)
             (\<lambda>e. raise (application_error (''Error evaluating `condition` in `core.loop.end`: '' @ exn_text e) [])))
       (\<lambda>v. return (py_bool v)))"

definition loop_continue :: "loop_region \<Rightarrow> task \<Rightarrow> loop_end_args \<Rightarrow> int \<Rightarrow> unit sc" where
  "loop_continue region t a current_index =
     (if current_index + 1 \<ge> le_max_iterations a
      then raise (application_error (''Loop '' @ quoted (t_ref t) @ '' exceeded max_iterations='' @
             show_int (le_max_iterations a) @ ''. '' @
             ''Update `condition` or increase `max_iterations`.'') [])
      else
        andthen (reset_loop_iteration_state region (t_stream t))
          (modify (\<lambda>s.
             s\<lparr>loop_indices := dict_set (start_ref region, t_stream t) (current_index + 1) (loop_indices s),
               queue := queue s @ [mk_task (start_ref region) (t_stream t) 0]\<rparr>)))"

definition handle_loop_end :: "sched_env \<Rightarrow> task \<Rightarrow> action_stmt \<Rightarrow> bool \<Rightarrow> unit sc" where
  "handle_loop_end env t stmt is_skipping =
     bind (gets (\<lambda>s. dict_get (loop_regions_by_end s) (t_ref t))) (\<lambda>rg.
     bind (get_or_raise (RuntimeError (''Unknown loop end action: '' @ quoted (t_ref t))) rg) (\<lambda>region.
     case exceeds_cap (args stmt) of
       Some raw_max_iterations \<Rightarrow> raise (cap_error raw_max_iterations)
     | None \<Rightarrow>
       bind (lift_sum (LoopEndArgs env (args stmt))) (\<lambda>a.
       let loop_key = (start_ref region, t_stream t)
       in bind (gets (\<lambda>s. get_default 0 (loop_indices s) loop_key)) (\<lambda>current_index.
          bind (gets (\<lambda>s. is_skipping \<and> loop_key \<in> loop_start_skips s)) (\<lambda>from_start.
          andthen (if from_start
                   then modify (\<lambda>s. s\<lparr>loop_start_skips := loop_start_skips s - {loop_key}\<rparr>) else return ())
          (bind (if is_skipping then return False else loop_condition env t stmt (le_condition a)) (\<lambda>should_continue.
           andthen (get_action_context (t_stream t))
           (andthen (modify (set_action_result (t_stream t) (t_ref t)
               (from_result (VDict [(''continue'', VBool should_continue)]))))
           (andthen (if is_skipping then return () else execute t stmt)
             (if should_continue then loop_continue region t a current_index
              else andthen (modify (\<lambda>s. s\<lparr>loop_indices := dict_pop loop_key (loop_indices s)\<rparr>))
                     (if from_start then queue_all_skipped t else handle_success_path t)))))))))))"

section \<open>Scatter\<close>

definition open_stream :: "stream_id \<Rightarrow> stream_id \<Rightarrow> exec_context \<Rightarrow> sched \<Rightarrow> sched" where
  "open_stream parent new ctx s =
     s\<lparr>stream_hierarchy := dict_set new (Some parent) (stream_hierarchy s),
       streams := dict_set new ctx (streams s)\<rparr>"

text \<open>\<open>_handle_scatter_skip_stream\<close> (and its twin \<open>_queue_skip_stream\<close>).\<close>

definition handle_scatter_skip_stream :: "task \<Rightarrow> stream_id \<Rightarrow> unit sc" where
  "handle_scatter_skip_stream t sid =
     (let new_sid = stream_skip (t_ref t) (Some sid)
      in andthen (modify (open_stream sid new_sid empty_context))
           (queue_all_skipped (mk_task (t_ref t) new_sid 0)))"

text \<open>
  One stream of the collection. The list of streams is shared with \<open>task_streams\<close>, so the append is
  visible there while the entry exists; \<open>cooperative\<close> gives way to the event loop after every item.
\<close>

definition scatter_item :: "task \<Rightarrow> stored_object \<Rightarrow> rat option \<Rightarrow> int \<Rightarrow> unit sc" where
  "scatter_item t stored interval i =
     (let new_sid = stream_new (t_ref t) (Idx i) (Some (t_stream t));
          ctx = empty_context\<lparr>ctx_actions := [(t_ref t, from_collection_item stored i ''collection_item'')]\<rparr>;
          delay = of_int i * (case interval of None \<Rightarrow> 0 | Some x \<Rightarrow> x)
      in andthen (modify (\<lambda>s. if dict_get (task_streams s) (tkey t) = None then s
              else s\<lparr>task_streams := dict_set (tkey t) (get_default [] (task_streams s) (tkey t) @ [new_sid])
                                     (task_streams s)\<rparr>))
         (andthen (modify (open_stream (t_stream t) new_sid ctx))
         (andthen (queue_tasks (mk_task (t_ref t) new_sid delay) [])
           (async_sleep 0))))"

definition handle_scatter :: "sched_env \<Rightarrow> task \<Rightarrow> action_stmt \<Rightarrow> bool \<Rightarrow> unit sc" where
  "handle_scatter env t stmt is_skipping =
     (if is_skipping then handle_scatter_skip_stream t (t_stream t)
      else
        bind (lift_sum (ScatterArgs env (args stmt))) (\<lambda>a.
        bind (get_context (t_stream t)) (\<lambda>context.
        bind (get_or_raise (ValueError ''Workspace ID is required'') (env_workspace_id env)) (\<lambda>ws.
        bind (catch (await_stored (ReqScatterInput stmt (t_stream t) (sc_collection a) context
                (action_collection_prefix ws (env_wf_exec_id env) (t_stream t) (t_ref t))))
              (\<lambda>e. raise (unwrap_activity e))) (\<lambda>collection.
        andthen (modify (\<lambda>s. s\<lparr>task_streams := dict_set (tkey t) [] (task_streams s)\<rparr>))
        (bind (lift_sum (get_collection_size collection)) (\<lambda>n_items.
           if n_items = 0 then
             andthen (modify (\<lambda>s. s\<lparr>open_streams := dict_set (tkey t) 0 (open_streams s)\<rparr>))
               (handle_scatter_skip_stream t (t_stream t))
           else
             andthen (for_each (map int [0..<nat n_items]) (scatter_item t collection (sc_interval a)))
               (modify (\<lambda>s. s\<lparr>open_streams := dict_set (tkey t) (int (nat n_items)) (open_streams s)\<rparr>)))))))))"

section \<open>Gather\<close>

definition get_parent_stream_id_safe :: "stream_id \<Rightarrow> stream_id sc" where
  "get_parent_stream_id_safe sid =
     bind (gets (\<lambda>s. dict_get (stream_hierarchy s) sid)) (\<lambda>p.
     bind (get_or_raise (KeyError sid) p) (\<lambda>parent.
       get_or_raise (RuntimeError ''Invalid state: Gather encountered in skip stream with no parent stream'') parent))"

definition task_observed :: "sched \<Rightarrow> task_key \<Rightarrow> bool" where
  "task_observed s k \<longleftrightarrow> dict_get (open_streams s) k \<noteq> None"

definition stream_leaf_or_raise :: "stream_id \<Rightarrow> (string \<times> stream_index) sc" where
  "stream_leaf_or_raise sid = get_or_raise (ValueError ''not enough values to unpack'') (stream_leaf sid)"

text \<open>
  \<open>get_data()[stream_idx] = item\<close>: the list inside the inline result is updated in place; a negative
  index counts from the end, an index out of range or a result that is not an inline list raises.
\<close>

definition store_item :: "task_result \<Rightarrow> stream_index \<Rightarrow> pyval \<Rightarrow> exn + task_result" where
  "store_item tr ix item =
     sbind (get_data tr) (\<lambda>data.
       case (tr_result tr, tr_collection_index tr, data, ix) of
         (InlineObject _ tn, None, VList xs, Idx i) \<Rightarrow>
           (case py_set_nth xs i item of
              None \<Rightarrow> Inl (IndexError ''list assignment index out of range'')
            | Some ys \<Rightarrow> Inr (tr\<lparr>tr_result := InlineObject (VList ys) tn\<rparr>))
       | _ \<Rightarrow> Inl (TypeError ''item assignment''))"

definition unset_result :: "nat \<Rightarrow> task_result" where
  "unset_result n = from_result (VList (replicate n (VStr GATHER_UNSET)))"

text \<open>
  Place an item at the stream's own index of the gather result in the parent context; the first
  stream that arrives creates the list with one slot per stream of the scatter.
\<close>

definition place_item :: "string \<Rightarrow> stream_id \<Rightarrow> task_key \<Rightarrow> stream_index \<Rightarrow> pyval \<Rightarrow> unit sc" where
  "place_item gather_ref parent scatter ix item =
     bind (get_action_context parent) (\<lambda>ctx.
     bind (gets (\<lambda>s. get_default [] (task_streams s) scatter)) (\<lambda>scoped.
     let tr = (case dict_get ctx gather_ref of None \<Rightarrow> unset_result (length scoped) | Some tr \<Rightarrow> tr)
     in andthen (modify (set_action_result parent gather_ref tr))
        (bind (lift_sum (store_item tr ix item)) (\<lambda>tr'. modify (set_action_result parent gather_ref tr')))))"

text \<open>\<open>for item in get_data()\<close>: what iterating the value yields.\<close>

definition iter_items :: "pyval \<Rightarrow> exn + pyval list" where
  "iter_items v =
     (case v of
        VList xs \<Rightarrow> Inr xs
      | VDict d \<Rightarrow> Inr (map VStr (dict_keys d))
      | VStr s \<Rightarrow> Inr (map (\<lambda>c. VStr [c]) s)
      | _ \<Rightarrow> Inl (TypeError ''object is not iterable''))"

definition validate_stored :: "sched_env \<Rightarrow> pyval \<Rightarrow> exn + stored_object" where
  "validate_stored env v = (case v of VStored x \<Rightarrow> Inr x | _ \<Rightarrow> env_validate_stored env v)"

definition stored_items :: "sched_env \<Rightarrow> task_result \<Rightarrow> exn + stored_object list" where
  "stored_items env tr =
     sbind (get_data tr) (\<lambda>data.
     sbind (iter_items data) (\<lambda>items.
       sfold (\<lambda>item acc. if \<not> item \<noteq> VStr GATHER_UNSET then Inr acc
           else sbind (validate_stored env item) (\<lambda>x. Inr (acc @ [x]))) items []))"

definition typename_or_list :: "stored_object \<Rightarrow> string" where
  "typename_or_list x =
     (case stored_typename x of None \<Rightarrow> ''list'' | Some n \<Rightarrow> if n = [] then ''list'' else n)"

definition gather_error :: "string \<Rightarrow> stream_id \<Rightarrow> action_error_info list \<Rightarrow> action_error_info" where
  "gather_error r parent errors =
     (error_info r (''Gather '' @ quoted r @ '' encountered '' @ show_nat (length errors) @ '' error(s)'')
        ''ApplicationError'' parent)\<lparr>err_children := VList (map dump_error_info errors)\<rparr>"

definition handle_gather_result ::
  "sched_env \<Rightarrow> task \<Rightarrow> action_stmt \<Rightarrow> stream_id \<Rightarrow> gather_args \<Rightarrow> string \<Rightarrow> unit sc" where
  "handle_gather_result env t stmt parent ga gather_ref =
     bind (get_action_context parent) (\<lambda>ctx.
     let tr = (case dict_get ctx gather_ref of None \<Rightarrow> from_result (VList []) | Some tr \<Rightarrow> tr)
     in andthen (modify (set_action_result parent gather_ref tr))
        (bind (lift_sum (stored_items env tr)) (\<lambda>items.
         bind (get_or_raise (ValueError ''Workspace ID is required'') (env_workspace_id env)) (\<lambda>ws.
         bind (await_final (ReqFinalizeGather items
                 (action_collection_prefix ws (env_wf_exec_id env) parent gather_ref)
                 (ga_drop_nulls ga) (ga_error_strategy ga))) (\<lambda>(result, errors).
         andthen (lift_sum (get_collection_size result))
         (if ga_error_strategy ga = RAISE \<and> errors \<noteq> [] then
            let err = gather_error gather_ref parent errors;
                exc = application_error (''Gather '' @ quoted gather_ref @ '' encountered '' @ show_nat (length errors) @
                        '' error(s)'') [VDict [(gather_ref, dump_error_info err)]]
            in andthen (modify (\<lambda>s. s\<lparr>task_exceptions :=
                   dict_set gather_ref \<lparr>exc_exception = exc, exc_details = err\<rparr> (task_exceptions s)\<rparr>))
                 (raise exc)
          else
            let tr' = tr\<lparr>tr_result := result, tr_typename := typename_or_list result\<rparr>;
                tr'' = (if errors \<noteq> [] then with_error tr' (VList (map dump_error_info errors)) None else tr');
                parent_gather = mk_task gather_ref parent 0
            in andthen (modify (set_action_result parent gather_ref tr''))
               (andthen (execute parent_gather stmt) (queue_tasks parent_gather []))))))))"

definition handle_gather_skip_stream :: "sched_env \<Rightarrow> task \<Rightarrow> action_stmt \<Rightarrow> stream_id \<Rightarrow> unit sc" where
  "handle_gather_skip_stream env t stmt sid =
     bind (get_parent_stream_id_safe sid) (\<lambda>parent.
     andthen (get_action_context parent)
     (bind (stream_leaf_or_raise sid) (\<lambda>(scatter_ref, ix).
      let scatter = (scatter_ref, parent)
      in bind (gets (\<lambda>s. dict_get (stream_exceptions s) sid)) (\<lambda>err.
         andthen (case err of
                    None \<Rightarrow> return ()
                  | Some info \<Rightarrow> place_item (t_ref t) parent scatter ix
                      (VStored (new_inline (dump_error_info (exc_details info)) None)))
         (bind (gets (\<lambda>s. dict_get (open_streams s) scatter)) (\<lambda>n.
          bind (get_or_raise (KeyError scatter_ref) n) (\<lambda>n.
            if n = 0 then bind (lift_sum (GatherArgs env (args stmt))) (\<lambda>ga.
              handle_gather_result env t stmt parent ga (t_ref t))
            else return ())))))))"

text \<open>\<open>self.open_streams[k] -= 1\<close>.\<close>

definition close_stream :: "task_key \<Rightarrow> unit sc" where
  "close_stream k =
     bind (gets (\<lambda>s. dict_get (open_streams s) k)) (\<lambda>n.
     bind (get_or_raise (KeyError (fst k)) n) (\<lambda>n.
       modify (\<lambda>s. s\<lparr>open_streams := dict_set k (n - 1) (open_streams s)\<rparr>)))"

definition gather_in_skip_stream :: "sched_env \<Rightarrow> task \<Rightarrow> unit sc" where
  "gather_in_skip_stream env t =
     bind (get_parent_stream_id_safe (t_stream t)) (\<lambda>parent.
     bind (stream_leaf_or_raise (t_stream t)) (\<lambda>(scatter_ref, _).
     bind (gets (\<lambda>s. task_observed s (scatter_ref, parent))) (\<lambda>observed.
       if observed then
         andthen (get_action_context parent)
         (bind (get_or_raise (ValueError ''Workspace ID is required'') (env_workspace_id env)) (\<lambda>ws.
          bind (await_final (ReqFinalizeGather []
                  (action_collection_prefix ws (env_wf_exec_id env) parent (t_ref t)) False PARTITION))
            (\<lambda>(result, _).
              andthen (modify (set_action_result parent (t_ref t)
                  ((from_result VNone)\<lparr>tr_result := result, tr_typename := typename_or_list result\<rparr>)))
                (queue_tasks (mk_task (t_ref t) parent 0) []))))
       else queue_all_skipped t)))"

definition gather_in_stream :: "sched_env \<Rightarrow> task \<Rightarrow> action_stmt \<Rightarrow> bool \<Rightarrow> unit sc" where
  "gather_in_stream env t stmt is_skipping =
     bind (get_parent_stream_id_safe (t_stream t)) (\<lambda>parent.
     bind (stream_leaf_or_raise (t_stream t)) (\<lambda>(scatter_ref, ix).
     let scatter = (scatter_ref, parent)
     in if is_skipping then andthen (close_stream scatter) (handle_gather_skip_stream env t stmt (t_stream t))
        else
          bind (lift_sum (GatherArgs env (args stmt))) (\<lambda>ga.
          bind (get_context (t_stream t)) (\<lambda>context.
          bind (catch_exception
                  (bind (get_or_raise (ValueError ''Workspace ID is required'') (env_workspace_id env)) (\<lambda>ws.
                    await_stored (ReqEvalObject (ga_items ga) context
                      (action_key ws (env_wf_exec_id env) (t_stream t) (t_ref t)))))
                  (\<lambda>e. raise (application_error
                     (''Error evaluating `items` expression in `core.transform.gather`: '' @ exn_text e) [])))
            (\<lambda>item.
             andthen (close_stream scatter)
             (andthen (place_item (t_ref t) parent scatter ix (VStored item))
             (bind (gets (\<lambda>s. dict_get (open_streams s) scatter)) (\<lambda>n.
              bind (get_or_raise (KeyError scatter_ref) n) (\<lambda>n.
                if n = 0 then handle_gather_result env t stmt parent ga (t_ref t) else return ())))))))))"

definition handle_gather :: "sched_env \<Rightarrow> task \<Rightarrow> action_stmt \<Rightarrow> bool \<Rightarrow> unit sc" where
  "handle_gather env t stmt is_skipping =
     (if t_stream t = root_stream then
        (if \<not> is_skipping then raise (RuntimeError ''Found gather in root stream but not skipping'')
         else raise (RuntimeError ''We are skipping but we should be in a skip stream''))
      else if t_stream t = [] then raise (application_error ''Invalid gather state'' [])
      else if is_skip_stream (t_stream t) then gather_in_skip_stream env t
      else gather_in_stream env t stmt is_skipping)"

section \<open>Scheduling one task\<close>

definition handle_skip_path :: "sched_env \<Rightarrow> task \<Rightarrow> action_stmt \<Rightarrow> unit sc" where
  "handle_skip_path env t stmt =
     (if action stmt = LOOP_START then handle_loop_start env t stmt True
      else if action stmt = LOOP_END then handle_loop_end env t stmt True
      else if action stmt = TRANSFORM_SCATTER then handle_scatter env t stmt True
      else if action stmt = TRANSFORM_GATHER then handle_gather env t stmt True
      else queue_all_skipped t)"

definition task_should_skip :: "sched_env \<Rightarrow> task \<Rightarrow> action_stmt \<Rightarrow> bool sc" where
  "task_should_skip env t stmt =
     (case run_if stmt of
        None \<Rightarrow> return False
      | Some cond \<Rightarrow>
          bind (build_context env stmt (t_stream t)) (\<lambda>context.
          bind (catch_exception (resolve_expression cond context)
                  (\<lambda>e. raise (application_error (''Error evaluating `run_if` condition: '' @ exn_text e) [])))
            (\<lambda>v. return (\<not> py_bool v))))"

text \<open>
  The early evaluation of \<open>run_if\<close>: the task was skipped, or the run goes on, possibly with an
  \<open>ApplicationError\<close> kept for later. The skip handler runs inside the same \<open>try\<close>.
\<close>

datatype run_if_outcome = RunIfSkipped | RunIfContinue "exn option"

definition run_if_phase :: "sched_env \<Rightarrow> task \<Rightarrow> action_stmt \<Rightarrow> run_if_outcome sc" where
  "run_if_phase env t stmt =
     (if run_if stmt = None then return (RunIfContinue None)
      else
        catch_application_error
          (bind (task_should_skip env t stmt) (\<lambda>b.
             if b then andthen (handle_skip_path env t stmt) (return RunIfSkipped)
             else return (RunIfContinue None)))
          (\<lambda>e. return (RunIfContinue (Some e))))"

definition run_action :: "sched_env \<Rightarrow> task \<Rightarrow> rat \<Rightarrow> action_stmt \<Rightarrow> unit sc" where
  "run_action env t original_delay stmt =
     andthen (if original_delay > 0 then async_sleep original_delay else return ())
       (if action stmt = LOOP_START then handle_loop_start env t stmt False
        else if action stmt = LOOP_END then handle_loop_end env t stmt False
        else if action stmt = TRANSFORM_SCATTER then handle_scatter env t stmt False
        else if action stmt = TRANSFORM_GATHER then handle_gather env t stmt False
        else andthen (execute t stmt) (handle_success_path t))"

definition schedule_body :: "sched_env \<Rightarrow> task \<Rightarrow> rat \<Rightarrow> action_stmt \<Rightarrow> unit sc" where
  "schedule_body env t original_delay stmt =
     bind (gets (\<lambda>s. skip_should_propagate s t stmt)) (\<lambda>p.
     bind (lift_sum p) (\<lambda>propagate.
       if propagate then handle_skip_path env t stmt
       else
         bind (run_if_phase env t stmt) (\<lambda>outcome.
           case outcome of
             RunIfSkipped \<Rightarrow> return ()
           | RunIfContinue run_if_error \<Rightarrow>
               bind (gets (\<lambda>s. is_reachable s t stmt)) (\<lambda>r.
               bind (lift_sum r) (\<lambda>reachable.
                 if \<not> reachable then raise (TaskUnreachable (''Task '' @ t_ref t @ '' is unreachable''))
                 else case run_if_error of
                        Some e \<Rightarrow> raise e
                      | None \<Rightarrow> run_action env t original_delay stmt)))))"

definition schedule_task :: "sched_env \<Rightarrow> task \<Rightarrow> unit sc" where
  "schedule_task env t =
     bind (gets (\<lambda>s. dict_get (tasks s) (t_ref t))) (\<lambda>st.
     bind (get_or_raise (KeyError (t_ref t)) st) (\<lambda>stmt.
     let t' = (if t_delay t > 0 then t\<lparr>t_delay := 0\<rparr> else t)
     in finalize
          (catch_exception (schedule_body env t' (t_delay t) stmt)
            (\<lambda>e. case e of
                   PlatformExecutionError e' \<Rightarrow> handle_error_path env t' e' True
                 | _ \<Rightarrow> handle_error_path env t' e False))
          (\<lambda>s. s\<lparr>completed_tasks := insert (tkey t') (completed_tasks s)\<rparr>)))"

end
