(* ===== verification/Scheduler_Queue.thy ===== *)
theory Scheduler_Queue
  imports Scheduler
begin

text \<open>
  Edge marking, readiness and queueing (\<open>_queue_tasks\<close>, \<open>_is_reachable\<close>,
  \<open>_skip_should_propagate\<close>, the error, success and skip paths): what one completed task does to the
  edges, the counters and the queue, as a pure function, and what the join strategies decide.
\<close>

named_theorems sched_simps \<open>closed forms of the scheduler's handlers\<close>

section \<open>Queueing as a pure function\<close>

definition known_indegree :: "sched \<Rightarrow> task_key \<Rightarrow> int" where
  "known_indegree s k =
     (case dict_get (indegrees s) k of
        Some n \<Rightarrow> n
      | None \<Rightarrow> (case dict_get (tasks s) (fst k) of None \<Rightarrow> 0 | Some st \<Rightarrow> int (length (depends_on st))))"

definition release_one :: "task \<Rightarrow> dsl_edge list \<Rightarrow> adj_dst \<Rightarrow> sched \<Rightarrow> sched" where
  "release_one t U d s =
     (let e = mk_edge (t_ref t) (t_stream t) d; k = (fst d, t_stream t); n = known_indegree s k - 1
      in s\<lparr>edges := dict_set e (if e \<in> set U then SKIPPED else VISITED) (edges s),
           indegrees := dict_set k n (indegrees s),
           queue := (if n = 0 then queue s @ [mk_task (fst d) (t_stream t) (t_delay t)] else queue s)\<rparr>)"

definition release :: "task \<Rightarrow> dsl_edge list \<Rightarrow> sched \<Rightarrow> sched" where
  "release t U s = fold (release_one t U) (get_default [] (adj s) (t_ref t)) s"

text \<open>The successors of every task are tasks, which the constructor establishes.\<close>

definition adj_closed :: "sched \<Rightarrow> bool" where
  "adj_closed s \<longleftrightarrow> (\<forall>r. \<forall>d \<in> set (get_default [] (adj s) r). dict_get (tasks s) (fst d) \<noteq> None)"

lemma release_one_frame [simp]:
  "tasks (release_one t U d s) = tasks s" "adj (release_one t U d s) = adj s"
  "max_pending_tasks (release_one t U d s) = max_pending_tasks s"
  "action_scopes (release_one t U d s) = action_scopes s" "scope_hierarchy (release_one t U d s) = scope_hierarchy s"
  "loop_regions (release_one t U d s) = loop_regions s"
  "loop_regions_by_end (release_one t U d s) = loop_regions_by_end s"
  "root_context (release_one t U d s) = root_context s" "completed_tasks (release_one t U d s) = completed_tasks s"
  "task_exceptions (release_one t U d s) = task_exceptions s"
  "stream_exceptions (release_one t U d s) = stream_exceptions s"
  "loop_indices (release_one t U d s) = loop_indices s" "loop_start_skips (release_one t U d s) = loop_start_skips s"
  "streams (release_one t U d s) = streams s" "stream_hierarchy (release_one t U d s) = stream_hierarchy s"
  "task_streams (release_one t U d s) = task_streams s" "open_streams (release_one t U d s) = open_streams s"
  by (simp_all add: release_one_def Let_def)

lemma release_fold_frame [simp]:
  "tasks (fold (release_one t U) ds s) = tasks s" "adj (fold (release_one t U) ds s) = adj s"
  "max_pending_tasks (fold (release_one t U) ds s) = max_pending_tasks s"
  "action_scopes (fold (release_one t U) ds s) = action_scopes s"
  "scope_hierarchy (fold (release_one t U) ds s) = scope_hierarchy s"
  "loop_regions (fold (release_one t U) ds s) = loop_regions s"
  "loop_regions_by_end (fold (release_one t U) ds s) = loop_regions_by_end s"
  "root_context (fold (release_one t U) ds s) = root_context s"
  "completed_tasks (fold (release_one t U) ds s) = completed_tasks s"
  "task_exceptions (fold (release_one t U) ds s) = task_exceptions s"
  "stream_exceptions (fold (release_one t U) ds s) = stream_exceptions s"
  "loop_indices (fold (release_one t U) ds s) = loop_indices s"
  "loop_start_skips (fold (release_one t U) ds s) = loop_start_skips s"
  "streams (fold (release_one t U) ds s) = streams s"
  "stream_hierarchy (fold (release_one t U) ds s) = stream_hierarchy s"
  "task_streams (fold (release_one t U) ds s) = task_streams s"
  "open_streams (fold (release_one t U) ds s) = open_streams s"
  by (induction ds arbitrary: s) simp_all

lemma release_frame [simp]:
  "tasks (release t U s) = tasks s" "adj (release t U s) = adj s"
  "max_pending_tasks (release t U s) = max_pending_tasks s"
  "action_scopes (release t U s) = action_scopes s" "scope_hierarchy (release t U s) = scope_hierarchy s"
  "loop_regions (release t U s) = loop_regions s" "loop_regions_by_end (release t U s) = loop_regions_by_end s"
  "root_context (release t U s) = root_context s" "completed_tasks (release t U s) = completed_tasks s"
  "task_exceptions (release t U s) = task_exceptions s" "stream_exceptions (release t U s) = stream_exceptions s"
  "loop_indices (release t U s) = loop_indices s" "loop_start_skips (release t U s) = loop_start_skips s"
  "streams (release t U s) = streams s" "stream_hierarchy (release t U s) = stream_hierarchy s"
  "task_streams (release t U s) = task_streams s" "open_streams (release t U s) = open_streams s"
  by (simp_all add: release_def)

lemma queue_next_release:
  assumes "dict_get (tasks s) (fst d) \<noteq> None"
  shows "queue_next t U d s = (release_one t U d s, Ret ())"
  using assms
  by (auto simp: queue_next_def release_one_def known_indegree_def mark_edge_def mk_task_def tkey_def
      bind_apply andthen_apply Let_def split: option.splits)

lemma for_each_queue_next:
  assumes "\<forall>d \<in> set ds. dict_get (tasks s) (fst d) \<noteq> None"
  shows "for_each ds (queue_next t U) s = (fold (release_one t U) ds s, Ret ())"
  using assms by (induction ds arbitrary: s) (simp_all add: andthen_apply queue_next_release)

lemma queue_tasks_release [sched_simps]:
  assumes "adj_closed s"
  shows "queue_tasks t U s = (release t U s, Ret ())"
  using assms by (simp add: queue_tasks_def bind_apply release_def adj_closed_def for_each_queue_next)

section \<open>What a release does\<close>

lemma release_fold_marker:
  "edge_marker_of (fold (release_one t U) ds s) e =
     (if e \<in> set (map (mk_edge (t_ref t) (t_stream t)) ds)
      then (if e \<in> set U then SKIPPED else VISITED) else edge_marker_of s e)"
  by (induction ds arbitrary: s) (auto simp: edge_marker_of_def release_one_def Let_def)

lemma release_marker:
  "edge_marker_of (release t U s) e =
     (if e_src e = t_ref t \<and> e_stream e = t_stream t \<and> (e_dst e, e_type e) \<in> set (get_default [] (adj s) (t_ref t))
      then (if e \<in> set U then SKIPPED else VISITED) else edge_marker_of s e)"
proof -
  have "e \<in> mk_edge (t_ref t) (t_stream t) ` D \<longleftrightarrow>
      e_src e = t_ref t \<and> e_stream e = t_stream t \<and> (e_dst e, e_type e) \<in> D" for D
    by (cases e) (force simp: mk_edge_def)
  then show ?thesis unfolding release_def release_fold_marker by simp
qed

lemma release_one_indegrees:
  "indegrees (release_one t U d s) =
     dict_set (fst d, t_stream t) (known_indegree s (fst d, t_stream t) - 1) (indegrees s)"
  by (simp add: release_one_def Let_def)

lemma known_indegree_release_one:
  "known_indegree (release_one t U d s) k =
     (if k = (fst d, t_stream t) then known_indegree s k - 1 else known_indegree s k)"
  by (simp add: known_indegree_def [of "release_one t U d s"] release_one_indegrees)
    (simp add: known_indegree_def split: option.splits)

lemma release_fold_indegree:
  "known_indegree (fold (release_one t U) ds s) k =
     known_indegree s k - (if snd k = t_stream t then int (count_list (map fst ds) (fst k)) else 0)"
  by (induction ds arbitrary: s; cases k) (auto simp: known_indegree_release_one)

lemma release_indegree:
  "known_indegree (release t U s) k =
     known_indegree s k - (if snd k = t_stream t
        then int (count_list (map fst (get_default [] (adj s) (t_ref t))) (fst k)) else 0)"
  by (simp add: release_def release_fold_indegree)

text \<open>The tasks a release puts on the queue: those whose counter it brings to zero.\<close>

lemma release_fold_queue:
  assumes "\<forall>r \<in> set (map fst ds). int (count_list (map fst ds) r) \<le> known_indegree s (r, t_stream t)"
  shows "\<exists>new. queue (fold (release_one t U) ds s) = queue s @ map (\<lambda>r. mk_task r (t_stream t) (t_delay t)) new \<and>
     distinct new \<and>
     set new = {r \<in> set (map fst ds). known_indegree s (r, t_stream t) = int (count_list (map fst ds) r)}"
  using assms
proof (induction ds arbitrary: s)
  case (Cons d ds)
  let ?s = "release_one t U d s" and ?r = "fst d"
  have ind: "known_indegree ?s (r, t_stream t) =
      (if r = ?r then known_indegree s (r, t_stream t) - 1 else known_indegree s (r, t_stream t))" for r
    by (simp add: known_indegree_release_one)
  have le: "\<forall>r \<in> set (map fst ds). int (count_list (map fst ds) r) \<le> known_indegree ?s (r, t_stream t)"
    using Cons.prems ind by (auto split: if_splits)
  from Cons.IH [OF le] obtain new where
    new: "queue (fold (release_one t U) ds ?s) = queue ?s @ map (\<lambda>r. mk_task r (t_stream t) (t_delay t)) new"
    "distinct new"
    "set new = {r \<in> set (map fst ds). known_indegree ?s (r, t_stream t) = int (count_list (map fst ds) r)}"
    by blast
  show ?case
  proof (cases "known_indegree s (?r, t_stream t) = 1")
    case True
    have "count_list (map fst ds) ?r = 0" using Cons.prems True by (simp split: if_splits)
    then have notin: "?r \<notin> set (map fst ds)" by (simp only: count_list_0_iff not_False_eq_True)
    then have "?r \<notin> set new" using new(3) by auto
    moreover have "set (?r # new) = {r \<in> set (map fst (d # ds)).
        known_indegree s (r, t_stream t) = int (count_list (map fst (d # ds)) r)}"
      using new(3) notin True ind by auto
    moreover have "queue ?s = queue s @ [mk_task ?r (t_stream t) (t_delay t)]"
      using True by (simp add: release_one_def Let_def)
    ultimately show ?thesis using new by (intro exI [of _ "?r # new"]) simp
  next
    case False
    have "set new = {r \<in> set (map fst (d # ds)).
        known_indegree s (r, t_stream t) = int (count_list (map fst (d # ds)) r)}"
      (is "_ = ?R")
    proof -
      have "r \<in> set new \<longleftrightarrow> r \<in> ?R" for r
      proof (cases "r = ?r")
        case True
        have "?r \<in> set (map fst ds)" if "known_indegree s (?r, t_stream t) = int (count_list (map fst (d # ds)) ?r)"
          using that False count_list_0_iff [of "map fst ds" ?r] by auto
        with True new(3) ind show ?thesis by auto
      qed (use new(3) ind in auto)
      then show ?thesis by blast
    qed
    moreover have "queue ?s = queue s" using False by (simp add: release_one_def Let_def)
    ultimately show ?thesis using new by (intro exI [of _ new]) simp
  qed
qed simp

lemma release_queue:
  assumes "\<forall>d \<in> set (get_default [] (adj s) (t_ref t)).
     int (count_list (map fst (get_default [] (adj s) (t_ref t))) (fst d)) \<le> known_indegree s (fst d, t_stream t)"
  obtains new where "queue (release t U s) = queue s @ map (\<lambda>r. mk_task r (t_stream t) (t_delay t)) new"
    "distinct new" "set new = {r \<in> fst ` set (get_default [] (adj s) (t_ref t)).
       known_indegree s (r, t_stream t) = int (count_list (map fst (get_default [] (adj s) (t_ref t))) r)}"
  using release_fold_queue [of "get_default [] (adj s) (t_ref t)" s t U] assms unfolding release_def by auto

section \<open>Joins\<close>

definition dep_marker :: "sched \<Rightarrow> stream_id \<Rightarrow> string \<Rightarrow> string \<Rightarrow> edge_marker" where
  "dep_marker s sid dst d = edge_marker_of s (mk_edge (dep_src d) sid (dst, snd (dep_edge d)))"

definition deps_parse :: "action_stmt \<Rightarrow> bool" where
  "deps_parse stmt \<longleftrightarrow> list_all (\<lambda>d. edge_components_from_dep d = Inr (dep_edge d)) (depends_on stmt)"

lemma edge_has_marker_dep:
  assumes "edge_components_from_dep d = Inr (dep_edge d)"
  shows "edge_has_marker s d dst m sid = Inr (dep_marker s sid dst d = m)"
  by (simp add: edge_has_marker_def get_edge_by_refs_def dep_marker_def assms split_def)

lemma all_have_marker_spec:
  assumes "\<forall>d \<in> set deps. edge_components_from_dep d = Inr (dep_edge d)"
  shows "all_have_marker s dst m sid deps = Inr (\<forall>d \<in> set deps. dep_marker s sid dst d = m)"
  using assms by (induction deps) (simp_all add: edge_has_marker_dep)

lemma count_marker_spec:
  assumes "\<forall>d \<in> set deps. edge_components_from_dep d = Inr (dep_edge d)"
  shows "count_marker s dst m sid deps = Inr (int (length (filter (\<lambda>d. dep_marker s sid dst d = m) deps)))"
proof -
  have "sfold (\<lambda>dep n. sbind (edge_has_marker s dep dst m sid) (\<lambda>b. Inr (if b then n + 1 else n))) deps n =
      Inr (n + int (length (filter (\<lambda>d. dep_marker s sid dst d = m) deps)))" for n :: int
    using assms by (induction deps arbitrary: n) (simp_all add: edge_has_marker_dep)
  then show ?thesis by (simp add: count_marker_def)
qed

text \<open>C26: when a task may run. A task without dependencies is reachable; with one dependency, or
  with the strategy \<open>all\<close>, it is reachable exactly when every dependency edge was visited in its
  stream; with several dependencies and the strategy \<open>any\<close>, exactly when some edge was.\<close>

theorem is_reachable_spec:
  assumes "deps_parse stmt"
  shows "is_reachable s t stmt =
    Inr (if length (depends_on stmt) > 1 \<and> join_strategy stmt = JoinAny
         then \<exists>d \<in> set (depends_on stmt). dep_marker s (t_stream t) (t_ref t) d = VISITED
         else \<forall>d \<in> set (depends_on stmt). dep_marker s (t_stream t) (t_ref t) d = VISITED)"
proof -
  let ?P = "\<lambda>d. dep_marker s (t_stream t) (t_ref t) d = VISITED"
  have ok: "\<forall>d \<in> set (depends_on stmt). edge_components_from_dep d = Inr (dep_edge d)"
    using assms by (simp add: deps_parse_def list_all_iff)
  show ?thesis
  proof (cases "length (depends_on stmt) > 1")
    case True
    then have "is_reachable s t stmt = Inr (case join_strategy stmt of
        JoinAny \<Rightarrow> 0 < length (filter ?P (depends_on stmt))
      | JoinAll \<Rightarrow> length (filter ?P (depends_on stmt)) = length (depends_on stmt))"
      using count_marker_spec [OF ok]
      by (auto simp: is_reachable_def split: list.splits join_strategy.splits)
    with True show ?thesis
      by (cases "join_strategy stmt") (simp_all add: length_filter_all filter_empty_conv)
  next
    case False
    then consider "depends_on stmt = []" | d where "depends_on stmt = [d]"
      by (cases "depends_on stmt"; cases "tl (depends_on stmt)") auto
    then show ?thesis
      by cases (use ok in \<open>simp_all add: is_reachable_def edge_has_marker_dep\<close>)
  qed
qed

text \<open>Skip propagation. A task with dependencies is force-skipped exactly when every one of its
  dependency edges is marked skipped in its stream; a task without dependencies never is.\<close>

theorem skip_should_propagate_spec:
  assumes "deps_parse stmt"
  shows "skip_should_propagate s t stmt =
    Inr (depends_on stmt \<noteq> [] \<and> (\<forall>d \<in> set (depends_on stmt). dep_marker s (t_stream t) (t_ref t) d = SKIPPED))"
  using assms
  by (auto simp: skip_should_propagate_def all_have_marker_spec deps_parse_def list_all_iff)

section \<open>Outcome of the paths\<close>

lemma out_edges_run [sched_simps]:
  "dict_get (adj s) r = Some out \<Longrightarrow> out_edges r sid P s = (s, Ret (map (mk_edge r sid) (filter (P \<circ> snd) out)))"
  by (simp add: out_edges_def bind_apply)

lemma mk_edge_inject [simp]: "mk_edge r sid d = mk_edge r' sid' d' \<longleftrightarrow> r = r' \<and> sid = sid' \<and> d = d'"
  by (cases d; cases d') (auto simp: mk_edge_def)

lemma mk_edge_mem_filter [simp]:
  "mk_edge r sid d \<in> set (map (mk_edge r sid) (filter P out)) \<longleftrightarrow> d \<in> set out \<and> P d"
  by auto

lemma mk_edge_sel [simp]:
  "e_src (mk_edge r sid d) = r" "e_dst (mk_edge r sid d) = fst d" "e_type (mk_edge r sid d) = snd d"
  "e_stream (mk_edge r sid d) = sid"
  by (simp_all add: mk_edge_def)

lemma release_out_marker:
  assumes "dict_get (adj s) (t_ref t) = Some out" and "d \<in> set out"
  shows "edge_marker_of (release t (map (mk_edge (t_ref t) (t_stream t)) (filter P out)) s)
     (mk_edge (t_ref t) (t_stream t) d) = (if P d then SKIPPED else VISITED)"
  using assms by (auto simp: release_marker get_default_def)

lemma handle_success_path_run [sched_simps]:
  assumes "adj_closed s" and "dict_get (adj s) (t_ref t) = Some out"
  shows "handle_success_path t s =
    (release t (map (mk_edge (t_ref t) (t_stream t)) (filter (\<lambda>d. snd d \<noteq> SUCCESS) out)) s, Ret ())"
  using assms by (simp add: handle_success_path_def bind_apply out_edges_run queue_tasks_release comp_def)

lemma queue_all_skipped_run [sched_simps]:
  assumes "adj_closed s" and "dict_get (adj s) (t_ref t) = Some out"
  shows "queue_all_skipped t s = (release t (map (mk_edge (t_ref t) (t_stream t)) out) s, Ret ())"
  using assms by (simp add: queue_all_skipped_def bind_apply out_edges_run queue_tasks_release comp_def)

lemma adj_closed_stream_exceptions [simp]: "adj_closed (stream_exceptions_update f s) = adj_closed s"
  by (simp add: adj_closed_def)

lemma handle_error_path_run [sched_simps]:
  assumes "adj_closed s" and "dict_get (adj s) (t_ref t) = Some out"
  shows "handle_error_path env t exc fw s =
    (let info = \<lparr>exc_exception = exc, exc_details = error_details env (t_ref t) (t_stream t) exc\<rparr>
     in ((if (\<exists>d \<in> set out. snd d = ERROR) \<and> \<not> fw
          then release t (map (mk_edge (t_ref t) (t_stream t)) (filter (\<lambda>d. snd d \<noteq> ERROR) out)) s
          else if t_stream t = root_stream \<or> fw
          then s\<lparr>task_exceptions := dict_set (t_ref t) info (task_exceptions s)\<rparr>
          else release t (map (mk_edge (t_ref t) (t_stream t)) out)
                 (s\<lparr>stream_exceptions := dict_set (t_stream t) info (stream_exceptions s)\<rparr>)), Ret ()))"
proof -
  have "length (filter (\<lambda>d. snd d \<noteq> ERROR) out) < length out \<longleftrightarrow> (\<exists>d \<in> set out. snd d = ERROR)"
    using length_filter_all [of "\<lambda>d. snd d \<noteq> ERROR" out] length_filter_le [of "\<lambda>d. snd d \<noteq> ERROR" out]
    by (auto simp del: length_filter_le)
  with assms show ?thesis
    by (simp add: handle_error_path_def bind_apply andthen_apply out_edges_run queue_tasks_release comp_def Let_def)
qed

text \<open>C25: what a failed task does. If the task has an error path and the failure is not a platform
  failure, its error edges are visited, its success edges skipped and no exception is recorded.
  Otherwise the failure is recorded: for the workflow, with nothing released, when the task runs in
  the root stream or the failure is a platform failure; else for the stream, with every outgoing edge
  skipped so that the stream runs on to its gather.\<close>

theorem error_path_outcome:
  assumes "adj_closed s" and "dict_get (adj s) (t_ref t) = Some out"
    and info: "info = \<lparr>exc_exception = exc, exc_details = error_details env (t_ref t) (t_stream t) exc\<rparr>"
  shows "\<exists>s'. handle_error_path env t exc fw s = (s', Ret ()) \<and>
    (if (\<exists>d \<in> set out. snd d = ERROR) \<and> \<not> fw
     then task_exceptions s' = task_exceptions s \<and> stream_exceptions s' = stream_exceptions s \<and>
       (\<forall>d \<in> set out. edge_marker_of s' (mk_edge (t_ref t) (t_stream t) d) =
          (if snd d = ERROR then VISITED else SKIPPED))
     else if t_stream t = root_stream \<or> fw
     then s' = s\<lparr>task_exceptions := dict_set (t_ref t) info (task_exceptions s)\<rparr>
     else task_exceptions s' = task_exceptions s \<and>
       stream_exceptions s' = dict_set (t_stream t) info (stream_exceptions s) \<and>
       (\<forall>d \<in> set out. edge_marker_of s' (mk_edge (t_ref t) (t_stream t) d) = SKIPPED))"
proof -
  let ?s = "s\<lparr>stream_exceptions := dict_set (t_stream t) info (stream_exceptions s)\<rparr>"
  have "edge_marker_of (release t (map (mk_edge (t_ref t) (t_stream t)) out) ?s)
      (mk_edge (t_ref t) (t_stream t) d) = SKIPPED" if "d \<in> set out" for d
    using release_out_marker [of ?s t out d "\<lambda>_. True"] assms(2) that by simp
  moreover have "edge_marker_of (release t (map (mk_edge (t_ref t) (t_stream t)) (filter (\<lambda>d. snd d \<noteq> ERROR) out)) s)
      (mk_edge (t_ref t) (t_stream t) d) = (if snd d = ERROR then VISITED else SKIPPED)" if "d \<in> set out" for d
    using release_out_marker [OF assms(2) that, of "\<lambda>d. snd d \<noteq> ERROR"] by simp
  ultimately show ?thesis
    using handle_error_path_run [OF assms(1,2), of env exc fw]
    unfolding info [symmetric] Let_def by (auto split: if_splits)
qed

definition two_step_sched :: sched where
  "two_step_sched =
     \<lparr>tasks = stmts_by_ref diamond_actions,
      adj = [(''a'', [(''b'', SUCCESS), (''c'', ERROR)]), (''b'', [(''d'', SUCCESS)]), (''c'', [(''d'', SUCCESS)]), (''d'', [])],
      max_pending_tasks = 4, action_scopes = [], scope_hierarchy = [], loop_regions = [],
      loop_regions_by_end = [], root_context = empty_context, queue = [],
      indegrees = init_task_indegrees diamond_actions, completed_tasks = {}, edges = [],
      task_exceptions = [], stream_exceptions = [], loop_indices = [], loop_start_skips = {},
      streams = [(root_stream, empty_context)], stream_hierarchy = [(root_stream, None)],
      task_streams = [], open_streams = []\<rparr>"

lemma adj_closedI:
  assumes "list_all (\<lambda>(r, ds). list_all (\<lambda>d. dict_get (tasks s) (fst d) \<noteq> None) ds) (adj s)"
  shows "adj_closed s"
  unfolding adj_closed_def
proof (intro allI ballI)
  fix r d
  assume "d \<in> set (get_default [] (adj s) r)"
  then obtain ds where ds: "dict_get (adj s) r = Some ds" and d: "d \<in> set ds"
    by (cases "dict_get (adj s) r") (auto simp: get_default_def)
  from assms map_of_SomeD [OF ds] have "list_all (\<lambda>d. dict_get (tasks s) (fst d) \<noteq> None) ds"
    by (auto simp only: list_all_iff)
  with d show "dict_get (tasks s) (fst d) \<noteq> None" unfolding list_all_iff by blast
qed

lemma two_step_adj_closed: "adj_closed two_step_sched"
  by (rule adj_closedI) code_simp

theorem error_path_outcome_witness:
  "\<exists>s'. handle_error_path sample_env (mk_task ''a'' root_stream 0) (ValueError []) False two_step_sched = (s', Ret ()) \<and>
    task_exceptions s' = [] \<and>
    edge_marker_of s' (mk_edge ''a'' root_stream (''c'', ERROR)) = VISITED \<and>
    edge_marker_of s' (mk_edge ''a'' root_stream (''b'', SUCCESS)) = SKIPPED"
proof -
  have "dict_get (adj two_step_sched) (t_ref (mk_task ''a'' root_stream 0)) = Some [(''b'', SUCCESS), (''c'', ERROR)]"
    by (simp add: two_step_sched_def mk_task_def)
  from error_path_outcome [OF two_step_adj_closed this refl, of sample_env "ValueError []" False]
  show ?thesis by (auto simp: mk_task_def two_step_sched_def)
qed

text \<open>The two join rules on the last action of the diamond, whose dependencies are one visited and one
  skipped edge.\<close>

definition joined_sched :: sched where
  "joined_sched = two_step_sched
     \<lparr>edges := [(mk_edge ''b'' root_stream (''d'', SUCCESS), VISITED), (mk_edge ''c'' root_stream (''d'', SUCCESS), SKIPPED)]\<rparr>"

definition join_stmt :: "join_strategy \<Rightarrow> action_stmt" where
  "join_stmt j = (new_stmt ''d'' ''core.http'')\<lparr>depends_on := [''b.success'', ''c''], join_strategy := j\<rparr>"

lemma join_stmt_parse: "deps_parse (join_stmt j)"
  by (cases j) code_simp+

lemma joined_markers:
  "dep_marker joined_sched root_stream ''d'' ''b.success'' = VISITED"
  "dep_marker joined_sched root_stream ''d'' ''c'' = SKIPPED"
  by code_simp+

theorem is_reachable_spec_witness:
  "is_reachable joined_sched (mk_task ''d'' root_stream 0) (join_stmt JoinAny) = Inr True \<and>
   is_reachable joined_sched (mk_task ''d'' root_stream 0) (join_stmt JoinAll) = Inr False"
proof -
  have "is_reachable joined_sched (mk_task ''d'' root_stream 0) (join_stmt JoinAny) = Inr True"
    unfolding is_reachable_spec [OF join_stmt_parse] by (simp add: join_stmt_def mk_task_def joined_markers)
  moreover have "is_reachable joined_sched (mk_task ''d'' root_stream 0) (join_stmt JoinAll) = Inr False"
    unfolding is_reachable_spec [OF join_stmt_parse] by (simp add: join_stmt_def mk_task_def joined_markers)
  ultimately show ?thesis ..
qed

theorem skip_should_propagate_spec_witness:
  "skip_should_propagate joined_sched (mk_task ''d'' root_stream 0) (join_stmt JoinAny) = Inr False"
  unfolding skip_should_propagate_spec [OF join_stmt_parse]
  by (simp add: join_stmt_def mk_task_def joined_markers)

end
