(* ===== verification/Scheduler_Frame.thy ===== *)
theory Scheduler_Frame
  imports Scheduler_Queue
begin

text \<open>
  What no coroutine of the scheduler can do. The contract \<open>sched_frame\<close> is a relation between the
  state at the start of a segment (after a request was answered) and at its end, closed under the
  elementary updates of the handlers; every handler then respects it, whatever the responses are and
  whatever other coroutines did in between. Its interpretations: the static configuration never
  changes, the queue is only appended to, and recorded workflow failures are never removed.
\<close>

named_theorems guar_intros \<open>handlers that respect a frame relation\<close>

locale sched_frame =
  fixes env :: sched_env and rel :: "sched \<Rightarrow> sched \<Rightarrow> bool"
  assumes rel_refl: "rel s s"
    and rel_trans: "rel s1 s2 \<Longrightarrow> rel s2 s3 \<Longrightarrow> rel s1 s3"
    and rel_edges: "rel s (s\<lparr>edges := a\<rparr>)"
    and rel_indegrees: "rel s (s\<lparr>indegrees := b\<rparr>)"
    and rel_completed: "rel s (s\<lparr>completed_tasks := c\<rparr>)"
    and rel_stream_exceptions: "rel s (s\<lparr>stream_exceptions := x\<rparr>)"
    and rel_loop_filter: "rel s (s\<lparr>loop_indices := dict_filter P (loop_indices s)\<rparr>)"
    and rel_loop_pop: "rel s (s\<lparr>loop_indices := dict_pop lk (loop_indices s)\<rparr>)"
    and rel_loop_next: "LoopEndArgs env d = Inr la \<Longrightarrow> n + 1 < le_max_iterations la \<Longrightarrow>
      rel s (s\<lparr>loop_indices := dict_set lk (n + 1) (loop_indices s)\<rparr>)"
    and rel_loop_start_skips: "rel s (s\<lparr>loop_start_skips := f\<rparr>)"
    and rel_set_action_result: "rel s (set_action_result sid r tr s)"
    and rel_open_stream: "rel s (open_stream sid (stream_new r ix (Some sid)) ctx s)"
    and rel_remove_streams: "rel s (remove_streams rem s)"
    and rel_task_streams: "rel s (s\<lparr>task_streams := i\<rparr>)"
    and rel_open_streams: "rel s (s\<lparr>open_streams := j\<rparr>)"
    and rel_queue: "rel s (s\<lparr>queue := queue s @ [t]\<rparr>)"
    and rel_task_exceptions: "rel s (s\<lparr>task_exceptions := dict_set k v (task_exceptions s)\<rparr>)"
begin

lemmas rel_prims =
  rel_refl rel_edges rel_indegrees rel_completed rel_stream_exceptions rel_loop_filter rel_loop_pop
  rel_loop_start_skips rel_set_action_result rel_open_stream rel_remove_streams rel_task_streams
  rel_open_streams rel_queue rel_task_exceptions

definition guar :: "'a sc \<Rightarrow> bool" where
  "guar m \<longleftrightarrow> (\<forall>s0 s. rel s0 s \<longrightarrow>
     seg (\<lambda>_. True) (\<lambda>_ _. True) rel (\<lambda>s0 s _. rel s0 s) (\<lambda>s0 s _. rel s0 s) s0 (m s))"

lemma guarD:
  "guar m \<Longrightarrow> rel s0 s \<Longrightarrow>
     seg (\<lambda>_. True) (\<lambda>_ _. True) rel (\<lambda>s0 s _. rel s0 s) (\<lambda>s0 s _. rel s0 s) s0 (m s)"
  by (simp add: guar_def)

lemma guar_return [guar_intros]: "guar (return x)"
  by (simp add: guar_def)

lemma guar_raise [guar_intros]: "guar (raise e)"
  by (simp add: guar_def)

lemma guar_gets [guar_intros]: "guar (gets f)"
  by (simp add: guar_def)

lemma guar_modify [guar_intros]: "(\<And>s. rel s (f s)) \<Longrightarrow> guar (modify f)"
  by (auto simp: guar_def intro: rel_trans)

lemma guar_await [guar_intros]: "guar (await q)"
  by (auto simp: guar_def seg_Await_iff rel_refl)

lemma guar_bind [guar_intros]: "guar m \<Longrightarrow> (\<And>x. guar (f x)) \<Longrightarrow> guar (bind m f)"
  unfolding guar_def by (blast intro: seg_bind)

lemma guar_andthen [guar_intros]: "guar m \<Longrightarrow> guar n \<Longrightarrow> guar (andthen m n)"
  unfolding guar_def by (blast intro: seg_andthen)

lemma guar_catch [guar_intros]: "guar m \<Longrightarrow> (\<And>e. guar (h e)) \<Longrightarrow> guar (catch m h)"
  unfolding guar_def by (blast intro: seg_catch)

lemma guar_finalize [guar_intros]: "guar m \<Longrightarrow> (\<And>s. rel s (fin s)) \<Longrightarrow> guar (finalize m fin)"
  unfolding guar_def by (blast intro: seg_finalize rel_trans)

lemma guar_for_each [guar_intros]: "(\<And>x. guar (f x)) \<Longrightarrow> guar (for_each xs f)"
  by (induction xs) (auto intro: guar_intros)

lemma guar_lift_sum [guar_intros]: "guar (lift_sum x)"
  by (cases x) (auto intro: guar_intros)

lemma guar_get_or_raise [guar_intros]: "guar (get_or_raise e x)"
  by (cases x) (auto intro: guar_intros)

lemma guar_if [guar_intros]: "(b \<Longrightarrow> guar m) \<Longrightarrow> (\<not> b \<Longrightarrow> guar n) \<Longrightarrow> guar (if b then m else n)"
  by simp

lemma guar_option [guar_intros]: "guar n \<Longrightarrow> (\<And>x. guar (f x)) \<Longrightarrow> guar (case o' of None \<Rightarrow> n | Some x \<Rightarrow> f x)"
  by (cases o') simp_all

lemma guar_prod [guar_intros]: "(\<And>a b. guar (f a b)) \<Longrightarrow> guar (case p of (a, b) \<Rightarrow> f a b)"
  by (cases p) simp

lemma guar_let [guar_intros]: "(\<And>x. guar (f x)) \<Longrightarrow> guar (Let y f)"
  by simp

lemma guar_response [guar_intros]:
  "(\<And>a b. guar (f1 a b)) \<Longrightarrow> (\<And>a. guar (f2 a)) \<Longrightarrow> (\<And>a. guar (f3 a)) \<Longrightarrow> (\<And>a b. guar (f4 a b)) \<Longrightarrow>
   guar f5 \<Longrightarrow> (\<And>a. guar (f6 a)) \<Longrightarrow> guar (case_response f1 f2 f3 f4 f5 f6 r)"
  by (cases r) simp_all

lemma guar_catch_exception [guar_intros]: "guar m \<Longrightarrow> (\<And>e. guar (h e)) \<Longrightarrow> guar (catch_exception m h)"
  unfolding catch_exception_def by (intro guar_intros)

lemma guar_catch_application_error [guar_intros]:
  "guar m \<Longrightarrow> (\<And>e. guar (h e)) \<Longrightarrow> guar (catch_application_error m h)"
  unfolding catch_application_error_def by (intro guar_intros)

text \<open>The handlers, bottom up.\<close>

lemma rel_mark_edge: "rel s (mark_edge e m s)"
  unfolding mark_edge_def by (rule rel_edges)

lemma guar_queue_next [guar_intros]: "guar (queue_next t U d)"
  unfolding queue_next_def by (intro guar_intros rel_mark_edge rel_prims)

lemma guar_queue_tasks [guar_intros]: "guar (queue_tasks t U)"
  unfolding queue_tasks_def by (intro guar_intros)

lemma guar_out_edges [guar_intros]: "guar (out_edges r sid P)"
  unfolding out_edges_def by (intro guar_intros)

lemma guar_paths [guar_intros]:
  "guar (handle_error_path env t exc fw)" "guar (handle_success_path t)" "guar (queue_all_skipped t)"
  unfolding handle_error_path_def handle_success_path_def queue_all_skipped_def
  by (intro guar_intros rel_prims)+

lemma guar_contexts [guar_intros]: "guar (get_context sid)" "guar (get_action_context sid)" "guar (build_context env stmt sid)"
  unfolding get_action_context_def get_context_def build_context_def by (intro guar_intros)+

lemma guar_awaits [guar_intros]:
  "guar (resolve_expression e c)" "guar (await_stored q)" "guar (await_final q)" "guar (async_sleep d)" "guar (execute t stmt)"
  unfolding resolve_expression_def await_stored_def await_final_def async_sleep_def execute_def
  by (intro guar_intros rel_set_action_result)+

lemma rel_cleanup: "rel s (cleanup_loop_descendant_streams region sid s)"
  by (simp add: cleanup_loop_descendant_streams_def Let_def rel_refl rel_remove_streams)

lemma rel_reset_tables: "rel s (s\<lparr>task_streams := a, open_streams := b, edges := c\<rparr>)"
  by (rule rel_trans, rule rel_task_streams, rule rel_trans, rule rel_open_streams, rule rel_edges)

lemma guar_reset [guar_intros]: "guar (reset_loop_iteration_state region sid)"
  unfolding reset_loop_iteration_state_def reset_member_def
  by (intro guar_intros rel_cleanup rel_reset_tables rel_prims)

lemma rel_next_iteration:
  assumes "LoopEndArgs env d = Inr a" and "n + 1 < le_max_iterations a"
  shows "rel s (s\<lparr>loop_indices := dict_set lk (n + 1) (loop_indices s), queue := queue s @ [t]\<rparr>)"
  using rel_trans [OF rel_loop_next [OF assms] rel_queue] by simp

lemma guar_loop_start [guar_intros]: "guar (handle_loop_start env t stmt b)"
  unfolding handle_loop_start_def by (intro guar_intros rel_prims)

lemma guar_loop_continue:
  assumes "LoopEndArgs env d = Inr a"
  shows "guar (loop_continue region t a n)"
  unfolding loop_continue_def by (intro guar_intros rel_next_iteration [OF assms]) simp

lemma guar_bind_lift: "(\<And>a. x = Inr a \<Longrightarrow> guar (f a)) \<Longrightarrow> guar (bind (lift_sum x) f)"
  by (cases x) (auto intro: guar_intros)

lemma guar_loop_end [guar_intros]: "guar (handle_loop_end env t stmt b)"
  unfolding handle_loop_end_def loop_condition_def
  by (rule guar_bind [OF guar_gets], rule guar_bind [OF guar_get_or_raise], rule guar_option [OF _ guar_raise],
      rule guar_bind_lift) (intro guar_intros rel_prims guar_loop_continue, assumption)

lemma guar_skip_stream [guar_intros]: "guar (handle_scatter_skip_stream t sid)"
  unfolding handle_scatter_skip_stream_def stream_skip_def Let_def by (intro guar_intros rel_open_stream)

lemma guar_scatter_item [guar_intros]: "guar (scatter_item t st iv i)"
  unfolding scatter_item_def Let_def by (intro guar_intros rel_open_stream) (simp add: rel_prims)

lemma guar_scatter [guar_intros]: "guar (handle_scatter env t stmt b)"
  unfolding handle_scatter_def by (intro guar_intros rel_prims)

lemma guar_gather_parts [guar_intros]:
  "guar (get_parent_stream_id_safe sid)" "guar (stream_leaf_or_raise sid)" "guar (close_stream k)"
  "guar (place_item r p k ix v)" "guar (handle_gather_result env t stmt p ga r)"
  unfolding get_parent_stream_id_safe_def stream_leaf_or_raise_def close_stream_def place_item_def handle_gather_result_def
  by (intro guar_intros rel_set_action_result rel_prims)+

lemma guar_gather [guar_intros]: "guar (handle_gather env t stmt b)"
  unfolding handle_gather_def gather_in_skip_stream_def gather_in_stream_def handle_gather_skip_stream_def
  by (intro guar_intros rel_set_action_result)

lemma guar_skip_path [guar_intros]: "guar (handle_skip_path env t stmt)"
  unfolding handle_skip_path_def by (intro guar_intros)

lemma guar_outcome [guar_intros]:
  "guar m \<Longrightarrow> (\<And>e. guar (f e)) \<Longrightarrow> guar (case x of RunIfSkipped \<Rightarrow> m | RunIfContinue e \<Rightarrow> f e)"
  by (cases x) simp_all

lemma guar_platform [guar_intros]:
  "(\<And>e. guar (f e)) \<Longrightarrow> guar g \<Longrightarrow> guar (case e of PlatformExecutionError e' \<Rightarrow> f e' | _ \<Rightarrow> g)"
  by (cases e) simp_all

lemma guar_schedule_body [guar_intros]: "guar (schedule_body env t d stmt)"
  unfolding schedule_body_def run_if_phase_def task_should_skip_def run_action_def
  by (intro guar_intros)

lemma guar_schedule_task: "guar (schedule_task env t)"
  unfolding schedule_task_def by (intro guar_intros rel_prims)

end

section \<open>Interpretations\<close>

definition same_config :: "sched \<Rightarrow> sched \<Rightarrow> bool" where
  "same_config s s' \<longleftrightarrow>
     tasks s' = tasks s \<and> adj s' = adj s \<and> max_pending_tasks s' = max_pending_tasks s \<and>
     action_scopes s' = action_scopes s \<and> scope_hierarchy s' = scope_hierarchy s \<and>
     loop_regions s' = loop_regions s \<and> loop_regions_by_end s' = loop_regions_by_end s \<and>
     root_context s' = root_context s"

text \<open>The updates the contract names, for interpretations that see through them.\<close>

lemmas update_defs = set_action_result_def open_stream_def remove_streams_def

interpretation config: sched_frame env same_config for env
  by unfold_locales (auto simp: same_config_def update_defs split: option.splits)

definition queue_extends :: "sched \<Rightarrow> sched \<Rightarrow> bool" where
  "queue_extends s s' \<longleftrightarrow> (\<exists>new. queue s' = queue s @ new)"

interpretation fifo: sched_frame env queue_extends for env
  by unfold_locales (auto simp: queue_extends_def update_defs split: option.splits)

definition keeps_failures :: "sched \<Rightarrow> sched \<Rightarrow> bool" where
  "keeps_failures s s' \<longleftrightarrow> fst ` set (task_exceptions s) \<subseteq> fst ` set (task_exceptions s')"

interpretation failures: sched_frame env keeps_failures for env
  by unfold_locales (auto simp: keeps_failures_def update_defs split: option.splits)

end
