(* ===== verification/Scheduler_Run.thy ===== *)
theory Scheduler_Run
  imports Scheduler_Frame
begin

text \<open>
  The scheduler's main loop (\<open>DSLScheduler.start\<close>) as a transition system: the main coroutine with
  its program point, the set of pending asyncio tasks, and the event loop that interleaves them.
  Coroutines run only while the main coroutine is suspended, and a response to a request may come in
  any order. A transition is labelled with the task it takes from the queue, if any.
\<close>

section \<open>Configurations\<close>

datatype entry =
    ENew task
  | EWait task request "response \<Rightarrow> sched \<Rightarrow> sched \<times> (sched, request, response, exn, unit) co"
  | EDone task "exn option"

datatype main_pc =
    MLoop
  | MSpawn nat
  | MYield nat
  | MWait
  | MStop
  | MReturned "(string, task_exception_info) dict option"

record run_config =
  cs :: sched
  pending :: "entry list"
  pc :: main_pc

definition is_done :: "entry \<Rightarrow> bool" where
  "is_done e = (case e of EDone _ _ \<Rightarrow> True | _ \<Rightarrow> False)"

primrec entry_task :: "entry \<Rightarrow> task" where
  "entry_task (ENew t) = t"
| "entry_task (EWait t _ _) = t"
| "entry_task (EDone t _) = t"

text \<open>The entry of a coroutine that ran to its next await, its return or its exception.\<close>

definition entry_of :: "task \<Rightarrow> (sched, request, response, exn, unit) co \<Rightarrow> entry" where
  "entry_of t c = (case c of Ret _ \<Rightarrow> EDone t None | Raise e \<Rightarrow> EDone t (Some e) | Await q k \<Rightarrow> EWait t q k)"

definition discard_done :: "entry list \<Rightarrow> entry list" where
  "discard_done es = filter (\<lambda>e. \<not> is_done e) es"

definition SPAWN_YIELD_EVERY :: nat where
  "SPAWN_YIELD_EVERY = 16"

text \<open>All tasks whose counter is zero are put on the queue first.\<close>

definition ready_tasks :: "sched \<Rightarrow> task list" where
  "ready_tasks s = map (\<lambda>((r, sid), _). mk_task r sid 0) (filter (\<lambda>(_, n). n = 0) (indegrees s))"

definition start_config :: "sched \<Rightarrow> run_config" where
  "start_config s = \<lparr>cs = s\<lparr>queue := queue s @ ready_tasks s\<rparr>, pending = [], pc = MLoop\<rparr>"

section \<open>Transitions\<close>

inductive sstep ::
  "sched_env \<Rightarrow> (request \<Rightarrow> response \<Rightarrow> bool) \<Rightarrow> run_config \<Rightarrow> task option \<Rightarrow> run_config \<Rightarrow> bool"
  for env R
where
  enter: "pc c = MLoop \<Longrightarrow> task_exceptions (cs c) = [] \<Longrightarrow> queue (cs c) \<noteq> [] \<or> pending c \<noteq> [] \<Longrightarrow>
    sstep env R c None (c\<lparr>pending := discard_done (pending c), pc := MSpawn 0\<rparr>)"
| leave: "pc c = MLoop \<Longrightarrow> task_exceptions (cs c) \<noteq> [] \<or> (queue (cs c) = [] \<and> pending c = []) \<Longrightarrow>
    sstep env R c None (c\<lparr>pc := (if task_exceptions (cs c) \<noteq> [] then MStop else MReturned None)\<rparr>)"
| spawn: "pc c = MSpawn n \<Longrightarrow> task_exceptions (cs c) = [] \<Longrightarrow> queue (cs c) = t # q \<Longrightarrow>
    int (length (pending c)) < max_pending_tasks (cs c) \<Longrightarrow>
    sstep env R c (Some t)
      (c\<lparr>cs := (cs c)\<lparr>queue := q\<rparr>, pending := pending c @ [ENew t],
         pc := (if Suc n mod SPAWN_YIELD_EVERY = 0 then MYield (Suc n) else MSpawn (Suc n))\<rparr>)"
| spawned: "pc c = MSpawn n \<Longrightarrow>
    task_exceptions (cs c) \<noteq> [] \<or> queue (cs c) = [] \<or> max_pending_tasks (cs c) \<le> int (length (pending c)) \<Longrightarrow>
    sstep env R c None
      (c\<lparr>pc := (if task_exceptions (cs c) \<noteq> [] then MStop else if pending c \<noteq> [] then MWait else MLoop)\<rparr>)"
| yielded: "pc c = MYield n \<Longrightarrow>
    sstep env R c None (c\<lparr>pending := discard_done (pending c), pc := MSpawn n\<rparr>)"
| woken: "pc c = MWait \<Longrightarrow> list_ex is_done (pending c) \<Longrightarrow> sstep env R c None (c\<lparr>pc := MLoop\<rparr>)"
| begin_task: "pc c = MWait \<or> pc c = MYield n \<Longrightarrow> pending c = xs @ ENew t # ys \<Longrightarrow>
    schedule_task env t (cs c) = (s', k) \<Longrightarrow>
    sstep env R c None (c\<lparr>cs := s', pending := xs @ entry_of t k # ys\<rparr>)"
| resume: "pc c = MWait \<or> pc c = MYield n \<Longrightarrow> pending c = xs @ EWait t q k # ys \<Longrightarrow> R q r \<Longrightarrow>
    k r (cs c) = (s', k') \<Longrightarrow>
    sstep env R c None (c\<lparr>cs := s', pending := xs @ entry_of t k' # ys\<rparr>)"
| cancel_new: "pc c = MStop \<Longrightarrow> pending c = xs @ ENew t # ys \<Longrightarrow>
    sstep env R c None (c\<lparr>pending := xs @ EDone t (Some CancelledError) # ys\<rparr>)"
| cancel: "pc c = MStop \<Longrightarrow> pending c = xs @ EWait t q k # ys \<Longrightarrow>
    k (RespRaise CancelledError) (cs c) = (s', k') \<Longrightarrow>
    sstep env R c None (c\<lparr>cs := s', pending := xs @ entry_of t k' # ys\<rparr>)"
| stopped: "pc c = MStop \<Longrightarrow> list_all is_done (pending c) \<Longrightarrow>
    sstep env R c None (c\<lparr>pc := MReturned (Some (task_exceptions (cs c)))\<rparr>)"

inductive_cases sstepE: "sstep env R c l c'"

text \<open>A run, with the list of tasks taken from the queue.\<close>

inductive run :: "sched_env \<Rightarrow> (request \<Rightarrow> response \<Rightarrow> bool) \<Rightarrow> run_config \<Rightarrow> task list \<Rightarrow> run_config \<Rightarrow> bool"
  for env R c0
where
  run_start: "run env R c0 [] c0"
| run_step: "run env R c0 tr c \<Longrightarrow> sstep env R c l c' \<Longrightarrow>
    run env R c0 (tr @ (case l of None \<Rightarrow> [] | Some t \<Rightarrow> [t])) c'"

section \<open>Coroutine steps respect the frame relations\<close>

context sched_frame
begin

definition entry_guar :: "entry \<Rightarrow> bool" where
  "entry_guar e =
     (case e of
        EWait _ _ k \<Rightarrow> \<forall>r s. seg (\<lambda>_. True) (\<lambda>_ _. True) rel (\<lambda>s0 s _. rel s0 s) (\<lambda>s0 s _. rel s0 s) s (k r s)
      | _ \<Rightarrow> True)"

lemma entry_guarD:
  assumes "entry_guar (EWait t q k)" and "k r s = (s', k')"
  shows "seg (\<lambda>_. True) (\<lambda>_ _. True) rel (\<lambda>s0 s _. rel s0 s) (\<lambda>s0 s _. rel s0 s) s (s', k')"
  using assms by (simp add: entry_guar_def) metis

lemma seg_entry:
  assumes "seg (\<lambda>_. True) (\<lambda>_ _. True) rel (\<lambda>s0 s _. rel s0 s) (\<lambda>s0 s _. rel s0 s) s0 (s', k)"
  shows "rel s0 s'" and "entry_guar (entry_of t k)"
  using assms by (cases k; simp add: entry_guar_def entry_of_def seg_Await_iff)+

lemma sstep_guar:
  assumes "sstep env R c l c'" and "\<forall>e \<in> set (pending c). entry_guar e"
  shows "(\<forall>e \<in> set (pending c'). entry_guar e) \<and> (l = None \<longrightarrow> rel (cs c) (cs c'))"
  using assms
proof (induction rule: sstep.induct)
  case (begin_task c n xs t ys s' k)
  have "seg (\<lambda>_. True) (\<lambda>_ _. True) rel (\<lambda>s0 s _. rel s0 s) (\<lambda>s0 s _. rel s0 s) (cs c) (schedule_task env t (cs c))"
    by (rule guarD [OF guar_schedule_task rel_refl])
  note seg_entry [OF this [unfolded begin_task.hyps(3)]]
  with begin_task show ?case by auto
next
  case (resume c n xs t q k ys r s' k')
  then have "entry_guar (EWait t q k)" by simp
  note seg_entry [OF entry_guarD [OF this resume.hyps(4)]]
  with resume show ?case by auto
next
  case (cancel c xs t q k ys s' k')
  then have "entry_guar (EWait t q k)" by simp
  note seg_entry [OF entry_guarD [OF this cancel.hyps(3)]]
  with cancel show ?case by auto
qed (auto simp: discard_done_def entry_guar_def rel_refl)

lemma run_guar:
  assumes "run env R c0 tr c" and "pending c0 = []"
  shows "\<forall>e \<in> set (pending c). entry_guar e"
  using assms by (induction rule: run.induct) (auto dest: sstep_guar)

end

section \<open>Properties of every run\<close>

lemma start_config_pending [simp]: "pending (start_config s) = []" "pc (start_config s) = MLoop"
  by (simp_all add: start_config_def)

lemma run_same_config:
  assumes "run env R c0 tr c" and "pending c0 = []"
  shows "same_config (cs c0) (cs c)"
  using assms
proof (induction rule: run.induct)
  case run_start
  show ?case by (rule config.rel_refl)
next
  case (run_step tr c l c')
  have "same_config (cs c) (cs c')"
  proof (cases l)
    case None
    with config.sstep_guar [OF run_step.hyps(2) config.run_guar [OF run_step.hyps(1) run_step.prems]]
    show ?thesis by simp
  next
    case (Some t)
    with run_step.hyps(2) show ?thesis by (auto elim: sstepE simp: same_config_def)
  qed
  with run_step config.rel_trans show ?case by blast
qed

lemma discard_done_length: "length (discard_done es) \<le> length es"
  by (simp add: discard_done_def)

lemma sstep_pending_bound:
  assumes "sstep env R c l c'" and "same_config (cs c) (cs c')"
    and "int (length (pending c)) \<le> max_pending_tasks (cs c)"
  shows "int (length (pending c')) \<le> max_pending_tasks (cs c')"
  using assms
  by (induction rule: sstep.induct)
    (auto simp: same_config_def intro: order_trans [OF of_nat_mono [OF discard_done_length]])

text \<open>C4: the concurrency cap. Whatever the workflow does and however its coroutines interleave, the
  scheduler never has more than \<open>max_pending_tasks\<close> asyncio tasks pending.\<close>

theorem pending_tasks_bounded:
  assumes "run env R (start_config s) tr c" and "1 \<le> max_pending_tasks s"
  shows "int (length (pending c)) \<le> max_pending_tasks s"
proof -
  have "int (length (pending c)) \<le> max_pending_tasks (cs c)"
    using assms(1)
  proof (induction rule: run.induct)
    case run_start
    then show ?case using assms(2) by (simp add: start_config_def)
  next
    case (run_step tr c l c')
    have "same_config (cs (start_config s)) (cs c)" and "same_config (cs (start_config s)) (cs c')"
      using run_same_config [OF run_step.hyps(1)] run_same_config [OF run.run_step [OF run_step.hyps]] by simp_all
    then have "same_config (cs c) (cs c')" by (simp add: same_config_def)
    with run_step sstep_pending_bound show ?case by blast
  qed
  moreover have "max_pending_tasks (cs c) = max_pending_tasks s"
    using run_same_config [OF assms(1)] by (simp add: same_config_def start_config_def)
  ultimately show ?thesis by simp
qed

text \<open>The queue is first in, first out: starting tasks and appending are the only changes.\<close>

lemma sstep_fifo:
  assumes "sstep env R c l c'" and "\<forall>e \<in> set (pending c). fifo.entry_guar e"
  shows "\<exists>new. (case l of None \<Rightarrow> [] | Some t \<Rightarrow> [t]) @ queue (cs c') = queue (cs c) @ new"
proof (cases l)
  case None
  with fifo.sstep_guar [OF assms] show ?thesis by (auto simp: queue_extends_def)
next
  case (Some t)
  with assms(1) show ?thesis by (auto elim: sstepE)
qed

text \<open>C11: no task is dropped or overtaken. Between any two points of a run, the tasks started in
  between followed by the tasks still queued are the tasks that were queued before followed by newly
  queued ones.\<close>

theorem queue_is_fifo:
  assumes "run env R (start_config s) tr1 c1" and "run env R c1 tr2 c2"
  shows "\<exists>new. tr2 @ queue (cs c2) = queue (cs c1) @ new"
  using assms(2)
proof (induction rule: run.induct)
  case (run_step tr c l c')
  have trans: "run env R (start_config s) (tr1 @ tr) c"
    using run_step.hyps(1)
  proof (induction rule: run.induct)
    case (run_step tr c l c')
    from run.run_step [OF run_step.IH run_step.hyps(2)] show ?case by simp
  qed (use assms(1) in simp)
  obtain new where new: "tr @ queue (cs c) = queue (cs c1) @ new" using run_step.IH by blast
  obtain new' where "(case l of None \<Rightarrow> [] | Some t \<Rightarrow> [t]) @ queue (cs c') = queue (cs c) @ new'"
    using sstep_fifo [OF run_step.hyps(2) fifo.run_guar [OF trans]] by auto
  with new have "(tr @ (case l of None \<Rightarrow> [] | Some t \<Rightarrow> [t])) @ queue (cs c') = queue (cs c1) @ new @ new'"
    by (metis append.assoc)
  then show ?case by blast
qed simp

definition result_inv :: "run_config \<Rightarrow> bool" where
  "result_inv c \<longleftrightarrow>
     (case pc c of
        MStop \<Rightarrow> task_exceptions (cs c) \<noteq> []
      | MWait \<Rightarrow> pending c \<noteq> []
      | MReturned None \<Rightarrow> task_exceptions (cs c) = [] \<and> queue (cs c) = [] \<and> pending c = []
      | MReturned (Some ex) \<Rightarrow> ex = task_exceptions (cs c) \<and> ex \<noteq> [] \<and> list_all is_done (pending c)
      | _ \<Rightarrow> True)"

lemma sstep_result_inv:
  assumes "sstep env R c l c'" and "result_inv c" and "\<forall>e \<in> set (pending c). failures.entry_guar e"
  shows "result_inv c'"
proof -
  from failures.sstep_guar [OF assms(1,3)] have "l = None \<Longrightarrow> keeps_failures (cs c) (cs c')" by simp
  with assms(1,2) show ?thesis
    by (induction rule: sstep.induct) (auto simp: result_inv_def keeps_failures_def)
qed

lemma run_result_inv:
  assumes "run env R (start_config s) tr c"
  shows "result_inv c"
  using assms
proof (induction rule: run.induct)
  case run_start
  show ?case by (simp add: result_inv_def)
next
  case (run_step tr c l c')
  then show ?case using sstep_result_inv failures.run_guar [OF run_step.hyps(1)] by simp
qed

text \<open>C3: the result of a run. If \<open>start\<close> returns \<open>None\<close>, no failure was recorded, no task is
  pending and the queue is empty; if it returns a dictionary, it is the recorded failures, it is not
  empty, and every coroutine has finished. In particular a recorded failure is never lost.\<close>

theorem run_result:
  assumes "run env R (start_config s) tr c" and "pc c = MReturned res"
  shows "case res of
      None \<Rightarrow> task_exceptions (cs c) = [] \<and> queue (cs c) = [] \<and> pending c = []
    | Some ex \<Rightarrow> ex = task_exceptions (cs c) \<and> ex \<noteq> [] \<and> list_all is_done (pending c)"
  using run_result_inv [OF assms(1)] assms(2) by (simp add: result_inv_def)

text \<open>A coroutine that is not done can go on while the loop waits, and be cancelled while it stops.\<close>

lemma pending_advances:
  assumes "\<forall>q. \<exists>r. R q r" and "pc c = MWait" and "pending c = xs @ e # ys" and "\<not> is_done e"
  shows "\<exists>l c'. sstep env R c l c'"
proof (cases e)
  case (ENew t)
  obtain s' k where "schedule_task env t (cs c) = (s', k)" by fastforce
  with assms ENew sstep.begin_task show ?thesis by blast
next
  case (EWait t q k)
  from assms(1) obtain r where "R q r" by blast
  moreover obtain s' k' where "k r (cs c) = (s', k')" by fastforce
  ultimately show ?thesis using assms EWait sstep.resume by blast
qed (use assms in \<open>simp add: is_done_def\<close>)

lemma pending_cancelled:
  assumes "pc c = MStop" and "pending c = xs @ e # ys" and "\<not> is_done e"
  shows "\<exists>l c'. sstep env R c l c'"
proof (cases e)
  case (EWait t q k)
  obtain s' k' where "k (RespRaise CancelledError) (cs c) = (s', k')" by fastforce
  with assms EWait sstep.cancel show ?thesis by blast
next
  case (ENew t)
  with assms sstep.cancel_new show ?thesis by blast
qed (use assms in \<open>simp add: is_done_def\<close>)

text \<open>C5: the scheduler is never stuck. From every configuration a run can reach, unless it has
  returned, some transition is possible as long as every request can be answered.\<close>

theorem run_not_stuck:
  assumes "\<forall>q. \<exists>r. R q r" and "\<forall>res. pc c \<noteq> MReturned res" and "run env R (start_config s) tr c"
  shows "\<exists>l c'. sstep env R c l c'"
proof -
  show ?thesis
  proof (cases "pc c")
    case MLoop
    then show ?thesis using sstep.enter sstep.leave by blast
  next
    case (MSpawn n)
    then show ?thesis
      using sstep.spawn [of c n] sstep.spawned [of c n] by (cases "queue (cs c)") (metis not_less)+
  next
    case (MYield n)
    then show ?thesis using sstep.yielded by blast
  next
    case MWait
    with run_result_inv [OF assms(3)] have ne: "pending c \<noteq> []" by (simp add: result_inv_def)
    show ?thesis
    proof (cases "list_ex is_done (pending c)")
      case True
      with MWait sstep.woken show ?thesis by blast
    next
      case False
      obtain e es where "pending c = [] @ e # es" using ne by (cases "pending c") auto
      with False MWait pending_advances [OF assms(1), of c "[]" e es] show ?thesis by auto
    qed
  next
    case MStop
    show ?thesis
    proof (cases "list_all is_done (pending c)")
      case True
      with MStop sstep.stopped show ?thesis by blast
    next
      case False
      then obtain e where "e \<in> set (pending c)" "\<not> is_done e" by (auto simp: list_all_iff)
      with MStop pending_cancelled show ?thesis by (metis split_list)
    qed
  qed (use assms(2) in simp)
qed

end
