(* ===== verification/Scheduler_Eval.thy ===== *)
theory Scheduler_Eval
  imports Scheduler_Run
begin

text \<open>
  Runs that can be computed. One schedule of the event loop as a function, a set of rewrite rules
  that evaluates the handlers on a concrete state (continuations are not simplified before they are
  resumed), and concrete runs of small workflows.
\<close>

section \<open>An executable schedule\<close>

text \<open>
  One run made deterministic: the oldest unfinished coroutine goes first and requests are answered
  by a function. Every step is a transition, so a concrete run can be computed.
\<close>

fun advance_first :: "sched_env \<Rightarrow> (request \<Rightarrow> response) \<Rightarrow> sched \<Rightarrow> entry list \<Rightarrow> sched \<times> entry list" where
  "advance_first env ans s [] = (s, [])"
| "advance_first env ans s (ENew t # es) = (case schedule_task env t s of (s', k) \<Rightarrow> (s', entry_of t k # es))"
| "advance_first env ans s (EWait t q k # es) = (case k (ans q) s of (s', k') \<Rightarrow> (s', entry_of t k' # es))"
| "advance_first env ans s (EDone t e # es) = (case advance_first env ans s es of (s', es') \<Rightarrow> (s', EDone t e # es'))"

definition sim_step :: "sched_env \<Rightarrow> (request \<Rightarrow> response) \<Rightarrow> run_config \<Rightarrow> run_config" where
  "sim_step env ans c =
     (case pc c of
        MLoop \<Rightarrow>
          if task_exceptions (cs c) = [] \<and> (queue (cs c) \<noteq> [] \<or> pending c \<noteq> [])
          then c\<lparr>pending := discard_done (pending c), pc := MSpawn 0\<rparr>
          else c\<lparr>pc := (if task_exceptions (cs c) \<noteq> [] then MStop else MReturned None)\<rparr>
      | MSpawn n \<Rightarrow>
          (case queue (cs c) of
             t # q \<Rightarrow>
               if task_exceptions (cs c) = [] \<and> int (length (pending c)) < max_pending_tasks (cs c)
               then c\<lparr>cs := (cs c)\<lparr>queue := q\<rparr>, pending := pending c @ [ENew t],
                      pc := (if Suc n mod SPAWN_YIELD_EVERY = 0 then MYield (Suc n) else MSpawn (Suc n))\<rparr>
               else c\<lparr>pc := (if task_exceptions (cs c) \<noteq> [] then MStop else if pending c \<noteq> [] then MWait else MLoop)\<rparr>
           | [] \<Rightarrow>
               c\<lparr>pc := (if task_exceptions (cs c) \<noteq> [] then MStop else if pending c \<noteq> [] then MWait else MLoop)\<rparr>)
      | MYield n \<Rightarrow> c\<lparr>pending := discard_done (pending c), pc := MSpawn n\<rparr>
      | MWait \<Rightarrow>
          if list_ex is_done (pending c) then c\<lparr>pc := MLoop\<rparr>
          else (case advance_first env ans (cs c) (pending c) of (s', es) \<Rightarrow> c\<lparr>cs := s', pending := es\<rparr>)
      | MStop \<Rightarrow>
          if list_all is_done (pending c) then c\<lparr>pc := MReturned (Some (task_exceptions (cs c)))\<rparr> else c
      | MReturned _ \<Rightarrow> c)"

definition simulate :: "sched_env \<Rightarrow> (request \<Rightarrow> response) \<Rightarrow> nat \<Rightarrow> run_config \<Rightarrow> run_config" where
  "simulate env ans n c = (sim_step env ans ^^ n) c"

lemma sim_step_spec:
  "sim_step env ans c = c \<or> (\<exists>l. sstep env (\<lambda>q r. r = ans q) c l (sim_step env ans c))"
proof (cases "pc c")
  case MLoop
  then show ?thesis
    using sstep.enter [of c env "\<lambda>q r. r = ans q"] sstep.leave [of c env "\<lambda>q r. r = ans q"]
    by (auto simp: sim_step_def)
next
  case (MSpawn n)
  then show ?thesis
    using sstep.spawn [of c n _ _ env "\<lambda>q r. r = ans q"] sstep.spawned [of c n env "\<lambda>q r. r = ans q"]
    by (auto simp: sim_step_def not_less split: list.splits)
next
  case (MYield n)
  then show ?thesis using sstep.yielded [of c n env "\<lambda>q r. r = ans q"] by (auto simp: sim_step_def)
next
  case MWait
  show ?thesis
  proof (cases "list_ex is_done (pending c) \<or> pending c = []")
    case True
    then show ?thesis
      using MWait sstep.woken [of c env "\<lambda>q r. r = ans q"] by (auto simp: sim_step_def)
  next
    case False
    then obtain e es where p: "pending c = [] @ e # es" by (cases "pending c") auto
    have "\<exists>l. sstep env (\<lambda>q r. r = ans q) c l (sim_step env ans c)"
    proof (cases e)
      case (ENew t)
      obtain s' k where k: "schedule_task env t (cs c) = (s', k)" by fastforce
      with sstep.begin_task [OF _ p [unfolded ENew] k, of 0 "\<lambda>q r. r = ans q"] MWait False p ENew show ?thesis
        by (auto simp: sim_step_def)
    next
      case (EWait t q k)
      obtain s' k' where k: "k (ans q) (cs c) = (s', k')" by fastforce
      with sstep.resume [OF _ p [unfolded EWait] _ k, of 0 "\<lambda>q r. r = ans q" env] MWait False p EWait show ?thesis
        by (auto simp: sim_step_def)
    qed (use False p in \<open>simp add: is_done_def\<close>)
    then show ?thesis ..
  qed
next
  case MStop
  then show ?thesis using sstep.stopped [of c env "\<lambda>q r. r = ans q"] by (auto simp: sim_step_def)
qed (simp add: sim_step_def)

lemma simulate_run: "\<exists>tr. run env (\<lambda>q r. r = ans q) c tr (simulate env ans n c)"
proof (induction n)
  case 0
  show ?case by (auto simp: simulate_def intro: run.run_start)
next
  case (Suc n)
  then obtain tr where tr: "run env (\<lambda>q r. r = ans q) c tr (simulate env ans n c)" ..
  from sim_step_spec [of env ans "simulate env ans n c"] show ?case
  proof
    assume "sim_step env ans (simulate env ans n c) = simulate env ans n c"
    with tr show ?thesis by (auto simp: simulate_def)
  next
    assume "\<exists>l. sstep env (\<lambda>q r. r = ans q) (simulate env ans n c) l (sim_step env ans (simulate env ans n c))"
    with tr run.run_step show ?thesis by (fastforce simp: simulate_def)
  qed
qed

text \<open>A sample environment: every action succeeds with result 1, every condition holds.\<close>

fun sample_answer :: "request \<Rightarrow> response" where
  "sample_answer (ReqExecute stmt sid) = RespExec (Some (from_result (VInt 1))) None"
| "sample_answer (ReqEvalExpr e c) = RespValue (VBool True)"
| "sample_answer (ReqScatterInput st sid v c k) = RespStored (new_inline v None)"
| "sample_answer (ReqEvalObject e c k) = RespStored (new_inline (VStr e) None)"
| "sample_answer (ReqFinalizeGather xs k d st) = RespFinal (new_inline (VList (map VStored xs)) None) []"
| "sample_answer (ReqSleep d) = RespDone"

section \<open>Evaluating the handlers\<close>

text \<open>Congruence rules: the continuation of a suspended coroutine is left alone.\<close>

lemma eval_congs:
  "q = q' \<Longrightarrow> Await q k = Await q' k"
  "t = t' \<Longrightarrow> q = q' \<Longrightarrow> EWait t q k2 = EWait t' q' k2"
  "c = c' \<Longrightarrow> s = s' \<Longrightarrow> bindC c f s = bindC c' f s'"
  "d = d' \<Longrightarrow> s = s' \<Longrightarrow> catchC d h s = catchC d' h s'"
  "d = d' \<Longrightarrow> s = s' \<Longrightarrow> finallyC d g s = finallyC d' g s'"
  "s = s' \<Longrightarrow> bind m f2 s = bind m f2 s'"
  "s = s' \<Longrightarrow> andthen m2 n2 s = andthen m2 n2 s'"
  "s = s' \<Longrightarrow> catch m3 h2 s = catch m3 h2 s'"
  "s = s' \<Longrightarrow> finalize m3 g s = finalize m3 g s'"
  by simp_all

lemmas eval_handlers =
  queue_next_def [THEN fun_cong] queue_tasks_def [THEN fun_cong] out_edges_def [THEN fun_cong]
  handle_error_path_def [THEN fun_cong] handle_success_path_def [THEN fun_cong]
  queue_all_skipped_def [THEN fun_cong] get_context_def [THEN fun_cong]
  get_action_context_def [THEN fun_cong] build_context_def [THEN fun_cong]
  resolve_expression_def [THEN fun_cong] await_stored_def [THEN fun_cong]
  await_final_def [THEN fun_cong] async_sleep_def [THEN fun_cong] execute_def [THEN fun_cong]
  catch_exception_def [THEN fun_cong] catch_application_error_def [THEN fun_cong]
  reset_member_def [THEN fun_cong] reset_loop_iteration_state_def [THEN fun_cong]
  handle_loop_start_def [THEN fun_cong] loop_condition_def [THEN fun_cong]
  loop_continue_def [THEN fun_cong] handle_loop_end_def [THEN fun_cong]
  handle_scatter_skip_stream_def [THEN fun_cong] scatter_item_def [THEN fun_cong]
  handle_scatter_def [THEN fun_cong] get_parent_stream_id_safe_def [THEN fun_cong]
  stream_leaf_or_raise_def [THEN fun_cong] place_item_def [THEN fun_cong]
  handle_gather_result_def [THEN fun_cong] handle_gather_skip_stream_def [THEN fun_cong]
  close_stream_def [THEN fun_cong] gather_in_skip_stream_def [THEN fun_cong]
  gather_in_stream_def [THEN fun_cong] handle_gather_def [THEN fun_cong]
  handle_skip_path_def [THEN fun_cong] task_should_skip_def [THEN fun_cong]
  run_if_phase_def [THEN fun_cong] run_action_def [THEN fun_cong]
  schedule_body_def [THEN fun_cong] schedule_task_def [THEN fun_cong]

lemmas eval_pure =
  mark_edge_def mk_edge_def mk_task_def tkey_def get_edge_by_refs_def edge_marker_of_def
  edge_has_marker_def skip_should_propagate_def count_marker_def is_reachable_def
  edge_components_from_dep_def edge_value_def get_default_def set_action_result_def
  is_application_error_def entry_of_def discard_done_def is_done_def sim_step_def
  SPAWN_YIELD_EVERY_def TRANSFORM_GATHER_def TRANSFORM_SCATTER_def LOOP_END_def LOOP_START_def
  start_config_def ready_tasks_def Let_def

lemmas args_eval =
  ScatterArgs_def GatherArgs_def LoopEndArgs_def field_def field_default_def expression_str_def
  expression_or_list_def nullable_def bounded_int_def StreamErrorHandlingStrategy_def

lemma simulate_unfold:
  "simulate env ans 0 c = c"
  "simulate env ans (Suc n) c = simulate env ans n (sim_step env ans c)"
  "simulate env ans (numeral k) c = simulate env ans (pred_numeral k) (sim_step env ans c)"
  by (simp_all add: simulate_def funpow_swap1 numeral_eq_Suc)

lemmas run_eval = eval_handlers eval_pure simulate_unfold bind_apply andthen_apply catch_apply finalize_apply

section \<open>Concrete runs\<close>

definition chain_actions :: "action_stmt list" where
  "chain_actions = [new_stmt ''a'' ''core.http'', (new_stmt ''b'' ''core.http'')\<lparr>depends_on := [''a'']\<rparr>]"

definition chain_sched :: sched where
  "chain_sched =
     \<lparr>tasks = [(''a'', new_stmt ''a'' ''core.http''), (''b'', (new_stmt ''b'' ''core.http'')\<lparr>depends_on := [''a'']\<rparr>)],
      adj = [(''a'', [(''b'', SUCCESS)]), (''b'', [])], max_pending_tasks = 4,
      action_scopes = [(''a'', ROOT_SCOPE), (''b'', ROOT_SCOPE)], scope_hierarchy = [(ROOT_SCOPE, None)],
      loop_regions = [], loop_regions_by_end = [], root_context = empty_context, queue = [],
      indegrees = [((''a'', root_stream), 0), ((''b'', root_stream), 1)],
      completed_tasks = {}, edges = [], task_exceptions = [], stream_exceptions = [],
      loop_indices = [], loop_start_skips = {}, streams = [(root_stream, empty_context)],
      stream_hierarchy = [(root_stream, None)], task_streams = [], open_streams = []\<rparr>"

declare claim_walk.simps [code] stream_lookup.simps [code]

lemma chain_new: "new_scheduler chain_actions 4 empty_context = Inr chain_sched"
  by code_simp

lemmas chain_defs = chain_sched_def new_stmt_def

lemma chain_returns: "pc (simulate sample_env sample_answer 16 (start_config chain_sched)) = MReturned None"
  by (simp add: run_eval chain_defs cong: eval_congs let_weak_cong)

lemma chain_waits: "pc (simulate sample_env sample_answer 4 (start_config chain_sched)) = MWait"
  by (simp add: run_eval chain_defs cong: eval_congs let_weak_cong)

lemma chain_run: "\<exists>tr. run sample_env (\<lambda>q r. r = sample_answer q) (start_config chain_sched) tr
    (simulate sample_env sample_answer n (start_config chain_sched))"
  by (rule simulate_run)

theorem pending_tasks_bounded_witness:
  "int (length (pending (simulate sample_env sample_answer 4 (start_config chain_sched)))) \<le> 4"
proof -
  obtain tr where "run sample_env (\<lambda>q r. r = sample_answer q) (start_config chain_sched) tr
      (simulate sample_env sample_answer 4 (start_config chain_sched))"
    using chain_run by blast
  from pending_tasks_bounded [OF this] show ?thesis by (simp add: chain_sched_def)
qed

theorem queue_is_fifo_witness:
  "\<exists>tr new. tr @ queue (cs (simulate sample_env sample_answer 16 (start_config chain_sched))) =
     queue (cs (start_config chain_sched)) @ new"
proof -
  obtain tr where "run sample_env (\<lambda>q r. r = sample_answer q) (start_config chain_sched) tr
      (simulate sample_env sample_answer 16 (start_config chain_sched))"
    using chain_run by blast
  from queue_is_fifo [OF run_start this] show ?thesis by blast
qed

theorem run_result_witness:
  "task_exceptions (cs (simulate sample_env sample_answer 16 (start_config chain_sched))) = [] \<and>
   queue (cs (simulate sample_env sample_answer 16 (start_config chain_sched))) = []"
proof -
  obtain tr where "run sample_env (\<lambda>q r. r = sample_answer q) (start_config chain_sched) tr
      (simulate sample_env sample_answer 16 (start_config chain_sched))"
    using chain_run by blast
  from run_result [OF this chain_returns] show ?thesis by simp
qed

theorem run_not_stuck_witness:
  "\<exists>l c'. sstep sample_env (\<lambda>q r. r = sample_answer q)
     (simulate sample_env sample_answer 4 (start_config chain_sched)) l c'"
proof -
  obtain tr where "run sample_env (\<lambda>q r. r = sample_answer q) (start_config chain_sched) tr
      (simulate sample_env sample_answer 4 (start_config chain_sched))"
    using chain_run by blast
  then show ?thesis by (intro run_not_stuck) (simp_all add: chain_waits)
qed

definition duplicate_actions :: "action_stmt list" where
  "duplicate_actions = [new_stmt ''a'' ''core.http'', (new_stmt ''b'' ''core.http'')\<lparr>depends_on := [''a'', ''a'']\<rparr>]"

definition duplicate_sched :: sched where
  "duplicate_sched = chain_sched
     \<lparr>tasks := [(''a'', new_stmt ''a'' ''core.http''), (''b'', (new_stmt ''b'' ''core.http'')\<lparr>depends_on := [''a'', ''a'']\<rparr>)],
      indegrees := [((''a'', root_stream), 0), ((''b'', root_stream), 2)]\<rparr>"

end
