(* ===== verification/Scheduler_Dag.thy ===== *)
theory Scheduler_Dag
  imports Scheduler_Eval
begin

text \<open>
  Whole runs of workflows without control flow: every action is a regular one, so all of it happens
  in the root stream. One task changes nothing but the results in its stream until it finishes; when
  it finishes it releases its successors or records a failure. From this follows what a run as a
  whole does: each action is started at most once, after its dependencies have completed, and a run
  that returns without failures has completed every action.
\<close>

named_theorems calm_intros \<open>coroutines that leave the bookkeeping alone\<close>

section \<open>One task\<close>

text \<open>Everything but the contexts of the streams.\<close>

definition book :: "sched \<Rightarrow> sched" where
  "book s = s\<lparr>streams := []\<rparr>"

lemma book_fields:
  assumes "book s = book s'"
  shows "tasks s = tasks s'" "adj s = adj s'" "max_pending_tasks s = max_pending_tasks s'"
    "action_scopes s = action_scopes s'" "scope_hierarchy s = scope_hierarchy s'"
    "loop_regions s = loop_regions s'" "loop_regions_by_end s = loop_regions_by_end s'"
    "root_context s = root_context s'" "queue s = queue s'" "indegrees s = indegrees s'"
    "completed_tasks s = completed_tasks s'" "edges s = edges s'" "task_exceptions s = task_exceptions s'"
  using assms by (cases s; cases s'; simp add: book_def)+

lemma book_simps [simp]:
  "book (book s) = book s" "book (streams_update f s) = book s"
  "book (s\<lparr>completed_tasks := c\<rparr>) = (book s)\<lparr>completed_tasks := c\<rparr>"
  "book (s\<lparr>task_exceptions := e\<rparr>) = (book s)\<lparr>task_exceptions := e\<rparr>"
  by (simp_all add: book_def)

lemma book_set_action_result [simp]: "book (set_action_result sid r tr s) = book s"
  by (simp add: set_action_result_def split: option.splits)

lemma book_release: "book (release t U s) = release t U (book s)"
proof -
  have "known_indegree (s\<lparr>streams := x\<rparr>) k = known_indegree s k" for s x k
    by (simp add: known_indegree_def split: option.splits)
  then have "release_one t U d (s\<lparr>streams := x\<rparr>) = (release_one t U d s)\<lparr>streams := x\<rparr>" for d s x
    by (simp add: release_one_def Let_def)
  then have "fold (release_one t U) ds (s\<lparr>streams := x\<rparr>) = (fold (release_one t U) ds s)\<lparr>streams := x\<rparr>" for ds s x
    by (induction ds arbitrary: s) simp_all
  then show ?thesis by (simp add: book_def release_def)
qed

lemma known_indegree_frame [simp]:
  "known_indegree (s\<lparr>completed_tasks := c\<rparr>) k = known_indegree s k"
  "known_indegree (s\<lparr>queue := q\<rparr>) k = known_indegree s k"
  "known_indegree (s\<lparr>streams := x\<rparr>) k = known_indegree s k"
  by (simp_all add: known_indegree_def split: option.splits)

definition no_cancel :: "(request \<Rightarrow> response \<Rightarrow> bool) \<Rightarrow> bool" where
  "no_cancel R \<longleftrightarrow> (\<forall>q r. R q r \<longrightarrow> r \<noteq> RespRaise CancelledError \<and> (\<forall>x. r \<noteq> RespExec x (Some CancelledError)))"

definition quiet :: "sched \<Rightarrow> sched \<Rightarrow> sched \<Rightarrow> bool" where
  "quiet base s0 s \<longleftrightarrow> same_config base s0 \<and> book s = book s0"

lemma quiet_refl: "same_config base s \<Longrightarrow> quiet base s s"
  by (simp add: quiet_def)

lemma quietD:
  assumes "quiet base s0 s"
  shows "same_config base s" "book s = book s0" "tasks s = tasks base" "adj s = adj base"
  using assms book_fields [of s s0] by (auto simp: quiet_def same_config_def)

definition calm :: "sched \<Rightarrow> (request \<Rightarrow> response \<Rightarrow> bool) \<Rightarrow> 'a sc \<Rightarrow> bool" where
  "calm base R m \<longleftrightarrow> (\<forall>s0 s. quiet base s0 s \<longrightarrow>
     seg (same_config base) R (\<lambda>s0 s. book s = book s0) (\<lambda>s0 s _. quiet base s0 s)
       (\<lambda>s0 s e. quiet base s0 s \<and> e \<noteq> CancelledError) s0 (m s))"

lemma calmD:
  "calm base R m \<Longrightarrow> quiet base s0 s \<Longrightarrow>
     seg (same_config base) R (\<lambda>s0 s. book s = book s0) (\<lambda>s0 s _. quiet base s0 s)
       (\<lambda>s0 s e. quiet base s0 s \<and> e \<noteq> CancelledError) s0 (m s)"
  by (simp add: calm_def)

lemma calm_return [calm_intros]: "calm base R (return x)"
  by (simp add: calm_def)

lemma calm_raise [calm_intros]: "e \<noteq> CancelledError \<Longrightarrow> calm base R (raise e)"
  by (simp add: calm_def)

lemma calm_gets [calm_intros]: "calm base R (gets f)"
  by (simp add: calm_def)

lemma calm_modify [calm_intros]: "(\<And>s. book (f s) = book s) \<Longrightarrow> calm base R (modify f)"
  by (simp add: calm_def quiet_def)

lemma calm_bind [calm_intros]: "calm base R m \<Longrightarrow> (\<And>x. calm base R (f x)) \<Longrightarrow> calm base R (bind m f)"
  unfolding calm_def by (blast intro: seg_bind)

lemma calm_andthen [calm_intros]: "calm base R m \<Longrightarrow> calm base R n \<Longrightarrow> calm base R (andthen m n)"
  unfolding andthen_def by (intro calm_intros)

lemma calm_await_bind:
  assumes "\<And>r. R q r \<Longrightarrow> calm base R (f r)"
  shows "calm base R (bind (await q) f)"
  unfolding calm_def
proof (intro allI impI)
  fix s0 s
  assume "quiet base s0 s"
  then show "seg (same_config base) R (\<lambda>s0 s. book s = book s0) (\<lambda>s0 s _. quiet base s0 s)
       (\<lambda>s0 s e. quiet base s0 s \<and> e \<noteq> CancelledError) s0 (bind (await q) f s)"
    using calmD [OF assms quiet_refl] by (auto simp: bind_apply seg_Await_iff quiet_def)
qed

lemma calm_catch [calm_intros]:
  "calm base R m \<Longrightarrow> (\<And>e. e \<noteq> CancelledError \<Longrightarrow> calm base R (h e)) \<Longrightarrow> calm base R (catch m h)"
  unfolding calm_def by (blast intro: seg_catch)

lemma calm_catch_exception [calm_intros]:
  "calm base R m \<Longrightarrow> (\<And>e. calm base R (h e)) \<Longrightarrow> calm base R (catch_exception m h)"
  unfolding catch_exception_def by (rule calm_catch) simp_all

lemma calm_if [calm_intros]: "(b \<Longrightarrow> calm base R m) \<Longrightarrow> (\<not> b \<Longrightarrow> calm base R n) \<Longrightarrow> calm base R (if b then m else n)"
  by simp

lemma calm_option [calm_intros]:
  "calm base R n \<Longrightarrow> (\<And>x. calm base R (f x)) \<Longrightarrow> calm base R (case o' of None \<Rightarrow> n | Some x \<Rightarrow> f x)"
  by (cases o') simp_all

lemma calm_lift_sum [calm_intros]: "x \<noteq> Inl CancelledError \<Longrightarrow> calm base R (lift_sum x)"
  by (cases x) (auto intro: calm_intros)

lemma calm_get_or_raise [calm_intros]: "e \<noteq> CancelledError \<Longrightarrow> calm base R (get_or_raise e x)"
  by (cases x) (auto intro: calm_intros)

lemma calm_contexts [calm_intros]: "calm base R (get_context sid)"
  unfolding get_context_def by (intro calm_intros) simp

lemma extract_expressions_not_cancelled: "extract_expressions parse v \<noteq> Inl CancelledError"
proof -
  have "sfold f xs a \<noteq> Inl CancelledError" if "\<And>x a. f x a \<noteq> Inl CancelledError"
    for f :: "string \<Rightarrow> string list \<Rightarrow> exn + string list" and xs a
    using that by (induction xs arbitrary: a) (auto simp: sbind_eq_Inl)
  moreover have "action_ref_of_token t \<noteq> Inl CancelledError" for t
    by (auto simp: action_ref_of_token_def TracecatExpressionError_def split: option.splits prod.splits)
  ultimately show ?thesis
    by (auto simp: extract_expressions_def extract_expr_def TracecatExpressionError_def sbind_eq_Inl
        split: option.splits)
qed

lemma build_stream_aware_context_not_cancelled:
  "build_stream_aware_context env s stmt sid \<noteq> Inl CancelledError"
proof -
  have "sfold (\<lambda>r acc. sbind (get_stream_aware_action_result s r sid) (\<lambda>res.
      Inr (case res of None \<Rightarrow> acc | Some tr \<Rightarrow> dict_set r tr acc))) refs acc \<noteq> Inl CancelledError" for refs acc
    by (induction refs arbitrary: acc)
      (auto simp: sbind_eq_Inl get_stream_aware_action_result_def split: option.splits)
  with extract_expressions_not_cancelled show ?thesis
    by (auto simp: build_stream_aware_context_def sbind_eq_Inl)
qed

lemma calm_build_context [calm_intros]: "calm base R (build_context env stmt sid)"
  unfolding build_context_def calm_def
  by (auto simp: bind_apply lift_sum_def build_stream_aware_context_not_cancelled split: sum.splits)

lemma unwrap_not_cancelled [simp]: "e \<noteq> CancelledError \<Longrightarrow> unwrap_activity e \<noteq> CancelledError"
  by (auto simp: unwrap_activity_def split: exn.splits option.splits)

lemma calm_resolve [calm_intros]:
  assumes "no_cancel R"
  shows "calm base R (resolve_expression e c)"
  unfolding resolve_expression_def
proof (rule calm_await_bind)
  fix r
  assume "R (ReqEvalExpr e c) r"
  with assms have "r \<noteq> RespRaise CancelledError" by (auto simp: no_cancel_def)
  then show "calm base R (case r of RespValue v \<Rightarrow> return v | RespRaise e \<Rightarrow> raise (unwrap_activity e)
      | _ \<Rightarrow> raise bad_response)"
    by (auto intro!: calm_intros simp: bad_response_def split: response.splits)
qed

lemma calm_sleep [calm_intros]:
  assumes "no_cancel R"
  shows "calm base R (async_sleep d)"
  unfolding async_sleep_def
proof (rule calm_await_bind)
  fix r
  assume "R (ReqSleep d) r"
  with assms have "r \<noteq> RespRaise CancelledError" by (auto simp: no_cancel_def)
  then show "calm base R (case r of RespDone \<Rightarrow> return () | RespRaise e \<Rightarrow> raise e | _ \<Rightarrow> raise bad_response)"
    by (auto intro!: calm_intros simp: bad_response_def split: response.splits)
qed

lemma calm_execute [calm_intros]:
  assumes "no_cancel R"
  shows "calm base R (execute t stmt)"
  unfolding execute_def
proof (rule calm_await_bind)
  fix r
  assume "R (ReqExecute stmt (t_stream t)) r"
  with assms have "r \<noteq> RespRaise CancelledError" "\<And>x. r \<noteq> RespExec x (Some CancelledError)"
    by (auto simp: no_cancel_def)
  then show "calm base R (case r of
      RespExec result err \<Rightarrow>
        andthen (case result of None \<Rightarrow> return ()
          | Some tr \<Rightarrow> andthen (get_context (t_stream t)) (modify (set_action_result (t_stream t) (ref stmt) tr)))
          (case err of None \<Rightarrow> return () | Some e \<Rightarrow> raise e)
    | RespRaise e \<Rightarrow> raise e
    | _ \<Rightarrow> raise bad_response)"
    by (auto intro!: calm_intros simp: bad_response_def split: response.splits option.splits)
qed

lemma calm_should_skip [calm_intros]: "no_cancel R \<Longrightarrow> calm base R (task_should_skip env t stmt)"
  unfolding task_should_skip_def by (intro calm_intros) simp_all


text \<open>A finished task: its successors are released, or a failure is recorded.\<close>

definition freed :: "sched \<Rightarrow> task \<Rightarrow> sched \<Rightarrow> sched \<Rightarrow> bool" where
  "freed base t s0 s \<longleftrightarrow> same_config base s0 \<and> (\<exists>U. book s = release t U (book s0))"

definition failed :: "sched \<Rightarrow> task \<Rightarrow> sched \<Rightarrow> sched \<Rightarrow> bool" where
  "failed base t s0 s \<longleftrightarrow> same_config base s0 \<and>
     (\<exists>info. book s = (book s0)\<lparr>task_exceptions := dict_set (t_ref t) info (task_exceptions s0)\<rparr>)"

lemma edge_has_marker_not_cancelled: "edge_has_marker s d dst m sid \<noteq> Inl CancelledError"
  by (auto simp: edge_has_marker_def get_edge_by_refs_def edge_components_from_dep_def sbind_eq_Inl
      split: option.splits prod.splits if_splits)

lemma all_have_marker_not_cancelled: "all_have_marker s dst m sid deps \<noteq> Inl CancelledError"
  by (induction deps) (auto simp: sbind_eq_Inl edge_has_marker_not_cancelled)

lemma count_marker_not_cancelled: "count_marker s dst m sid deps \<noteq> Inl CancelledError"
proof -
  have "sfold (\<lambda>dep n. sbind (edge_has_marker s dep dst m sid) (\<lambda>b. Inr (if b then n + 1 else n))) deps n
      \<noteq> Inl CancelledError" for n :: int
    by (induction deps arbitrary: n) (auto simp: sbind_eq_Inl edge_has_marker_not_cancelled)
  then show ?thesis by (simp add: count_marker_def)
qed

lemma join_not_cancelled:
  "skip_should_propagate s t stmt \<noteq> Inl CancelledError" "is_reachable s t stmt \<noteq> Inl CancelledError"
  by (auto simp: skip_should_propagate_def is_reachable_def all_have_marker_not_cancelled sbind_eq_Inl
      count_marker_not_cancelled edge_has_marker_not_cancelled split: list.splits join_strategy.splits)

text \<open>The static facts about one task of a workflow without control flow.\<close>

definition plain_task :: "sched \<Rightarrow> task \<Rightarrow> action_stmt \<Rightarrow> bool" where
  "plain_task base t stmt \<longleftrightarrow>
     adj_closed base \<and> dict_get (adj base) (t_ref t) \<noteq> None \<and> dict_get (tasks base) (t_ref t) = Some stmt \<and>
     regular_action stmt \<and> t_stream t = root_stream"

lemma plain_taskD:
  assumes "plain_task base t stmt" and "quiet base s0 s"
  shows "adj_closed s" "\<exists>out. dict_get (adj s) (t_ref t) = Some out"
  using assms quietD(3,4) [OF assms(2)] by (auto simp: plain_task_def adj_closed_def)

lemma freed_release:
  assumes "quiet base s0 s"
  shows "freed base t s0 (release t U s)"
  using assms by (auto simp: freed_def quiet_def book_release)

lemma seg_queue_all_skipped:
  assumes "plain_task base t stmt" and "quiet base s0 s"
  shows "seg J R F (\<lambda>s0 s _. freed base t s0 s) E s0 (queue_all_skipped t s)"
proof -
  from plain_taskD [OF assms] obtain out where "adj_closed s" "dict_get (adj s) (t_ref t) = Some out" by blast
  then show ?thesis using freed_release [OF assms(2)] by (simp add: queue_all_skipped_run)
qed

lemma seg_handle_success_path:
  assumes "plain_task base t stmt" and "quiet base s0 s"
  shows "seg J R F (\<lambda>s0 s _. freed base t s0 s) E s0 (handle_success_path t s)"
proof -
  from plain_taskD [OF assms] obtain out where "adj_closed s" "dict_get (adj s) (t_ref t) = Some out" by blast
  then show ?thesis using freed_release [OF assms(2)] by (simp add: handle_success_path_run)
qed

lemma seg_handle_error_path:
  assumes "plain_task base t stmt" and "quiet base s0 s"
  shows "seg J R F (\<lambda>s0 s _. freed base t s0 s \<or> failed base t s0 s) E s0 (handle_error_path env t exc fw s)"
proof -
  from plain_taskD [OF assms] obtain out where "adj_closed s" "dict_get (adj s) (t_ref t) = Some out" by blast
  moreover have "t_stream t = root_stream" using assms(1) by (simp add: plain_task_def)
  moreover have "failed base t s0 (s\<lparr>task_exceptions := dict_set (t_ref t) info (task_exceptions s)\<rparr>)" for info
    using assms(2) book_fields(13) [of s s0] by (auto simp: failed_def quiet_def)
  ultimately show ?thesis using freed_release [OF assms(2)] by (simp add: handle_error_path_run Let_def)
qed

lemma skip_path_regular: "regular_action stmt \<Longrightarrow> handle_skip_path env t stmt = queue_all_skipped t"
  by (simp add: handle_skip_path_def regular_action_def SCOPE_OPENER_ACTIONS_def SCOPE_CLOSER_ACTIONS_def)

abbreviation calm_seg ::
  "sched \<Rightarrow> (request \<Rightarrow> response \<Rightarrow> bool) \<Rightarrow> (sched \<Rightarrow> sched \<Rightarrow> 'a \<Rightarrow> bool) \<Rightarrow> sched \<Rightarrow>
   sched \<times> (sched, request, response, exn, 'a) co \<Rightarrow> bool" where
  "calm_seg base R Q \<equiv> seg (same_config base) R (\<lambda>s0 s. book s = book s0) Q
     (\<lambda>s0 s e. quiet base s0 s \<and> e \<noteq> CancelledError)"

lemma calm_seg_bind:
  assumes "calm base R m" and "quiet base s0 s"
    and "\<And>s0 s a. quiet base s0 s \<Longrightarrow> calm_seg base R Q s0 (f a s)"
  shows "calm_seg base R Q s0 (bind m f s)"
  using calmD [OF assms(1,2)] by (rule seg_bind) (rule assms(3))

lemma calm_seg_andthen:
  assumes "calm base R m" and "quiet base s0 s"
    and "\<And>s0 s. quiet base s0 s \<Longrightarrow> calm_seg base R Q s0 (n s)"
  shows "calm_seg base R Q s0 (andthen m n s)"
  unfolding andthen_def by (rule calm_seg_bind [OF assms])

lemma calm_seg_lift:
  assumes "x \<noteq> Inl CancelledError" and "quiet base s0 s" and "\<And>a. calm_seg base R Q s0 (f a s)"
  shows "calm_seg base R Q s0 (bind (lift_sum x) f s)"
  using assms by (cases x) (simp_all add: bind_apply)

lemma seg_run_if:
  assumes plain: "plain_task base t stmt" and nc: "no_cancel R" and q: "quiet base s0 s"
  shows "calm_seg base R (\<lambda>s0 s out. case out of RunIfSkipped \<Rightarrow> freed base t s0 s
      | RunIfContinue e \<Rightarrow> quiet base s0 s \<and> e \<noteq> Some CancelledError) s0 (run_if_phase env t stmt s)"
proof (cases "run_if stmt")
  case None
  with q show ?thesis by (simp add: run_if_phase_def)
next
  case (Some cond)
  have reg: "regular_action stmt" using plain by (simp add: plain_task_def)
  let ?Q = "\<lambda>s0 s out. case out of RunIfSkipped \<Rightarrow> freed base t s0 s
      | RunIfContinue e \<Rightarrow> quiet base s0 s \<and> e \<noteq> Some CancelledError"
  have skip: "calm_seg base R ?Q s0 (andthen (queue_all_skipped t) (return RunIfSkipped) s)" if "quiet base s0 s" for s0 s
    using seg_queue_all_skipped [OF plain that] by (rule seg_andthen) simp
  have "calm_seg base R ?Q s0 (bind (task_should_skip env t stmt) (\<lambda>b.
      if b then andthen (queue_all_skipped t) (return RunIfSkipped) else return (RunIfContinue None)) s)"
    by (rule calm_seg_bind [OF calm_should_skip [OF nc] q]) (use skip in auto)
  then show ?thesis
    unfolding run_if_phase_def catch_application_error_def skip_path_regular [OF reg]
    by (simp add: Some del: not_None_eq) (erule seg_catch, auto)
qed

lemma seg_run_action:
  assumes plain: "plain_task base t stmt" and nc: "no_cancel R" and q: "quiet base s0 s"
  shows "calm_seg base R (\<lambda>s0 s _. freed base t s0 s) s0 (run_action env t d stmt s)"
proof -
  have reg: "action stmt \<notin> {LOOP_START, LOOP_END, TRANSFORM_SCATTER, TRANSFORM_GATHER}"
    using plain by (simp add: plain_task_def regular_action_def SCOPE_OPENER_ACTIONS_def SCOPE_CLOSER_ACTIONS_def)
  have "calm_seg base R (\<lambda>s0 s _. freed base t s0 s) s0 (andthen (execute t stmt) (handle_success_path t) s)"
    if "quiet base s0 s" for s0 s
    by (rule calm_seg_andthen [OF calm_execute [OF nc] that]) (rule seg_handle_success_path [OF plain])
  then show ?thesis
    using reg unfolding run_action_def
    by (intro calm_seg_andthen [OF _ q]) (auto intro: calm_intros calm_sleep [OF nc])
qed

lemma seg_schedule_body:
  assumes plain: "plain_task base t stmt" and nc: "no_cancel R" and q: "quiet base s0 s"
  shows "calm_seg base R (\<lambda>s0 s _. freed base t s0 s) s0 (schedule_body env t d stmt s)"
proof -
  let ?Q = "\<lambda>s0 s (_ :: unit). freed base t s0 s"
  have reg: "regular_action stmt" using plain by (simp add: plain_task_def)
  have act: "calm_seg base R ?Q s0 (bind (gets (\<lambda>s. is_reachable s t stmt)) (\<lambda>r. bind (lift_sum r) (\<lambda>reachable.
      if \<not> reachable then raise (TaskUnreachable (''Task '' @ t_ref t @ '' is unreachable''))
      else case e of Some e \<Rightarrow> raise e | None \<Rightarrow> run_action env t d stmt)) s)"
    if "quiet base s0 s" "e \<noteq> Some CancelledError" for s0 s e
    using that seg_run_action [OF plain nc that(1)]
    by (simp add: bind_apply [of "gets _"]) (rule calm_seg_lift [OF join_not_cancelled(2)], auto split: option.splits)
  have "calm_seg base R ?Q s0 (bind (run_if_phase env t stmt) (\<lambda>outcome. case outcome of
      RunIfSkipped \<Rightarrow> return ()
    | RunIfContinue e \<Rightarrow> bind (gets (\<lambda>s. is_reachable s t stmt)) (\<lambda>r. bind (lift_sum r) (\<lambda>reachable.
        if \<not> reachable then raise (TaskUnreachable (''Task '' @ t_ref t @ '' is unreachable''))
        else case e of Some e \<Rightarrow> raise e | None \<Rightarrow> run_action env t d stmt))) s)"
    if "quiet base s0 s" for s0 s
    using seg_run_if [OF plain nc that] by (rule seg_bind) (use act in \<open>auto split: run_if_outcome.splits\<close>)
  then show ?thesis
    using q seg_queue_all_skipped [OF plain q]
    unfolding schedule_body_def skip_path_regular [OF reg]
    by (simp add: bind_apply [of "gets _"]) (rule calm_seg_lift [OF join_not_cancelled(1)], auto)
qed

text \<open>A task of a workflow without control flow leaves the bookkeeping alone until its last segment;
  then it is completed, and its successors are released or its failure is recorded.\<close>

definition task_done :: "sched \<Rightarrow> task \<Rightarrow> sched \<Rightarrow> sched \<Rightarrow> bool" where
  "task_done base t s0 s \<longleftrightarrow>
     (\<exists>s1. (freed base t s0 s1 \<or> failed base t s0 s1) \<and>
        s = s1\<lparr>completed_tasks := insert (tkey t) (completed_tasks s1)\<rparr>)"

abbreviation task_seg where
  "task_seg base R t \<equiv> seg (same_config base) R (\<lambda>s0 s. book s = book s0) (\<lambda>s0 s (_::unit). task_done base t s0 s)
     (\<lambda>_ _ (_::exn). False)"

lemma seg_schedule_task:
  assumes plain: "plain_task base t stmt" and nc: "no_cancel R" and s: "same_config base s" and d: "t_delay t = 0"
  shows "task_seg base R t s (schedule_task env t s)"
proof -
  have st: "dict_get (tasks s) (t_ref t) = Some stmt"
    using plain s by (simp add: plain_task_def same_config_def)
  let ?h = "\<lambda>e. case e of PlatformExecutionError e' \<Rightarrow> handle_error_path env t e' True
      | _ \<Rightarrow> handle_error_path env t e False"
  have "seg (same_config base) R (\<lambda>s0 s. book s = book s0) (\<lambda>s0 s _. freed base t s0 s \<or> failed base t s0 s)
      (\<lambda>_ _ _. False) s (catch_exception (schedule_body env t (t_delay t) stmt) ?h s)"
    unfolding catch_exception_def
  proof (rule seg_catch)
    show "calm_seg base R (\<lambda>s0 s _. freed base t s0 s \<or> failed base t s0 s) s (schedule_body env t (t_delay t) stmt s)"
      using seg_schedule_body [OF plain nc quiet_refl [OF s], of env "t_delay t"]
      by (cases "schedule_body env t (t_delay t) stmt s") (auto elim: seg_mono)
    fix s0 s e
    assume "quiet base s0 s \<and> e \<noteq> CancelledError"
    then show "seg (same_config base) R (\<lambda>s0 s. book s = book s0) (\<lambda>s0 s _. freed base t s0 s \<or> failed base t s0 s)
      (\<lambda>_ _ _. False) s0 ((if e = CancelledError then raise e else ?h e) s)"
      using seg_handle_error_path [OF plain] by (cases e) simp_all
  qed
  then have "task_seg base R t s (finalize (catch_exception (schedule_body env t (t_delay t) stmt) ?h)
      (\<lambda>s. s\<lparr>completed_tasks := insert (tkey t) (completed_tasks s)\<rparr>) s)"
    by (rule seg_finalize) (auto simp: task_done_def)
  then show ?thesis using st d by (simp add: schedule_task_def bind_apply)
qed


section \<open>The adjacency tables of the constructor\<close>

definition collect_step :: "('x \<Rightarrow> 'k) \<Rightarrow> ('x \<Rightarrow> 'v) \<Rightarrow> 'x \<Rightarrow> ('k, 'v list) dict \<Rightarrow> ('k, 'v list) dict" where
  "collect_step f g x tmp = dict_set (f x) (List.insert (g x) (get_default [] tmp (f x))) tmp"

lemma collect_fold_set:
  "set (get_default [] (fold (collect_step f g) xs tmp) k) = set (get_default [] tmp k) \<union> g ` {x \<in> set xs. f x = k}"
  by (induction xs arbitrary: tmp) (auto simp: collect_step_def)

lemma collect_fold_distinct:
  "(\<And>k. distinct (get_default [] tmp k)) \<Longrightarrow> distinct (get_default [] (fold (collect_step f g) xs tmp) k)"
  by (induction xs arbitrary: tmp) (simp_all add: collect_step_def)

definition succ_edges :: "action_stmt list \<Rightarrow> string \<Rightarrow> adj_dst set" where
  "succ_edges acts r = {(ref b, snd (dep_edge d)) | b d. b \<in> set acts \<and> d \<in> set (depends_on b) \<and> dep_src d = r}"

lemma collect_adj_ok:
  assumes "wf_actions acts"
  obtains tmp where "collect_adj acts = Inr tmp"
    and "\<And>k. set (get_default [] tmp k) = succ_edges acts k" and "\<And>k. distinct (get_default [] tmp k)"
proof -
  let ?f = "\<lambda>(a, d). dep_src d" and ?g = "\<lambda>(a, d). (ref a, snd (dep_edge d))"
  have "collect_adj acts = sfold (\<lambda>x tmp. Inr (collect_step ?f ?g x tmp)) (dep_pairs acts) []"
    unfolding collect_adj_def sfold_nested dep_pairs_def [symmetric] collect_step_def
    by (rule sfold_cong) (auto simp: dep_pairs_def wf_actions_dep(1) [OF assms] split: prod.splits)
  then have eq: "collect_adj acts = Inr (fold (collect_step ?f ?g) (dep_pairs acts) [])" by (simp add: sfold_pure)
  have edges: "?g ` {x \<in> set (dep_pairs acts). ?f x = k} = succ_edges acts k" for k
    by (force simp: succ_edges_def dep_pairs_def)
  show ?thesis
    by (rule that [OF eq]) (simp_all add: collect_fold_set collect_fold_distinct get_default_Nil edges)
qed

lemma sorted_adj_get:
  "dict_get (sorted_adj acts tmp) r =
     (if r \<in> set (dict_keys (stmts_by_ref acts)) then Some (sort_key adj_sort_key (get_default [] tmp r)) else None)"
proof -
  have get: "dict_get (map (\<lambda>r. (r, f r)) ks) r = (if r \<in> set ks then Some (f r) else None)"
    for ks :: "string list" and f :: "string \<Rightarrow> adj_dst list"
    by (induction ks) auto
  show ?thesis unfolding sorted_adj_def by (rule get)
qed

lemma stmts_by_ref_keys: "set (dict_keys (stmts_by_ref acts)) = ref ` set acts"
proof -
  have "set (dict_keys (fold (\<lambda>a d. dict_set (ref a) a d) acts d)) = set (dict_keys d) \<union> ref ` set acts" for d
    by (induction acts arbitrary: d) auto
  then show ?thesis by (simp add: stmts_by_ref_def)
qed

text \<open>No action names one dependency edge twice.\<close>

definition distinct_deps :: "action_stmt list \<Rightarrow> bool" where
  "distinct_deps acts \<longleftrightarrow> list_all (\<lambda>a. distinct (map dep_edge (depends_on a))) acts"

definition plain_base :: "action_stmt list \<Rightarrow> sched \<Rightarrow> bool" where
  "plain_base acts s \<longleftrightarrow> tasks s = stmts_by_ref acts \<and>
     (\<forall>r. if r \<in> ref ` set acts
          then \<exists>out. dict_get (adj s) r = Some out \<and> distinct out \<and> set out = succ_edges acts r
          else dict_get (adj s) r = None)"

lemma plain_base_adj:
  assumes "plain_base acts s" and "a \<in> set acts"
  obtains out where "dict_get (adj s) (ref a) = Some out" "get_default [] (adj s) (ref a) = out"
    "distinct out" "set out = succ_edges acts (ref a)"
proof -
  have "\<exists>out. dict_get (adj s) (ref a) = Some out \<and> distinct out \<and> set out = succ_edges acts (ref a)"
    using assms unfolding plain_base_def by (metis imageI)
  with that show ?thesis by (auto simp: get_default_def)
qed

text \<open>The edges into an action; the adjacency table holds each of them once.\<close>

definition in_edges :: "action_stmt \<Rightarrow> adj_dst list" where
  "in_edges a = remdups (map dep_edge (depends_on a))"

lemma count_succ_edges:
  assumes wf: "wf_actions acts" and b: "b \<in> set acts"
    and out: "distinct out" "set out = succ_edges acts r"
  shows "count_list (map fst out) (ref b) = length (filter (\<lambda>e. fst e = r) (in_edges b))"
proof -
  let ?E = "{e \<in> set (in_edges b). fst e = r}"
  have "count_list (map fst out) (ref b) = length (filter (\<lambda>e. fst e = ref b) out)"
    using count_list_filter_map [of fst "\<lambda>_. True" out "ref b"] by simp
  also have "\<dots> = card {e \<in> set out. fst e = ref b}"
    using distinct_card [of "filter (\<lambda>e. fst e = ref b) out"] out(1) by simp
  also have "{e \<in> set out. fst e = ref b} = (\<lambda>e. (ref b, snd e)) ` ?E"
    using b wf_actions_unique [OF wf] unfolding out(2) succ_edges_def in_edges_def by force
  also have "card \<dots> = card ?E"
    by (rule card_image) (auto simp: inj_on_def prod_eq_iff)
  also have "\<dots> = length (filter (\<lambda>e. fst e = r) (in_edges b))"
    using distinct_card [of "filter (\<lambda>e. fst e = r) (in_edges b)"] by (simp add: in_edges_def)
  finally show ?thesis .
qed

lemma plain_base_closed:
  assumes "wf_actions acts" and "plain_base acts s"
  shows "adj_closed s"
  unfolding adj_closed_def
proof (intro allI ballI)
  fix r d
  assume d: "d \<in> set (get_default [] (adj s) r)"
  have "r \<in> ref ` set acts" using d assms(2) by (auto simp: plain_base_def get_default_def split: if_splits)
  then obtain a where a: "a \<in> set acts" "r = ref a" by auto
  with plain_base_adj [OF assms(2) a(1)] d have "d \<in> succ_edges acts (ref a)" by metis
  then obtain b where "b \<in> set acts" "fst d = ref b" by (auto simp: succ_edges_def)
  then have "dict_get (stmts_by_ref acts) (fst d) = Some b" using stmts_by_ref_get [OF assms(1)] by simp
  then show "dict_get (tasks s) (fst d) \<noteq> None" using assms(2) by (simp add: plain_base_def)
qed

lemma plain_base_config: "plain_base acts s \<Longrightarrow> same_config s s' \<Longrightarrow> plain_base acts s'"
  by (simp add: plain_base_def same_config_def)

lemma plain_base_task:
  assumes "wf_actions acts" and "plain_base acts s" and "\<forall>a \<in> set acts. regular_action a" and "a \<in> set acts"
  shows "plain_task s (mk_task (ref a) root_stream 0) a"
proof -
  obtain out where "dict_get (adj s) (ref a) = Some out" using plain_base_adj [OF assms(2,4)] .
  then show ?thesis
    using assms stmts_by_ref_get [OF assms(1)] plain_base_closed [OF assms(1,2)]
    by (simp add: plain_task_def mk_task_def plain_base_def)
qed


section \<open>The ledger\<close>

text \<open>
  The state of a run as bookkeeping. Every action is waiting, queued, active or finished; its counter
  is the number of edges into it from actions that are not finished, plus one for every repetition of
  a dependency, which no edge counts down; it has left the waiting state exactly when that number is
  zero. The started actions are the active and the finished ones.
\<close>

definition finished :: "sched \<Rightarrow> string set" where
  "finished s = {r. (r, root_stream) \<in> completed_tasks s}"

definition missing :: "string set \<Rightarrow> action_stmt \<Rightarrow> nat" where
  "missing D a = length (depends_on a) - length (in_edges a) + length (filter (\<lambda>e. fst e \<notin> D) (in_edges a))"

definition root_task :: "action_stmt list \<Rightarrow> task \<Rightarrow> bool" where
  "root_task acts t \<longleftrightarrow> t = mk_task (t_ref t) root_stream 0 \<and> t_ref t \<in> ref ` set acts"

definition ledger :: "action_stmt list \<Rightarrow> sched \<Rightarrow> task list \<Rightarrow> string list \<Rightarrow> bool" where
  "ledger acts s tr active \<longleftrightarrow>
     (\<forall>t \<in> set (queue s). root_task acts t) \<and>
     set active \<union> finished s \<subseteq> ref ` set acts \<and> snd ` completed_tasks s \<subseteq> {root_stream} \<and>
     distinct (active @ map t_ref (queue s)) \<and>
     finished s \<inter> (set active \<union> t_ref ` set (queue s)) = {} \<and>
     (\<forall>a \<in> set acts. known_indegree s (ref a, root_stream) = int (missing (finished s) a)) \<and>
     (\<forall>a \<in> set acts. ref a \<in> set active \<union> t_ref ` set (queue s) \<union> finished s \<longleftrightarrow> missing (finished s) a = 0) \<and>
     distinct (map t_ref tr) \<and> t_ref ` set tr = set active \<union> finished s \<and>
     topo_ordered acts [] (map t_ref tr)"

lemma missing_insert:
  assumes "r \<notin> D"
  shows "missing D a = missing (insert r D) a + length (filter (\<lambda>e. fst e = r) (in_edges a))"
proof -
  have "length (filter (\<lambda>e. fst e \<notin> D) es) =
      length (filter (\<lambda>e. fst e \<notin> insert r D) es) + length (filter (\<lambda>e. fst e = r) es)" for es :: "adj_dst list"
    using assms by (induction es) auto
  then show ?thesis by (simp add: missing_def)
qed

lemma in_edges_length: "length (in_edges a) \<le> length (depends_on a)"
  using length_remdups_leq [of "map dep_edge (depends_on a)"] by (simp add: in_edges_def)

lemma in_edges_distinct: "length (in_edges a) = length (depends_on a) \<longleftrightarrow> distinct (map dep_edge (depends_on a))"
  using length_remdups_eq [of "map dep_edge (depends_on a)"] by (simp add: in_edges_def remdups_id_iff_distinct)

lemma missing_zero:
  "missing D a = 0 \<longleftrightarrow> distinct (map dep_edge (depends_on a)) \<and> dep_src ` set (depends_on a) \<subseteq> D"
  using in_edges_length [of a] in_edges_distinct [of a]
  by (auto simp: missing_def filter_empty_conv in_edges_def image_subset_iff)

lemma missing_start: "missing {} a = length (depends_on a)"
  using in_edges_length [of a] by (simp add: missing_def)

lemma ledger_book:
  assumes "ledger acts s tr active" and "book s' = book s"
  shows "ledger acts s' tr active"
proof -
  have "known_indegree s' k = known_indegree s k" for k
    using book_fields [OF assms(2)] by (simp add: known_indegree_def split: option.splits)
  then show ?thesis using assms(1) book_fields [OF assms(2)] by (simp add: ledger_def finished_def)
qed

lemma ledger_spawn:
  assumes wf: "wf_actions acts" and l: "ledger acts s tr active" and q: "queue s = t # q"
  shows "ledger acts (s\<lparr>queue := q\<rparr>) (tr @ [t]) (active @ [t_ref t])"
proof -
  from l q have t: "t_ref t \<in> ref ` set acts" and tr: "t_ref ` set tr = set active \<union> finished s"
    by (auto simp: ledger_def root_task_def)
  then obtain a where a: "a \<in> set acts" "ref a = t_ref t" by auto
  with l q have "missing (finished s) a = 0" by (fastforce simp: ledger_def)
  then have "dep_src ` set (depends_on a) \<subseteq> set (map t_ref tr)" using tr by (auto simp: missing_zero)
  moreover have "b = a" if "b \<in> set acts" "ref b = t_ref t" for b
    using wf_actions_unique [OF wf] a that by auto
  ultimately have "topo_ordered acts [] (map t_ref tr @ [t_ref t])"
    using l by (auto simp: ledger_def topo_ordered_append)
  moreover have "finished (s\<lparr>queue := q\<rparr>) = finished s" by (simp add: finished_def)
  ultimately show ?thesis using l q t by (auto simp: ledger_def)
qed

text \<open>The actions that become ready when one finishes.\<close>

lemma released_refs:
  assumes wf: "wf_actions acts" and base: "plain_base acts s"
    and r: "r \<in> ref ` set acts" "r \<notin> finished s"
    and ind: "\<And>b. b \<in> set acts \<Longrightarrow> known_indegree s (ref b, root_stream) = int (missing (finished s) b)"
    and t: "t = mk_task r root_stream 0"
  obtains new where "queue (release t U s) = queue s @ map (\<lambda>r. mk_task r root_stream 0) new" "distinct new"
    "set new \<subseteq> ref ` set acts"
    "\<And>b. b \<in> set acts \<Longrightarrow> ref b \<in> set new \<longleftrightarrow> missing (insert r (finished s)) b = 0 \<and> missing (finished s) b \<noteq> 0"
    "\<And>b. b \<in> set acts \<Longrightarrow> known_indegree (release t U s) (ref b, root_stream) = int (missing (insert r (finished s)) b)"
proof -
  from r obtain a where a: "a \<in> set acts" "r = ref a" by auto
  obtain out where out: "get_default [] (adj s) r = out" "distinct out" "set out = succ_edges acts r"
    using plain_base_adj [OF base a(1)] a(2) by metis
  let ?n = "\<lambda>b. length (filter (\<lambda>e. fst e = r) (in_edges b))"
  have cnt: "count_list (map fst out) (ref b) = ?n b" if "b \<in> set acts" for b
    by (rule count_succ_edges [OF wf that out(2,3)])
  note split = missing_insert [OF r(2)]
  have le: "int (count_list (map fst out) (fst d)) \<le> known_indegree s (fst d, root_stream)" if d: "d \<in> set out" for d
  proof -
    obtain b where "b \<in> set acts" "fst d = ref b" using d unfolding out(3) succ_edges_def by auto
    with ind cnt split [of b] show ?thesis by simp
  qed
  obtain new where new: "queue (release t U s) = queue s @ map (\<lambda>r. mk_task r root_stream 0) new" "distinct new"
    "set new = {r \<in> fst ` set out. known_indegree s (r, root_stream) = int (count_list (map fst out) r)}"
    using release_queue [of s t U] le out(1) by (auto simp: t mk_task_def)
  have "ref b \<in> set new \<longleftrightarrow> missing (insert r (finished s)) b = 0 \<and> missing (finished s) b \<noteq> 0" if b: "b \<in> set acts" for b
  proof -
    have "ref b \<in> fst ` set out \<longleftrightarrow> ?n b \<noteq> 0"
      using cnt [OF b] count_list_0_iff [of "map fst out" "ref b"] by auto
    with ind [OF b] cnt [OF b] split [of b] show ?thesis by (auto simp: new(3))
  qed
  moreover have "known_indegree (release t U s) (ref b, root_stream) = int (missing (insert r (finished s)) b)"
    if "b \<in> set acts" for b
    using ind [OF that] cnt [OF that] split [of b] out(1) by (simp add: release_indegree t mk_task_def)
  moreover have "set new \<subseteq> ref ` set acts" using out(3) new(3) by (auto simp: succ_edges_def)
  ultimately show ?thesis using new that by blast
qed

lemma ledger_release:
  assumes wf: "wf_actions acts" and base: "plain_base acts s"
    and l: "ledger acts s tr (xs @ r # ys)" and t: "t = mk_task r root_stream 0"
  shows "ledger acts ((release t U s)\<lparr>completed_tasks := insert (tkey t) (completed_tasks s)\<rparr>) tr (xs @ ys)"
    (is "ledger acts ?s tr (xs @ ys)")
proof -
  let ?old = "set (xs @ r # ys) \<union> t_ref ` set (queue s) \<union> finished s"
  have r: "r \<in> ref ` set acts" "r \<notin> finished s" using l by (auto simp: ledger_def)
  have ready: "ref b \<in> ?old \<longleftrightarrow> missing (finished s) b = 0" if "b \<in> set acts" for b
    using l that unfolding ledger_def by blast
  have "known_indegree s (ref b, root_stream) = int (missing (finished s) b)" if "b \<in> set acts" for b
    using l that by (simp add: ledger_def)
  from released_refs [OF wf base r this t, of U] obtain new where
    new: "queue (release t U s) = queue s @ map (\<lambda>r. mk_task r root_stream 0) new" "distinct new"
    "set new \<subseteq> ref ` set acts"
    and mem: "\<And>b. b \<in> set acts \<Longrightarrow> ref b \<in> set new \<longleftrightarrow> missing (insert r (finished s)) b = 0 \<and> missing (finished s) b \<noteq> 0"
    and ind: "\<And>b. b \<in> set acts \<Longrightarrow> known_indegree (release t U s) (ref b, root_stream) = int (missing (insert r (finished s)) b)"
    by metis
  have fin: "finished ?s = insert r (finished s)" by (auto simp: finished_def t tkey_def mk_task_def)
  have queue: "queue ?s = queue s @ map (\<lambda>r. mk_task r root_stream 0) new" by (simp add: new(1))
  have refs: "map t_ref (queue ?s) = map t_ref (queue s) @ new" unfolding queue by (simp add: mk_task_def comp_def)
  then have refset: "t_ref ` set (queue ?s) = t_ref ` set (queue s) \<union> set new" by (metis list.set_map set_append)
  have fresh: "x \<notin> ?old" if x: "x \<in> set new" for x
  proof -
    obtain b where b: "b \<in> set acts" "x = ref b" using x new(3) by auto
    with mem [OF b(1)] x show ?thesis unfolding b(2) ready [OF b(1)] by simp
  qed
  have "\<forall>t \<in> set (queue ?s). root_task acts t"
    using l new(3) unfolding queue ledger_def by (auto simp: root_task_def mk_task_def)
  moreover have "set (xs @ ys) \<union> finished ?s \<subseteq> ref ` set acts" using l r unfolding fin ledger_def by auto
  moreover have "snd ` completed_tasks ?s \<subseteq> {root_stream}" using l by (simp add: ledger_def t tkey_def mk_task_def)
  moreover have "distinct ((xs @ ys) @ map t_ref (queue ?s))"
    using l fresh new(2) unfolding refs ledger_def by auto
  moreover have "finished ?s \<inter> (set (xs @ ys) \<union> t_ref ` set (queue ?s)) = {}"
    using l fresh unfolding refset fin ledger_def by auto
  moreover have "\<forall>b \<in> set acts. known_indegree ?s (ref b, root_stream) = int (missing (finished ?s) b)"
    using ind unfolding fin by simp
  moreover have "\<forall>b \<in> set acts. ref b \<in> set (xs @ ys) \<union> t_ref ` set (queue ?s) \<union> finished ?s \<longleftrightarrow> missing (finished ?s) b = 0"
  proof
    fix b assume b: "b \<in> set acts"
    have "ref b \<in> set (xs @ ys) \<union> t_ref ` set (queue ?s) \<union> finished ?s \<longleftrightarrow> ref b \<in> ?old \<or> ref b \<in> set new"
      unfolding refset fin by auto
    also have "\<dots> \<longleftrightarrow> missing (finished ?s) b = 0"
      unfolding ready [OF b] mem [OF b] fin using missing_insert [OF r(2), of b] by auto
    finally show "ref b \<in> set (xs @ ys) \<union> t_ref ` set (queue ?s) \<union> finished ?s \<longleftrightarrow> missing (finished ?s) b = 0" .
  qed
  moreover have "distinct (map t_ref tr)" "topo_ordered acts [] (map t_ref tr)" using l by (simp_all add: ledger_def)
  moreover have "t_ref ` set tr = set (xs @ ys) \<union> finished ?s" using l unfolding fin ledger_def by auto
  ultimately show ?thesis unfolding ledger_def by (intro conjI)
qed


lemma ledger_done:
  assumes wf: "wf_actions acts" and base: "plain_base acts base"
    and c: "same_config base s" and l: "ledger acts s tr (xs @ r # ys)" and t: "t = mk_task r root_stream 0"
    and td: "task_done base t s s'" and ok: "task_exceptions s' = []"
  shows "same_config base s' \<and> ledger acts s' tr (xs @ ys)"
proof -
  from td obtain s1 where s': "s' = s1\<lparr>completed_tasks := insert (tkey t) (completed_tasks s1)\<rparr>"
    and "freed base t s s1 \<or> failed base t s s1" by (auto simp: task_done_def)
  moreover have "\<not> failed base t s s1"
  proof
    assume "failed base t s s1"
    then obtain info where "book s1 = book (s\<lparr>task_exceptions := dict_set (t_ref t) info (task_exceptions s)\<rparr>)"
      by (auto simp: failed_def)
    from book_fields(13) [OF this] ok s' show False by (cases "task_exceptions s") (auto split: if_splits)
  qed
  ultimately obtain U where "book s1 = book (release t U s)" by (auto simp: freed_def book_release)
  note fields = book_fields [OF this] and this
  then have "book s' = book ((release t U s)\<lparr>completed_tasks := insert (tkey t) (completed_tasks s)\<rparr>)"
    by (simp add: s')
  with ledger_book [OF ledger_release [OF wf plain_base_config [OF base c] l t]] have "ledger acts s' tr (xs @ ys)"
    by blast
  moreover have "same_config base s'" using fields c by (simp add: s' same_config_def)
  ultimately show ?thesis by simp
qed

section \<open>Runs\<close>

definition actives :: "run_config \<Rightarrow> string list" where
  "actives c = map (\<lambda>e. t_ref (entry_task e)) (filter (\<lambda>e. \<not> is_done e) (pending c))"

definition entry_ok :: "action_stmt list \<Rightarrow> sched \<Rightarrow> (request \<Rightarrow> response \<Rightarrow> bool) \<Rightarrow> entry \<Rightarrow> bool" where
  "entry_ok acts base R e \<longleftrightarrow> root_task acts (entry_task e) \<and>
     (case e of
        EWait t q k \<Rightarrow> \<forall>r s. R q r \<longrightarrow> same_config base s \<longrightarrow> task_seg base R t s (k r s)
      | _ \<Rightarrow> True)"

definition dag_inv ::
  "action_stmt list \<Rightarrow> sched \<Rightarrow> (request \<Rightarrow> response \<Rightarrow> bool) \<Rightarrow> task list \<Rightarrow> run_config \<Rightarrow> bool" where
  "dag_inv acts base R tr c \<longleftrightarrow>
     same_config base (cs c) \<and> ledger acts (cs c) tr (actives c) \<and>
     (\<forall>e \<in> set (pending c). entry_ok acts base R e) \<and> pc c \<noteq> MStop"

lemma root_taskD: "root_task acts t \<Longrightarrow> t = mk_task (t_ref t) root_stream 0"
  by (simp add: root_task_def)

lemma segment_inv:
  assumes wf: "wf_actions acts" and base: "plain_base acts base"
    and inv: "dag_inv acts base R tr c" and p: "pending c = xs @ e # ys" "\<not> is_done e"
    and sg: "task_seg base R (entry_task e) (cs c) (s', k)" and ok: "task_exceptions s' = []"
  shows "dag_inv acts base R tr (c\<lparr>cs := s', pending := xs @ entry_of (entry_task e) k # ys\<rparr>)"
proof -
  let ?A = "\<lambda>es. map (\<lambda>e. t_ref (entry_task e)) (filter (\<lambda>e. \<not> is_done e) es)" and ?t = "entry_task e"
  have rt: "root_task acts ?t" using inv p by (simp add: dag_inv_def entry_ok_def)
  have l: "ledger acts (cs c) tr (?A xs @ t_ref ?t # ?A ys)" and c: "same_config base (cs c)"
    using inv p by (simp_all add: dag_inv_def actives_def)
  show ?thesis
  proof (cases k)
    case (Ret u)
    with sg have "task_done base ?t (cs c) s'" by simp
    from ledger_done [OF wf base c l root_taskD [OF rt] this ok] Ret inv p rt show ?thesis
      by (simp add: dag_inv_def actives_def entry_of_def is_done_def entry_ok_def)
  next
    case (Raise x)
    with sg show ?thesis by simp
  next
    case (Await q f)
    with sg have b: "book s' = book (cs c)" and f: "\<And>r s. R q r \<Longrightarrow> same_config base s \<Longrightarrow> task_seg base R ?t s (f r s)"
      by (auto simp: seg_Await_iff)
    have "same_config base s'" using quietD(1) [of base "cs c" s'] b c by (simp add: quiet_def)
    with ledger_book [OF l b] Await inv p rt f show ?thesis
      by (simp add: dag_inv_def actives_def entry_of_def is_done_def entry_ok_def)
  qed
qed

lemma sstep_dag_inv:
  assumes wf: "wf_actions acts" and base: "plain_base acts base"
    and reg: "\<forall>a \<in> set acts. regular_action a" and nc: "no_cancel R"
    and st: "sstep env R c l c'" and inv: "dag_inv acts base R tr c" and ok: "task_exceptions (cs c') = []"
  shows "dag_inv acts base R (tr @ (case l of None \<Rightarrow> [] | Some t \<Rightarrow> [t])) c'"
  using st inv ok
proof (induction rule: sstep.induct)
  case (spawn c n t q)
  then have "root_task acts t" by (auto simp: dag_inv_def ledger_def)
  moreover have "ledger acts ((cs c)\<lparr>queue := q\<rparr>) (tr @ [t]) (actives c @ [t_ref t])"
    using ledger_spawn [OF wf _ spawn.hyps(3)] spawn.prems(1) by (simp add: dag_inv_def)
  ultimately show ?case using spawn.prems(1)
    by (auto simp: dag_inv_def actives_def is_done_def entry_ok_def same_config_def)
next
  case (begin_task c n xs t ys s' k)
  then have rt: "root_task acts t" and c: "same_config base (cs c)" by (auto simp: dag_inv_def entry_ok_def)
  then obtain a where a: "a \<in> set acts" "t = mk_task (ref a) root_stream 0" by (auto simp: root_task_def)
  have "task_seg base R t (cs c) (s', k)"
    using seg_schedule_task [OF plain_base_task [OF wf base reg a(1)] nc c, of env] begin_task.hyps(3)
    by (simp add: a(2) mk_task_def)
  with segment_inv [OF wf base begin_task.prems(1) begin_task.hyps(2)] begin_task.prems(2) show ?case
    by (simp add: is_done_def)
next
  case (resume c n xs t q k ys r s' k')
  then have "entry_ok acts base R (EWait t q k)" and c: "same_config base (cs c)" by (auto simp: dag_inv_def)
  with resume.hyps(3,4) have "task_seg base R t (cs c) (s', k')" by (simp add: entry_ok_def) metis
  with segment_inv [OF wf base resume.prems(1) resume.hyps(2)] resume.prems(2) show ?case
    by (simp add: is_done_def)
qed (auto simp: dag_inv_def actives_def discard_done_def)

lemma sstep_failures:
  assumes "sstep env R c l c'" and "\<forall>e \<in> set (pending c). failures.entry_guar e" and "task_exceptions (cs c') = []"
  shows "task_exceptions (cs c) = []"
proof (cases l)
  case None
  with failures.sstep_guar [OF assms(1,2)] assms(3) show ?thesis by (auto simp: keeps_failures_def)
next
  case (Some t)
  with assms(1,3) show ?thesis by (auto elim: sstepE)
qed

lemma run_dag_inv:
  assumes wf: "wf_actions acts" and base: "plain_base acts base"
    and reg: "\<forall>a \<in> set acts. regular_action a" and nc: "no_cancel R"
    and "run env R (start_config s) tr c" and "dag_inv acts base R [] (start_config s)"
    and "task_exceptions (cs c) = []"
  shows "dag_inv acts base R tr c"
  using assms(5-7)
proof (induction rule: run.induct)
  case (run_step tr c l c')
  have "task_exceptions (cs c) = []"
    using sstep_failures [OF run_step.hyps(2) failures.run_guar [OF run_step.hyps(1)]] run_step.prems(2) by simp
  with run_step sstep_dag_inv [OF wf base reg nc] show ?case by blast
qed


section \<open>The constructor establishes the invariant\<close>

lemma init_task_indegrees_list:
  assumes "wf_actions acts"
  shows "init_task_indegrees acts = map (\<lambda>a. ((ref a, root_stream), int (length (depends_on a)))) acts"
proof -
  have "distinct (map (\<lambda>a. (ref a, root_stream)) acts)"
    using wf_actions_distinct [OF assms] by (auto simp: distinct_map inj_on_def)
  then show ?thesis
    using fold_dict_set_keys [of "[]" "\<lambda>a. (ref a, root_stream)" acts] by (simp add: init_task_indegrees_def)
qed

lemma dsl_exn_Inr: "dsl_exn x = Inr v \<longleftrightarrow> x = Inr v"
  by (auto simp: dsl_exn_def split: sum.splits dsl_error.splits)

lemma image_snd_single: "snd ` A \<subseteq> {x} \<Longrightarrow> A = (\<lambda>r. (r, x)) ` {r. (r, x) \<in> A}"
  by force

lemma new_scheduler_plain:
  assumes wf: "wf_actions acts" and new: "new_scheduler acts n ctx = Inr s"
  shows "plain_base acts s" and "acyclic (dep_relation acts)" and "indegrees s = init_task_indegrees acts"
    and "queue s = []" and "completed_tasks s = {}" and "task_exceptions s = []"
proof -
  obtain tmp where tmp: "collect_adj acts = Inr tmp" "\<And>k. set (get_default [] tmp k) = succ_edges acts k"
    "\<And>k. distinct (get_default [] tmp k)" using collect_adj_ok [OF wf] by metis
  from new tmp(1) obtain cadj maps where adj: "to_adjacency acts = Inr cadj" "assign_action_scopes acts cadj = Inr maps"
    and s: "tasks s = stmts_by_ref acts" "adj s = sorted_adj acts tmp"
    and rest: "indegrees s = init_task_indegrees acts" "queue s = []" "completed_tasks s = {}" "task_exceptions s = []"
    by (auto simp: new_scheduler_def sbind_eq_Inr dsl_exn_Inr split: if_splits)
  from assign_action_scopes_order [OF wf adj] obtain vis where
    "topo_ordered acts [] vis" "distinct vis" "set vis = ref ` set acts" .
  then show "acyclic (dep_relation acts)" by (rule topo_ordered_acyclic)
  show "plain_base acts s"
    by (simp only: plain_base_def s sorted_adj_get stmts_by_ref_keys) (auto simp: tmp)
  show "indegrees s = init_task_indegrees acts" "queue s = []" "completed_tasks s = {}" "task_exceptions s = []"
    by (fact rest)+
qed

lemma start_ledger:
  assumes wf: "wf_actions acts" and ind: "indegrees s = init_task_indegrees acts"
    and q: "queue s = []" and comp: "completed_tasks s = {}"
  shows "ledger acts (cs (start_config s)) [] []"
proof -
  have ready: "ready_tasks s = map (\<lambda>a. mk_task (ref a) root_stream 0) (filter (\<lambda>a. depends_on a = []) acts)"
    by (simp add: ready_tasks_def ind init_task_indegrees_list [OF wf] filter_map comp_def)
  have "dict_get (indegrees s) (ref a, root_stream) = Some (int (length (depends_on a)))" if "a \<in> set acts" for a
  proof -
    have "inj_on (\<lambda>a. (ref a, root_stream)) (set acts)"
      using wf_actions_distinct [OF wf] by (auto simp: distinct_map inj_on_def)
    then show ?thesis
      using that unfolding ind init_task_indegrees_list [OF wf]
      by (intro map_of_is_SomeI) (use wf_actions_distinct [OF wf] in \<open>auto simp: distinct_map comp_def inj_on_def\<close>)
  qed
  then have "\<forall>a \<in> set acts. known_indegree s (ref a, root_stream) = int (missing {} a)"
    by (simp add: known_indegree_def missing_start)
  moreover have "distinct (map t_ref (ready_tasks s))"
    using wf_actions_distinct [OF wf] by (simp add: ready comp_def mk_task_def distinct_map_filter)
  moreover have "ref a \<in> t_ref ` set (ready_tasks s) \<longleftrightarrow> missing {} a = 0" if "a \<in> set acts" for a
    using that wf_actions_unique [OF wf] by (force simp: ready mk_task_def missing_start)
  ultimately show ?thesis
    by (auto simp: ledger_def start_config_def finished_def comp q ready root_task_def mk_task_def)
qed

lemma start_dag_inv:
  assumes "wf_actions acts" and "new_scheduler acts n ctx = Inr s"
  shows "dag_inv acts s R [] (start_config s)"
  using start_ledger [OF assms(1) new_scheduler_plain(3-5) [OF assms]]
  by (simp add: dag_inv_def actives_def) (simp add: start_config_def same_config_def)

section \<open>Properties\<close>

lemma run_ledger:
  assumes "wf_actions acts" and "\<forall>a \<in> set acts. regular_action a" and "new_scheduler acts n ctx = Inr s"
    and "no_cancel R" and "run env R (start_config s) tr c" and "task_exceptions (cs c) = []"
  shows "ledger acts (cs c) tr (actives c)"
  using run_dag_inv [OF assms(1) new_scheduler_plain(1) [OF assms(1,3)] assms(2,4,5) start_dag_inv [OF assms(1,3)] assms(6)]
  by (simp add: dag_inv_def)

lemma returned_ledger:
  assumes "wf_actions acts" and "\<forall>a \<in> set acts. regular_action a" and "new_scheduler acts n ctx = Inr s"
    and "no_cancel R" and "run env R (start_config s) tr c" and "pc c = MReturned None"
  shows "ledger acts (cs c) tr []" and "queue (cs c) = []"
    and "completed_tasks (cs c) = (\<lambda>r. (r, root_stream)) ` finished (cs c)"
proof -
  have ended: "task_exceptions (cs c) = []" "queue (cs c) = []" "pending c = []"
    using run_result_inv [OF assms(5)] assms(6) by (simp_all add: result_inv_def)
  with run_ledger [OF assms(1-5)] show l: "ledger acts (cs c) tr []" by (simp add: actives_def)
  show "queue (cs c) = []" by (fact ended(2))
  show "completed_tasks (cs c) = (\<lambda>r. (r, root_stream)) ` finished (cs c)"
    using l unfolding finished_def by (intro image_snd_single) (simp add: ledger_def)
qed

text \<open>C2: regular actions start once and in order. In every run of a workflow that consists of regular
  actions only (no scatter, gather or loop), in which no request is answered by a cancellation, as long
  as no failure is recorded: no action is started twice, every started action's dependencies were
  started before it, and all of them have completed.\<close>

theorem dag_run_in_order:
  assumes "wf_actions acts" and "\<forall>a \<in> set acts. regular_action a"
    and "new_scheduler acts n ctx = Inr s" and "no_cancel R"
    and "run env R (start_config s) tr c" and "task_exceptions (cs c) = []"
  shows "distinct (map t_ref tr) \<and> topo_ordered acts [] (map t_ref tr) \<and>
    (\<forall>a \<in> set acts. ref a \<in> t_ref ` set tr \<longrightarrow>
       (\<forall>d \<in> set (depends_on a). (dep_src d, root_stream) \<in> completed_tasks (cs c)))"
proof -
  have l: "ledger acts (cs c) tr (actives c)" by (rule run_ledger [OF assms])
  have "missing (finished (cs c)) a = 0" if "a \<in> set acts" "ref a \<in> t_ref ` set tr" for a
    using l that unfolding ledger_def by blast
  with l show ?thesis by (fastforce simp: ledger_def missing_zero finished_def)
qed

text \<open>C1: a run that reports success has run everything. Let a workflow consist of regular actions
  only, none of which names a dependency twice, and let no request be answered by a cancellation. If
  \<open>start\<close> returns \<open>None\<close>, every action was started exactly once, in dependency order, and has
  completed.\<close>

theorem dag_run_complete:
  assumes "wf_actions acts" and "distinct_deps acts" and "\<forall>a \<in> set acts. regular_action a"
    and "new_scheduler acts n ctx = Inr s" and "no_cancel R"
    and "run env R (start_config s) tr c" and "pc c = MReturned None"
  shows "distinct (map t_ref tr) \<and> t_ref ` set tr = ref ` set acts \<and> topo_ordered acts [] (map t_ref tr) \<and>
    completed_tasks (cs c) = (\<lambda>a. (ref a, root_stream)) ` set acts"
proof -
  note end_facts = returned_ledger [OF assms(1,3-7)]
  have "ref ` set acts \<subseteq> finished (cs c)"
    by (rule acyclic_all_finished [OF assms(1) new_scheduler_plain(2) [OF assms(1,4)]])
      (use end_facts(1,2) assms(2) in \<open>simp add: ledger_def missing_zero distinct_deps_def list_all_iff\<close>)
  with end_facts(1) have fin: "finished (cs c) = ref ` set acts" by (auto simp: ledger_def)
  with end_facts show ?thesis by (auto simp: ledger_def)
qed

text \<open>
  An action that names one dependency edge twice waits for two completions of it, but the adjacency
  table holds the edge once. Such actions and all that depend on them, directly or not:
\<close>

definition blocked :: "action_stmt list \<Rightarrow> string set" where
  "blocked acts = {r. \<exists>a \<in> set acts. \<not> distinct (map dep_edge (depends_on a)) \<and> (ref a, r) \<in> (dep_relation acts)\<^sup>*}"

lemma blocked_not_finished:
  assumes wf: "wf_actions acts" and l: "ledger acts s tr active" and r: "r \<in> blocked acts"
  shows "r \<notin> set active \<union> t_ref ` set (queue s) \<union> finished s"
proof -
  from r obtain a where a: "a \<in> set acts" "\<not> distinct (map dep_edge (depends_on a))"
    and path: "(ref a, r) \<in> (dep_relation acts)\<^sup>*" by (auto simp: blocked_def)
  have stuck: "ref b \<notin> set active \<union> t_ref ` set (queue s) \<union> finished s"
    if b: "b \<in> set acts" "missing (finished s) b \<noteq> 0" for b
  proof -
    have "\<forall>a \<in> set acts. ref a \<in> set active \<union> t_ref ` set (queue s) \<union> finished s \<longleftrightarrow> missing (finished s) a = 0"
      using l by (simp add: ledger_def)
    from bspec [OF this b(1)] b(2) show ?thesis by simp
  qed
  from path show ?thesis
  proof (induction rule: rtrancl_induct)
    case base
    from stuck [OF a(1)] a(2) show ?case by (simp add: missing_zero)
  next
    case (step y z)
    then obtain b d where "b \<in> set acts" "d \<in> set (depends_on b)" "y = dep_src d" "z = ref b"
      by (auto simp: dep_relation_def)
    with step.IH stuck [of b] show ?case by (auto simp: missing_zero)
  qed
qed

lemma blockedI: "a \<in> set acts \<Longrightarrow> \<not> distinct (map dep_edge (depends_on a)) \<Longrightarrow> ref a \<in> blocked acts"
  by (auto simp: blocked_def)

lemma blocked_dep: "a \<in> set acts \<Longrightarrow> d \<in> set (depends_on a) \<Longrightarrow> dep_src d \<in> blocked acts \<Longrightarrow> ref a \<in> blocked acts"
  unfolding blocked_def by (blast intro: rtrancl_into_rtrancl dep_relationI)

text \<open>C39: a repeated dependency silently drops actions. Let a workflow consist of regular actions only
  and let no request be answered by a cancellation. As long as no failure is recorded, an action that
  names a dependency twice is never started and never completes, and neither does any action that
  depends on it directly or indirectly; and when \<open>start\<close> returns \<open>None\<close>, reporting success, exactly the
  other actions have been started and have completed.\<close>

theorem repeated_dependency_never_runs:
  assumes "wf_actions acts" and "\<forall>a \<in> set acts. regular_action a"
    and "new_scheduler acts n ctx = Inr s" and "no_cancel R" and "run env R (start_config s) tr c"
  shows "(task_exceptions (cs c) = [] \<longrightarrow>
      (\<forall>r \<in> blocked acts. r \<notin> t_ref ` set tr \<and> (r, root_stream) \<notin> completed_tasks (cs c))) \<and>
    (pc c = MReturned None \<longrightarrow>
      t_ref ` set tr = ref ` set acts - blocked acts \<and>
      completed_tasks (cs c) = (\<lambda>r. (r, root_stream)) ` (ref ` set acts - blocked acts))"
proof (intro conjI impI)
  assume "task_exceptions (cs c) = []"
  then have l: "ledger acts (cs c) tr (actives c)" by (rule run_ledger [OF assms])
  then have "t_ref ` set tr = set (actives c) \<union> finished (cs c)" by (simp add: ledger_def)
  with blocked_not_finished [OF assms(1) l]
  show "\<forall>r \<in> blocked acts. r \<notin> t_ref ` set tr \<and> (r, root_stream) \<notin> completed_tasks (cs c)"
    by (auto simp: finished_def)
next
  assume pc: "pc c = MReturned None"
  note end_facts = returned_ledger [OF assms pc]
  have "ref a \<in> finished (cs c) \<union> blocked acts"
    if a: "a \<in> set acts" "dep_src ` set (depends_on a) \<subseteq> finished (cs c) \<union> blocked acts" for a
  proof (rule ccontr)
    assume "ref a \<notin> finished (cs c) \<union> blocked acts"
    moreover from this a have "missing (finished (cs c)) a = 0"
      using blockedI [OF a(1)] blocked_dep [OF a(1)] by (auto simp: missing_zero)
    ultimately show False using end_facts(1,2) a(1) by (auto simp: ledger_def)
  qed
  from acyclic_all_finished [OF assms(1) new_scheduler_plain(2) [OF assms(1,3)] this]
  have "ref ` set acts \<subseteq> finished (cs c) \<union> blocked acts" .
  moreover have "finished (cs c) \<subseteq> ref ` set acts" "t_ref ` set tr = finished (cs c)"
    using end_facts(1) by (simp_all add: ledger_def)
  moreover have "finished (cs c) \<inter> blocked acts = {}" using blocked_not_finished [OF assms(1) end_facts(1)] by blast
  ultimately have "finished (cs c) = ref ` set acts - blocked acts" "t_ref ` set tr = finished (cs c)" by auto
  with end_facts(3) show "t_ref ` set tr = ref ` set acts - blocked acts"
    "completed_tasks (cs c) = (\<lambda>r. (r, root_stream)) ` (ref ` set acts - blocked acts)" by simp_all
qed

text \<open>Graphs of regular actions and the two cycle checks.\<close>

lemma regular_not_control:
  "regular_action a \<Longrightarrow> action a \<notin> {TRANSFORM_SCATTER, TRANSFORM_GATHER, LOOP_START, LOOP_END}"
  by (auto simp: regular_action_def SCOPE_OPENER_ACTIONS_def SCOPE_CLOSER_ACTIONS_def)

lemma regular_no_control_refs:
  assumes "\<forall>a \<in> set acts. regular_action a" and "act \<in> {TRANSFORM_SCATTER, TRANSFORM_GATHER, LOOP_START, LOOP_END}"
  shows "refs_of_action act acts = []"
  using assms regular_not_control by (auto simp: refs_of_action_def filter_empty_conv)

lemma collect_dependencies_ok:
  assumes "wf_actions acts"
  shows "\<exists>ds. collect_dependencies acts = Inr ds \<and> set ds \<subseteq> ref ` set acts"
proof -
  let ?f = "\<lambda>a dep acc. case edge_components_from_dep dep of
      Inl _ \<Rightarrow> Inl (InvalidDepRef dep (ref a)) | Inr (src, _) \<Rightarrow> Inr (acc @ [src])"
  have step: "sfold (?f a) deps acc = Inr (acc @ map dep_src deps)"
    if "a \<in> set acts" "set deps \<subseteq> set (depends_on a)" for a deps acc
    using that by (induction deps arbitrary: acc)
      (simp_all add: wf_actions_dep(1) [OF assms] case_prod_unfold)
  have "sfold (\<lambda>a. sfold (?f a) (depends_on a)) as acc =
      Inr (acc @ concat (map (\<lambda>a. map dep_src (depends_on a)) as))" if "set as \<subseteq> set acts" for as acc
    using that by (induction as arbitrary: acc) (simp_all add: step)
  then show ?thesis using wf_actions_dep(2) [OF assms] by (auto simp: collect_dependencies_def)
qed

lemma regular_validated:
  assumes wf: "wf_actions acts" and reg: "\<forall>a \<in> set acts. regular_action a"
    and entry: "a \<in> set acts" "depends_on a = []"
    and exprs: "all_action_expressions_valid parse (set (map ref acts)) acts = Inr ()"
  shows "validate_structure parse acts = Inr ()"
proof -
  obtain ds where ds: "collect_dependencies acts = Inr ds" "set ds \<subseteq> ref ` set acts"
    using collect_dependencies_ok [OF wf] by blast
  then have "filter (\<lambda>d. d \<notin> set (map ref acts)) ds = []" by (auto simp: filter_empty_conv)
  moreover have "card (set (map ref acts)) = length acts" using distinct_card [OF wf_actions_distinct [OF wf]] by simp
  moreover have "acts \<noteq> []" "filter (\<lambda>a. depends_on a = []) acts \<noteq> []" using entry by (auto simp: filter_empty_conv)
  moreover have "validate_scatter_gather_scopes parse acts = Inr ()"
    by (simp add: validate_scatter_gather_scopes_def regular_no_control_refs [OF reg])
  ultimately show ?thesis using ds(1) exprs by (simp add: validate_structure_def del: filter_empty_conv)
qed

lemma regular_cyclic_rejected:
  assumes wf: "wf_actions acts" and reg: "\<forall>a \<in> set acts. regular_action a"
    and cyc: "\<not> acyclic (dep_relation acts)" and adj: "to_adjacency acts = Inr cadj"
  shows "assign_action_scopes acts cadj = Inl CycleDetected"
proof -
  have "root_only [] (init_scope_state acts)" by (auto simp: root_only_def init_scope_state_def)
  from root_only_loop [OF wf reg adj kahn_inv_init [OF wf] this] obtain st where
    "scope_loop (stmts_by_ref acts) cadj (init_scope_state acts) = Inr st" by blast
  moreover have "assign_action_scopes acts cadj \<noteq> Inr (ss_scopes st, ss_hierarchy st, ss_openers st)"
    using assign_action_scopes_order [OF wf adj] topo_ordered_acyclic cyc by metis
  ultimately show ?thesis by (simp add: assign_action_scopes_def split: if_splits)
qed

lemma regular_no_loops:
  assumes "\<forall>a \<in> set acts. regular_action a"
  shows "build_loop_regions acts stmts scopes [(ROOT_SCOPE, None)] = Inr []"
proof -
  have "sfold (loop_end_step stmts scopes) as [] = Inr []" if "set as \<subseteq> set acts" for as
    using that assms regular_not_control by (induction as) (auto simp: loop_end_step_def)
  moreover have "claim_walk [(ROOT_SCOPE, None)] r sc [] = Some []" for r sc
    by (simp add: claim_walk.simps get_opt_def)
  then have "sfold (\<lambda>(r, sc) ms. case claim_walk [(ROOT_SCOPE, None)] r sc ms of None \<Rightarrow> Inl NonTermination | Some ms' \<Rightarrow> Inr ms')
      scs [] = Inr []" for scs
    by (induction scs) auto
  ultimately show ?thesis by (simp add: build_loop_regions_def)
qed

text \<open>C40: where cycles are rejected. A definition of regular actions with an entry point, resolvable
  dependencies and valid expressions passes structural validation whether its dependencies are cyclic
  or not. The constructor of the scheduler accepts it exactly when they are acyclic; otherwise it
  raises, so that a cyclic definition is rejected only when it is run.\<close>

theorem cycles_rejected_at_run_only:
  assumes "wf_actions acts" and "\<forall>a \<in> set acts. regular_action a" and "a \<in> set acts" and "depends_on a = []"
    and "all_action_expressions_valid parse (set (map ref acts)) acts = Inr ()" and "1 \<le> n"
  shows "validate_structure parse acts = Inr () \<and>
    (if acyclic (dep_relation acts) then \<exists>s. new_scheduler acts n ctx = Inr s
     else new_scheduler acts n ctx = Inl (PyError ''TracecatDSLError'' []))"
proof -
  obtain tmp where tmp: "collect_adj acts = Inr tmp" using collect_adj_ok [OF assms(1)] .
  obtain cadj where cadj: "to_adjacency acts = Inr cadj" using to_adjacency_ok [OF assms(1)] .
  have "\<exists>s. new_scheduler acts n ctx = Inr s" if "acyclic (dep_relation acts)"
    using regular_acyclic_accepted [OF assms(1,2) that cadj] tmp cadj assms(6)
    by (auto simp: new_scheduler_def dsl_exn_def regular_no_loops [OF assms(2)])
  moreover have "new_scheduler acts n ctx = Inl (PyError ''TracecatDSLError'' [])" if "\<not> acyclic (dep_relation acts)"
    using regular_cyclic_rejected [OF assms(1,2) that cadj] tmp cadj assms(6)
    by (simp add: new_scheduler_def dsl_exn_def)
  ultimately show ?thesis using regular_validated [OF assms(1-5)] by simp
qed

section \<open>Instances\<close>

lemma chain_dag:
  "wf_actions chain_actions" "distinct_deps chain_actions" "\<forall>a \<in> set chain_actions. regular_action a"
  by (code_simp, code_simp)
    (simp add: chain_actions_def new_stmt_def regular_action_def SCOPE_OPENER_ACTIONS_def SCOPE_CLOSER_ACTIONS_def
      TRANSFORM_GATHER_def TRANSFORM_SCATTER_def LOOP_END_def LOOP_START_def)

lemma sample_no_cancel: "no_cancel (\<lambda>q r. r = sample_answer q)"
proof -
  have "sample_answer q \<noteq> RespRaise CancelledError \<and> (\<forall>x. sample_answer q \<noteq> RespExec x (Some CancelledError))" for q
    by (cases q) simp_all
  then show ?thesis by (simp add: no_cancel_def)
qed

theorem dag_run_in_order_witness:
  "\<exists>tr. run sample_env (\<lambda>q r. r = sample_answer q) (start_config chain_sched) tr
      (simulate sample_env sample_answer 16 (start_config chain_sched)) \<and> distinct (map t_ref tr)"
proof -
  obtain tr where tr: "run sample_env (\<lambda>q r. r = sample_answer q) (start_config chain_sched) tr
      (simulate sample_env sample_answer 16 (start_config chain_sched))"
    using chain_run by blast
  have "task_exceptions (cs (simulate sample_env sample_answer 16 (start_config chain_sched))) = []"
    using run_result_inv [OF tr] chain_returns by (simp add: result_inv_def)
  from dag_run_in_order [OF chain_dag(1,3) chain_new sample_no_cancel tr this] tr show ?thesis by blast
qed

theorem dag_run_complete_witness:
  "completed_tasks (cs (simulate sample_env sample_answer 16 (start_config chain_sched))) =
     {(''a'', root_stream), (''b'', root_stream)}"
proof -
  obtain tr where tr: "run sample_env (\<lambda>q r. r = sample_answer q) (start_config chain_sched) tr
      (simulate sample_env sample_answer 16 (start_config chain_sched))"
    using chain_run by blast
  from dag_run_complete [OF chain_dag chain_new sample_no_cancel tr chain_returns] show ?thesis
    by (simp add: chain_actions_def new_stmt_def)
qed

lemma duplicate_dag: "wf_actions duplicate_actions" "\<forall>a \<in> set duplicate_actions. regular_action a"
  by code_simp+

lemma duplicate_new: "new_scheduler duplicate_actions 4 empty_context = Inr duplicate_sched"
  by code_simp

lemma duplicate_returns: "pc (simulate sample_env sample_answer 10 (start_config duplicate_sched)) = MReturned None"
  by (simp add: run_eval chain_defs duplicate_sched_def cong: eval_congs let_weak_cong)

lemma duplicate_blocked: "blocked duplicate_actions = {''b''}"
proof -
  have "dep_relation duplicate_actions = (\<lambda>(a, d). (dep_src d, ref a)) ` set (dep_pairs duplicate_actions)"
    by (force simp: dep_relation_def dep_pairs_def)
  also have "\<dots> = {(''a'', ''b'')}"
    by (simp add: dep_pairs_def duplicate_actions_def new_stmt_def dep_edge_def edge_components_from_dep_def)
  finally have "dep_relation duplicate_actions = {(''a'', ''b'')}" .
  then have "(x, r) \<in> (dep_relation duplicate_actions)\<^sup>* \<longleftrightarrow> x = r \<or> x = ''a'' \<and> r = ''b''" for x r
    by (auto elim: rtranclE)
  then show ?thesis by (auto simp: blocked_def duplicate_actions_def new_stmt_def)
qed

theorem repeated_dependency_never_runs_witness:
  "validate_structure (\<lambda>_. Some []) duplicate_actions = Inr () \<and>
   pc (simulate sample_env sample_answer 10 (start_config duplicate_sched)) = MReturned None \<and>
   (\<exists>tr. run sample_env (\<lambda>q r. r = sample_answer q) (start_config duplicate_sched) tr
        (simulate sample_env sample_answer 10 (start_config duplicate_sched)) \<and> t_ref ` set tr = {''a''}) \<and>
   completed_tasks (cs (simulate sample_env sample_answer 10 (start_config duplicate_sched))) = {(''a'', root_stream)}"
proof -
  obtain tr where tr: "run sample_env (\<lambda>q r. r = sample_answer q) (start_config duplicate_sched) tr
      (simulate sample_env sample_answer 10 (start_config duplicate_sched))"
    using simulate_run by blast
  have "ref ` set duplicate_actions - {''b''} = {''a''}" by (auto simp: duplicate_actions_def new_stmt_def)
  with repeated_dependency_never_runs [OF duplicate_dag duplicate_new sample_no_cancel tr] duplicate_returns
  have "t_ref ` set tr = {''a''}"
    "completed_tasks (cs (simulate sample_env sample_answer 10 (start_config duplicate_sched))) = {(''a'', root_stream)}"
    unfolding duplicate_blocked by simp_all
  moreover have "validate_structure (\<lambda>_. Some []) duplicate_actions = Inr ()" by code_simp
  ultimately show ?thesis using tr duplicate_returns by blast
qed

definition cyclic_actions :: "action_stmt list" where
  "cyclic_actions =
     [new_stmt ''a'' ''core.http'',
      (new_stmt ''b'' ''core.http'')\<lparr>depends_on := [''a'', ''c'']\<rparr>,
      (new_stmt ''c'' ''core.http'')\<lparr>depends_on := [''b'']\<rparr>]"

lemma cyclic_actions_cycle: "\<not> acyclic (dep_relation cyclic_actions)"
proof -
  let ?b = "(new_stmt ''b'' ''core.http'')\<lparr>depends_on := [''a'', ''c'']\<rparr>"
    and ?c = "(new_stmt ''c'' ''core.http'')\<lparr>depends_on := [''b'']\<rparr>"
  have "?b \<in> set cyclic_actions" "?c \<in> set cyclic_actions" "ref ?b = ''b''" "ref ?c = ''c''"
    "''c'' \<in> set (depends_on ?b)" "''b'' \<in> set (depends_on ?c)" "dep_src ''c'' = ''c''" "dep_src ''b'' = ''b''"
    by (simp_all add: cyclic_actions_def new_stmt_def dep_edge_def edge_components_from_dep_def)
  then have "(''c'', ''b'') \<in> dep_relation cyclic_actions" "(''b'', ''c'') \<in> dep_relation cyclic_actions"
    using dep_relationI [of ?b cyclic_actions "''c''"] dep_relationI [of ?c cyclic_actions "''b''"] by auto
  then have "(''b'', ''b'') \<in> (dep_relation cyclic_actions)\<^sup>+" by (meson trancl.simps)
  then show ?thesis by (auto simp: acyclic_def)
qed

theorem cycles_rejected_at_run_only_witness:
  "validate_structure (\<lambda>_. Some []) cyclic_actions = Inr () \<and>
   new_scheduler cyclic_actions 4 empty_context = Inl (PyError ''TracecatDSLError'' [])"
proof -
  have "wf_actions cyclic_actions" "\<forall>a \<in> set cyclic_actions. regular_action a"
    "all_action_expressions_valid (\<lambda>_. Some []) (set (map ref cyclic_actions)) cyclic_actions = Inr ()"
    by code_simp+
  moreover have "new_stmt ''a'' ''core.http'' \<in> set cyclic_actions" "depends_on (new_stmt ''a'' ''core.http'') = []"
    by (simp_all add: cyclic_actions_def new_stmt_def)
  ultimately show ?thesis
    using cycles_rejected_at_run_only [of cyclic_actions "new_stmt ''a'' ''core.http''" "\<lambda>_. Some []" 4 empty_context]
      cyclic_actions_cycle by simp
qed

end
