(* ===== verification/Scheduler_Loops.thy ===== *)
theory Scheduler_Loops
  imports Scheduler_Queue
begin

text \<open>
  Do-while loops of the scheduler (\<open>_cleanup_loop_descendant_streams\<close>, \<open>_reset_loop_iteration_state\<close>,
  \<open>_handle_loop_end\<close>): which streams an iteration leaves behind and are removed, and what the state
  is when the next iteration starts.
\<close>

section \<open>Removing the streams of an iteration\<close>










section \<open>The next iteration\<close>

definition internal_count :: "loop_region \<Rightarrow> action_stmt \<Rightarrow> int" where
  "internal_count region stmt = int (length (filter (\<lambda>d. dep_src d \<in> set (members region)) (depends_on stmt)))"


text \<open>One member, as a pure function.\<close>

definition forget_member :: "loop_region \<Rightarrow> stream_id \<Rightarrow> string \<Rightarrow> sched \<Rightarrow> sched" where
  "forget_member region sid r s =
     s\<lparr>completed_tasks := completed_tasks s - {(r, sid)},
       indegrees := (case dict_get (tasks s) r of
           None \<Rightarrow> indegrees s
         | Some stmt \<Rightarrow> dict_set (r, sid) (internal_count region stmt) (indegrees s))\<rparr>"


lemma forget_member_frame [simp]:
  "tasks (forget_member region sid r s) = tasks s" "queue (forget_member region sid r s) = queue s"
  "edges (forget_member region sid r s) = edges s" "loop_indices (forget_member region sid r s) = loop_indices s"
  "streams (forget_member region sid r s) = streams s" "task_streams (forget_member region sid r s) = task_streams s"
  "open_streams (forget_member region sid r s) = open_streams s"
  "task_exceptions (forget_member region sid r s) = task_exceptions s"
  by (simp_all add: forget_member_def)







section \<open>An instance\<close>





end
