(* ===== verification/Scheduler_Streams.thy ===== *)
theory Scheduler_Streams
  imports Scheduler_Eval
begin

text \<open>
  Invariants of the scheduler's stream and loop tables that hold in every reachable configuration,
  whatever the activities answer and however the coroutines interleave, and what they give: the
  lookup of an action's result along the enclosing streams always ends, with the nearest result
  (\<open>get_stream_aware_action_result\<close>), and no loop passes the platform's iteration cap.
\<close>

section \<open>Invariants of runs\<close>

text \<open>
  A state predicate that every elementary update keeps, and that does not depend on the queue, holds
  in every configuration of a run that starts with it.
\<close>

locale sched_invariant = sched_frame env "\<lambda>s s'. inv s \<longrightarrow> inv s'" for env :: sched_env and inv :: "sched \<Rightarrow> bool" +
  assumes inv_queue: "inv s \<Longrightarrow> inv (s\<lparr>queue := q\<rparr>)"
begin

lemma run_inv:
  assumes "run env R (start_config s) tr c" and "inv s"
  shows "inv (cs c)"
  using assms(1)
proof (induction rule: run.induct)
  case run_start
  show ?case using inv_queue [OF assms(2)] by (simp add: start_config_def)
next
  case (run_step tr c l c')
  note guar = sstep_guar [OF run_step.hyps(2) run_guar [OF run_step.hyps(1)]]
  show ?case
  proof (cases l)
    case None
    with guar run_step.IH show ?thesis by simp
  next
    case (Some t)
    with run_step.hyps(2) obtain q where "cs c' = (cs c)\<lparr>queue := q\<rparr>" by (auto elim: sstepE)
    with inv_queue [OF run_step.IH] show ?thesis by simp
  qed
qed

end

section \<open>The tree of streams\<close>

lemma set_action_result_tables [simp]:
  "stream_hierarchy (set_action_result sid r tr s) = stream_hierarchy s"
  "loop_indices (set_action_result sid r tr s) = loop_indices s"
  by (simp_all add: set_action_result_def split: option.split)

definition stream_tree :: "sched \<Rightarrow> bool" where
  "stream_tree s \<longleftrightarrow> (\<forall>sid p. dict_get (stream_hierarchy s) sid = Some (Some p) \<longrightarrow>
     (\<exists>r ix. sid = stream_new r ix (Some p)))"

lemma stream_tree_same: "stream_hierarchy s' = stream_hierarchy s \<Longrightarrow> stream_tree s \<Longrightarrow> stream_tree s'"
  by (simp add: stream_tree_def)

lemma stream_tree_open: "stream_tree s \<Longrightarrow> stream_tree (open_stream sid (stream_new r ix (Some sid)) ctx s)"
  unfolding stream_tree_def open_stream_def by (fastforce split: if_splits)

lemma stream_tree_remove: "stream_tree s \<Longrightarrow> stream_tree (remove_streams rem s)"
  unfolding stream_tree_def remove_streams_def by (simp split: if_splits)

interpretation tree: sched_invariant env stream_tree for env
  by unfold_locales (simp, blast, (auto intro: stream_tree_open stream_tree_remove elim: stream_tree_same [rotated])+)

lemma new_scheduler_tree: "new_scheduler acts n ctx = Inr s \<Longrightarrow> stream_tree s"
  by (auto simp: new_scheduler_def stream_tree_def sbind_eq_Inr split: if_splits prod.splits)

text \<open>The \<open>n\<close>-th enclosing stream, and the result an action has in the context of one stream.\<close>

primrec enclosing :: "(stream_id, stream_id option) dict \<Rightarrow> nat \<Rightarrow> stream_id \<Rightarrow> stream_id option" where
  "enclosing h 0 sid = Some sid"
| "enclosing h (Suc n) sid = (case get_opt h sid of None \<Rightarrow> None | Some p \<Rightarrow> enclosing h n p)"

definition result_in :: "(stream_id, exec_context) dict \<Rightarrow> string \<Rightarrow> stream_id \<Rightarrow> task_result option" where
  "result_in ctxs r sid = (case dict_get ctxs sid of None \<Rightarrow> None | Some c \<Rightarrow> dict_get (ctx_actions c) r)"

definition nearest_result ::
  "(stream_id, exec_context) dict \<Rightarrow> (stream_id, stream_id option) dict \<Rightarrow> string \<Rightarrow> stream_id \<Rightarrow> task_result option \<Rightarrow> bool"
where
  "nearest_result ctxs h r sid x \<longleftrightarrow>
     (case x of
        Some tr \<Rightarrow> \<exists>n p. enclosing h n sid = Some p \<and> result_in ctxs r p = Some tr \<and>
          (\<forall>m q. m < n \<longrightarrow> enclosing h m sid = Some q \<longrightarrow> result_in ctxs r q = None)
      | None \<Rightarrow> \<forall>n p. enclosing h n sid = Some p \<longrightarrow> result_in ctxs r p = None)"

lemma nearest_here: "result_in ctxs r sid = Some tr \<Longrightarrow> nearest_result ctxs h r sid (Some tr)"
  by (auto simp: nearest_result_def intro: exI [of _ 0])

lemma nearest_up:
  assumes "result_in ctxs r sid = None" and "get_opt h sid = Some p" and "nearest_result ctxs h r p x"
  shows "nearest_result ctxs h r sid x"
proof (cases x)
  case None
  have "result_in ctxs r q = None" if "enclosing h n sid = Some q" for n q
    using that assms None by (cases n) (auto simp: nearest_result_def)
  with None show ?thesis by (simp add: nearest_result_def)
next
  case (Some tr)
  with assms(3) obtain n q where n: "enclosing h n p = Some q" "result_in ctxs r q = Some tr"
    "\<forall>m q. m < n \<longrightarrow> enclosing h m p = Some q \<longrightarrow> result_in ctxs r q = None"
    by (auto simp: nearest_result_def)
  have "result_in ctxs r q' = None" if "m < Suc n" "enclosing h m sid = Some q'" for m q'
    using that assms n(3) by (cases m) auto
  with n assms(2) Some show ?thesis by (auto simp: nearest_result_def intro!: exI [of _ "Suc n"])
qed

lemma nearest_none: "result_in ctxs r sid = None \<Longrightarrow> get_opt h sid = None \<Longrightarrow> nearest_result ctxs h r sid None"
proof -
  assume a: "result_in ctxs r sid = None" "get_opt h sid = None"
  have "result_in ctxs r p = None" if "enclosing h n sid = Some p" for n p
    using that a by (cases n) auto
  then show ?thesis by (simp add: nearest_result_def)
qed

lemma stream_lookup_total:
  assumes "\<forall>sid p. dict_get h sid = Some (Some p) \<longrightarrow> (\<exists>r ix. sid = stream_new r ix (Some p))"
  shows "\<exists>x. stream_lookup ctxs h r sid = Some x \<and> nearest_result ctxs h r sid x"
proof (induction sid rule: length_induct)
  case (1 sid)
  show ?case
  proof (cases "result_in ctxs r sid")
    case (Some tr)
    with nearest_here [OF this] show ?thesis
      by (subst stream_lookup.simps) (auto simp: result_in_def)
  next
    case none: None
    show ?thesis
    proof (cases "get_opt h sid")
      case None
      with none nearest_none [OF none None] show ?thesis
        by (subst stream_lookup.simps) (simp add: result_in_def)
    next
      case (Some p)
      then obtain q ix where "sid = stream_new q ix (Some p)"
        using assms by (auto simp: get_opt_def split: option.splits)
      then have "length p < length sid" by simp
      with 1 obtain x where "stream_lookup ctxs h r p = Some x" "nearest_result ctxs h r p x" by blast
      with none Some nearest_up [OF none Some] show ?thesis
        by (subst stream_lookup.simps) (auto simp: result_in_def)
    qed
  qed
qed

text \<open>C9: results are found in the nearest enclosing stream. In every reachable configuration of a
  scheduler, looking up the result of an action from any stream returns: with the result in the nearest
  enclosing stream that has one, or with nothing when no enclosing stream has.\<close>

theorem stream_lookup_nearest:
  assumes "new_scheduler acts n ctx = Inr s" and "run env R (start_config s) tr c"
  shows "\<exists>x. get_stream_aware_action_result (cs c) r sid = Inr x \<and>
    nearest_result (streams (cs c)) (stream_hierarchy (cs c)) r sid x"
proof -
  have "stream_tree (cs c)" by (rule tree.run_inv [OF assms(2) new_scheduler_tree [OF assms(1)]])
  then show ?thesis
    using stream_lookup_total [of "stream_hierarchy (cs c)" "streams (cs c)" r sid]
    by (auto simp: stream_tree_def get_stream_aware_action_result_def)
qed

section \<open>The iteration cap\<close>

definition loops_capped :: "sched \<Rightarrow> bool" where
  "loops_capped s \<longleftrightarrow> (\<forall>k n. dict_get (loop_indices s) k = Some n \<longrightarrow> n < MAX_DO_WHILE_ITERATIONS)"

lemma LoopEndArgs_bounds: "LoopEndArgs env d = Inr a \<Longrightarrow> 1 \<le> le_max_iterations a \<and> le_max_iterations a \<le> MAX_DO_WHILE_ITERATIONS"
  by (auto simp: LoopEndArgs_def field_default_def bounded_int_def MAX_DO_WHILE_ITERATIONS_def split: option.splits if_splits)

interpretation capped: sched_invariant env loops_capped for env
  by unfold_locales (fastforce simp: loops_capped_def open_stream_def remove_streams_def
    dest: LoopEndArgs_bounds split: if_splits)+

text \<open>C10: no loop passes the platform cap. In every reachable configuration the index of every loop is
  below the cap, so that no iteration beyond it is ever started; and a loop end whose raw
  \<open>max_iterations\<close> is an integer above the cap raises the error that names the cap, whether it is
  skipped or not, before it changes anything.\<close>

theorem loop_index_capped:
  assumes "new_scheduler acts n ctx = Inr s" and "run env R (start_config s) tr c"
  shows "get_default 0 (loop_indices (cs c)) k < MAX_DO_WHILE_ITERATIONS \<and>
    (dict_get (loop_regions_by_end (cs c)) (t_ref t) \<noteq> None \<and>
     dict_get (args stmt) ''max_iterations'' = Some (VInt i) \<and> MAX_DO_WHILE_ITERATIONS < i \<longrightarrow>
       handle_loop_end env t stmt is_skipping (cs c) = (cs c, Raise (cap_error i)))"
proof (intro conjI impI)
  have "loops_capped s"
    using assms(1) by (auto simp: new_scheduler_def loops_capped_def sbind_eq_Inr split: if_splits prod.splits)
  then have "loops_capped (cs c)" by (rule capped.run_inv [OF assms(2)])
  then show "get_default 0 (loop_indices (cs c)) k < MAX_DO_WHILE_ITERATIONS"
    unfolding loops_capped_def get_default_def
    by (cases k) (simp add: MAX_DO_WHILE_ITERATIONS_def split: option.split)
next
  assume "dict_get (loop_regions_by_end (cs c)) (t_ref t) \<noteq> None \<and>
     dict_get (args stmt) ''max_iterations'' = Some (VInt i) \<and> MAX_DO_WHILE_ITERATIONS < i"
  then show "handle_loop_end env t stmt is_skipping (cs c) = (cs c, Raise (cap_error i))"
    by (auto simp: handle_loop_end_def exceeds_cap_def get_default_def bind_apply)
qed

section \<open>Instances\<close>

text \<open>A loop of one action whose condition always holds, after its first iteration.\<close>

definition capped_end :: "int \<Rightarrow> action_stmt" where
  "capped_end n = (new_stmt ''end'' LOOP_END)
     \<lparr>depends_on := [''body''], args := [(''condition'', VStr ''c''), (''max_iterations'', VInt n)]\<rparr>"

definition counted_loop_actions :: "action_stmt list" where
  "counted_loop_actions =
     [new_stmt ''start'' LOOP_START, (new_stmt ''body'' ''core.http'')\<lparr>depends_on := [''start'']\<rparr>, capped_end 3]"

definition counted_loop_region :: loop_region where
  "counted_loop_region = \<lparr>start_ref = ''start'', end_ref = ''end'', scope_ref = ''start'', members = [''end'', ''body'', ''start'']\<rparr>"

definition counted_loop_sched :: sched where
  "counted_loop_sched = chain_sched
     \<lparr>tasks := stmts_by_ref counted_loop_actions,
      adj := [(''start'', [(''body'', SUCCESS)]), (''body'', [(''end'', SUCCESS)]), (''end'', [])],
      action_scopes := [(''start'', ''start''), (''body'', ''start''), (''end'', ROOT_SCOPE)],
      scope_hierarchy := [(ROOT_SCOPE, None), (''start'', Some ROOT_SCOPE)],
      loop_regions := [(''start'', counted_loop_region)], loop_regions_by_end := [(''end'', counted_loop_region)],
      indegrees := [((''start'', root_stream), 0), ((''body'', root_stream), 1), ((''end'', root_stream), 1)]\<rparr>"

lemma extract_nothing: "extract_expressions (\<lambda>_. Some []) v = Inr []"
proof -
  have "sfold (extract_expr (\<lambda>_. Some [])) es [] = Inr []" for es
    by (induction es) (simp_all add: extract_expr_def)
  then show ?thesis by (simp add: extract_expressions_def)
qed

lemma sample_context: "build_stream_aware_context sample_env s stmt sid = Inr ((root_context s)\<lparr>ctx_actions := []\<rparr>)"
  by (simp add: build_stream_aware_context_def sample_env_def extract_nothing)

lemma counted_loop_args:
  "LoopEndArgs sample_env [(''condition'', VStr ''c''), (''max_iterations'', VInt 3)] =
     Inr \<lparr>le_condition = ''c'', le_max_iterations = 3\<rparr>"
  "exceeds_cap [(''condition'', VStr ''c''), (''max_iterations'', VInt 3)] = None"
  by (simp_all add: args_eval sample_env_def exceeds_cap_def get_default_def MAX_DO_WHILE_ITERATIONS_def)

lemma counted_loop_new: "new_scheduler counted_loop_actions 4 empty_context = Inr counted_loop_sched"
  by code_simp

lemmas counted_loop_eval = run_eval chain_defs counted_loop_sched_def counted_loop_region_def counted_loop_actions_def
  capped_end_def stmts_by_ref_def counted_loop_args sample_context internal_deps_def
  cleanup_loop_descendant_streams_def loop_streams_def dict_filter_def

lemma counted_loop_continues:
  "loop_indices (cs (simulate sample_env sample_answer 18 (start_config counted_loop_sched))) = [((''start'', root_stream), 1)]"
  by (simp add: counted_loop_eval cong: eval_congs let_weak_cong)

lemma counted_loop_end_known:
  "dict_get (loop_regions_by_end (cs (simulate sample_env sample_answer 18 (start_config counted_loop_sched)))) ''end'' \<noteq> None"
  by (simp add: counted_loop_eval cong: eval_congs let_weak_cong)

theorem loop_index_capped_witness:
  "loop_indices (cs (simulate sample_env sample_answer 18 (start_config counted_loop_sched))) = [((''start'', root_stream), 1)] \<and>
   get_default 0 (loop_indices (cs (simulate sample_env sample_answer 18 (start_config counted_loop_sched)))) (''start'', root_stream) < 2048 \<and>
   handle_loop_end sample_env (mk_task ''end'' root_stream 0) (capped_end 3000) True
       (cs (simulate sample_env sample_answer 18 (start_config counted_loop_sched))) =
     (cs (simulate sample_env sample_answer 18 (start_config counted_loop_sched)), Raise (cap_error 3000))"
proof -
  let ?c = "simulate sample_env sample_answer 18 (start_config counted_loop_sched)"
  obtain tr where run: "run sample_env (\<lambda>q r. r = sample_answer q) (start_config counted_loop_sched) tr ?c"
    using simulate_run by blast
  have "dict_get (loop_regions_by_end (cs ?c)) (t_ref (mk_task ''end'' root_stream 0)) \<noteq> None"
    using counted_loop_end_known by (simp only: mk_task_def task.simps not_False_eq_True)
  moreover have "dict_get (args (capped_end 3000)) ''max_iterations'' = Some (VInt 3000)" by (simp add: capped_end_def)
  moreover have "(2048::int) < 3000" by simp
  ultimately show ?thesis
    using loop_index_capped [OF counted_loop_new run, of "(''start'', root_stream)" "mk_task ''end'' root_stream 0" "capped_end 3000" 3000 True]
      counted_loop_continues
    unfolding MAX_DO_WHILE_ITERATIONS_def by blast
qed

theorem stream_lookup_nearest_witness:
  "\<exists>x. get_stream_aware_action_result (cs (simulate sample_env sample_answer 16 (start_config chain_sched))) ''a'' root_stream = Inr x"
proof -
  obtain tr where "run sample_env (\<lambda>q r. r = sample_answer q) (start_config chain_sched) tr
      (simulate sample_env sample_answer 16 (start_config chain_sched))"
    using chain_run by blast
  from stream_lookup_nearest [OF chain_new this] show ?thesis by blast
qed

end
