(* ===== verification/Scheduler_Scatter.thy ===== *)
theory Scheduler_Scatter
  imports Scheduler_Streams
begin

text \<open>
  Scatter and gather (\<open>_handle_scatter\<close>, \<open>_handle_gather\<close>): the streams a scatter opens, and the
  barrier at the gather, which collects one item per stream in the order of the streams and finalises
  the result when the last stream has arrived.
\<close>

section \<open>Results in a stream\<close>

lemma dict_set_same: "dict_get d k = Some v \<Longrightarrow> dict_set k v d = d"
  by (induction d) (auto split: if_splits)

lemma set_action_result_same:
  assumes "result_in (streams s) r p = Some tr"
  shows "set_action_result p r tr s = s"
proof -
  from assms obtain c where c: "dict_get (streams s) p = Some c" "dict_get (ctx_actions c) r = Some tr"
    by (auto simp: result_in_def split: option.splits)
  then have "c\<lparr>ctx_actions := dict_set r tr (ctx_actions c)\<rparr> = c" by (simp add: dict_set_same)
  with c show ?thesis by (simp add: set_action_result_def dict_set_same)
qed

lemma result_in_set:
  assumes "dict_get (streams s) p \<noteq> None"
  shows "result_in (streams (set_action_result p r tr s)) r' x = (if r' = r \<and> x = p then Some tr else result_in (streams s) r' x)"
  using assms by (auto simp: result_in_def set_action_result_def)

lemma streams_set_dom [simp]: "dict_get (streams (set_action_result p r tr s)) x = None \<longleftrightarrow> dict_get (streams s) x = None"
  by (auto simp: set_action_result_def split: option.splits)

lemma set_action_result_frame [simp]:
  "open_streams (set_action_result p r tr s) = open_streams s" "task_streams (set_action_result p r tr s) = task_streams s"
  "queue (set_action_result p r tr s) = queue s" "indegrees (set_action_result p r tr s) = indegrees s"
  "edges (set_action_result p r tr s) = edges s" "tasks (set_action_result p r tr s) = tasks s" "adj (set_action_result p r tr s) = adj s"
  by (simp_all add: set_action_result_def split: option.splits)

section \<open>Collecting items\<close>

text \<open>The slots of a gather that is still collecting, the result it collects into, and the objects in it.\<close>

definition slots :: "task_result \<Rightarrow> pyval list option" where
  "slots tr = (case (tr_result tr, tr_collection_index tr) of (InlineObject (VList xs) _, None) \<Rightarrow> Some xs | _ \<Rightarrow> None)"

definition collecting :: "sched \<Rightarrow> string \<Rightarrow> stream_id \<Rightarrow> task_key \<Rightarrow> task_result" where
  "collecting s r p scatter =
     (case result_in (streams s) r p of None \<Rightarrow> unset_result (length (get_default [] (task_streams s) scatter)) | Some tr \<Rightarrow> tr)"

fun gathered :: "pyval list \<Rightarrow> stored_object list" where
  "gathered [] = []"
| "gathered (VStored x # xs) = x # gathered xs"
| "gathered (_ # xs) = gathered xs"

definition item_slot :: "pyval \<Rightarrow> bool" where
  "item_slot v \<longleftrightarrow> v = VStr GATHER_UNSET \<or> (\<exists>x. v = VStored x)"

lemma slots_unset: "slots (unset_result n) = Some (replicate n (VStr GATHER_UNSET))"
  by (simp add: slots_def unset_result_def from_result_def new_inline_def)

lemma store_item_slot:
  assumes "slots tr = Some xs" and "0 \<le> i" and "i < int (length xs)"
  obtains tr' where "store_item tr (Idx i) v = Inr tr'" and "slots tr' = Some (xs[nat i := v])"
  using assms
  by (auto simp: slots_def store_item_def get_data_def py_set_nth_def split: stored_object.splits option.splits pyval.splits)

lemma stored_items_slots:
  assumes "slots tr = Some xs" and "list_all item_slot xs"
  shows "stored_items env tr = Inr (gathered xs)"
proof -
  have "sfold (\<lambda>item acc. if \<not> item \<noteq> VStr GATHER_UNSET then Inr acc
      else sbind (validate_stored env item) (\<lambda>x. Inr (acc @ [x]))) xs acc = Inr (acc @ gathered xs)" for acc
    using assms(2)
    by (induction xs arbitrary: acc) (auto simp: item_slot_def validate_stored_def)
  then show ?thesis
    using assms(1)
    by (auto simp: stored_items_def slots_def get_data_def iter_items_def split: stored_object.splits option.splits pyval.splits)
qed

lemma place_item_run:
  assumes "dict_get (streams s) p \<noteq> None" and "slots (collecting s r p scatter) = Some xs"
    and "0 \<le> i" and "i < int (length xs)"
  obtains s' tr' where "place_item r p scatter (Idx i) v s = (s', Ret ())" and "slots tr' = Some (xs[nat i := v])"
    and "result_in (streams s') r p = Some tr'"
    and "\<And>r' x. (r', x) \<noteq> (r, p) \<Longrightarrow> result_in (streams s') r' x = result_in (streams s) r' x"
    and "queue s' = queue s" "open_streams s' = open_streams s" "edges s' = edges s"
proof -
  obtain tr' where tr': "store_item (collecting s r p scatter) (Idx i) v = Inr tr'" "slots tr' = Some (xs[nat i := v])"
    using store_item_slot assms by blast
  let ?s' = "set_action_result p r tr' (set_action_result p r (collecting s r p scatter) s)"
  have run: "place_item r p scatter (Idx i) v s = (?s', Ret ())"
    using assms(1) tr'(1)
    by (auto simp: place_item_def get_action_context_def get_context_def collecting_def result_in_def bind_apply andthen_apply Let_def)
  show ?thesis using assms(1) by (intro that [OF run tr'(2)]) (auto simp: result_in_set)
qed

section \<open>The barrier\<close>

lemma close_stream_run:
  assumes "dict_get (open_streams s) k = Some n"
  shows "close_stream k s = (s\<lparr>open_streams := dict_set k (n - 1) (open_streams s)\<rparr>, Ret ())"
  using assms by (simp add: close_stream_def bind_apply)

lemma handle_gather_result_finalizes:
  assumes "result_in (streams s) r p = Some tr" and "slots tr = Some xs" and "list_all item_slot xs"
    and "env_workspace_id env = Some ws"
  obtains k where "handle_gather_result env t stmt p ga r s =
    (s, Await (ReqFinalizeGather (gathered xs) (action_collection_prefix ws (env_wf_exec_id env) p r)
          (ga_drop_nulls ga) (ga_error_strategy ga)) k)"
proof -
  from assms(1) obtain c where c: "dict_get (streams s) p = Some c" "dict_get (ctx_actions c) r = Some tr"
    by (auto simp: result_in_def split: option.splits)
  with assms stored_items_slots [OF assms(2,3), of env] set_action_result_same [OF assms(1)] that show ?thesis
    by (simp add: handle_gather_result_def get_action_context_def get_context_def await_final_def bind_apply andthen_apply Let_def)
qed

text \<open>What a gather does once its item has arrived.\<close>

definition item_arrived ::
  "sched_env \<Rightarrow> task \<Rightarrow> action_stmt \<Rightarrow> gather_args \<Rightarrow> stream_id \<Rightarrow> string \<Rightarrow> int \<Rightarrow> stored_object \<Rightarrow> unit sc" where
  "item_arrived env t stmt ga p sc i item =
     andthen (close_stream (sc, p))
     (andthen (place_item (t_ref t) p (sc, p) (Idx i) (VStored item))
     (bind (gets (\<lambda>s. dict_get (open_streams s) (sc, p))) (\<lambda>n.
      bind (get_or_raise (KeyError sc) n) (\<lambda>n.
        if n = 0 then handle_gather_result env t stmt p ga (t_ref t) else return ()))))"

lemma gather_awaits_item:
  assumes "GatherArgs env (args stmt) = Inr ga" and "env_workspace_id env = Some ws"
    and "t_stream t = stream_new sc (Idx i) (Some p)" and "plain_scope sc"
    and "dict_get (stream_hierarchy s) (t_stream t) = Some (Some p)" and "dict_get (streams s) (t_stream t) = Some ctx"
  shows "\<exists>k. handle_gather env t stmt False s =
      (s, Await (ReqEvalObject (ga_items ga) ctx (action_key ws (env_wf_exec_id env) (t_stream t) (t_ref t))) k) \<and>
    (\<forall>item s1. k (RespStored item) s1 = item_arrived env t stmt ga p sc i item s1)"
proof -
  have leaf: "stream_leaf (t_stream t) = Some (sc, Idx i)" using assms(3,4) by (simp add: stream_leaf_new)
  have "t_stream t \<noteq> root_stream" "\<not> is_skip_stream (t_stream t)" "t_stream t \<noteq> []"
    using assms(3,4) stream_new_longer [of p sc "Idx i"] by (auto simp: is_skip_stream_new simp del: stream_new_longer)
  then have "handle_gather env t stmt False s = gather_in_stream env t stmt False s" by (simp add: handle_gather_def)
  with assms(1,2,5,6) leaf show ?thesis
    by (simp add: gather_in_stream_def get_parent_stream_id_safe_def stream_leaf_or_raise_def get_context_def
        catch_exception_def await_stored_def bind_apply catch_apply Let_def item_arrived_def)
qed

lemma collecting_open_streams [simp]: "collecting (s\<lparr>open_streams := x\<rparr>) = collecting s"
  by (intro ext) (simp add: collecting_def split: option.split)

lemma item_slots_update: "list_all item_slot xs \<Longrightarrow> list_all item_slot (xs[j := VStored x])"
  by (auto simp: list_all_iff item_slot_def dest!: set_update_subset_insert [THEN subsetD])

lemma item_arrived_run:
  assumes "env_workspace_id env = Some ws" and "dict_get (streams s1) p \<noteq> None"
    and "slots (collecting s1 (t_ref t) p (sc, p)) = Some xs"
    and "list_all item_slot xs" and "0 \<le> i" and "i < int (length xs)" and "dict_get (open_streams s1) (sc, p) = Some n"
  shows "\<exists>s2 tr.
    (if n = 1
     then \<exists>k2. item_arrived env t stmt ga p sc i item s1 = (s2, Await (ReqFinalizeGather (gathered (xs[nat i := VStored item]))
            (action_collection_prefix ws (env_wf_exec_id env) p (t_ref t)) (ga_drop_nulls ga) (ga_error_strategy ga)) k2)
     else item_arrived env t stmt ga p sc i item s1 = (s2, Ret ())) \<and>
    result_in (streams s2) (t_ref t) p = Some tr \<and> slots tr = Some (xs[nat i := VStored item]) \<and>
    dict_get (open_streams s2) (sc, p) = Some (n - 1) \<and> queue s2 = queue s1 \<and> edges s2 = edges s1 \<and>
    (\<forall>r x. (r, x) \<noteq> (t_ref t, p) \<longrightarrow> result_in (streams s2) r x = result_in (streams s1) r x)"
proof -
  let ?s1 = "s1\<lparr>open_streams := dict_set (sc, p) (n - 1) (open_streams s1)\<rparr>" and ?ys = "xs[nat i := VStored item]"
  have open1: "dict_get (streams ?s1) p \<noteq> None" "slots (collecting ?s1 (t_ref t) p (sc, p)) = Some xs"
    using assms(2,3) by simp_all
  obtain s2 tr where
    place: "place_item (t_ref t) p (sc, p) (Idx i) (VStored item) ?s1 = (s2, Ret ())"
    and tr: "slots tr = Some ?ys" "result_in (streams s2) (t_ref t) p = Some tr"
    and rest: "\<And>r x. (r, x) \<noteq> (t_ref t, p) \<Longrightarrow> result_in (streams s2) r x = result_in (streams ?s1) r x"
      "queue s2 = queue ?s1" "open_streams s2 = open_streams ?s1" "edges s2 = edges ?s1"
    by (rule place_item_run [where v = "VStored item", OF open1 assms(5,6)]) (rule that)
  obtain k where k: "handle_gather_result env t stmt p ga (t_ref t) s2 = (s2, Await (ReqFinalizeGather (gathered ?ys)
      (action_collection_prefix ws (env_wf_exec_id env) p (t_ref t)) (ga_drop_nulls ga) (ga_error_strategy ga)) k)"
    by (rule handle_gather_result_finalizes [OF tr(2,1) item_slots_update [OF assms(4)] assms(1)])
  have "item_arrived env t stmt ga p sc i item s1 =
      (if n = 1 then handle_gather_result env t stmt p ga (t_ref t) s2 else (s2, Ret ()))"
    using place rest(3)
    by (simp add: item_arrived_def close_stream_run [OF assms(7)] bind_apply andthen_apply)
  with k tr rest show ?thesis by (intro exI [of _ s2] exI [of _ tr]) simp
qed

text \<open>C6: the gather barrier. A gather in stream \<open>i\<close> of a scatter first asks for its item. Whenever the
  answer comes, the item is put at index \<open>i\<close> of the collected list in the parent stream, the count of
  open streams goes down by one and no other result changes. If other streams are still open, the
  gather ends there, releasing nothing; if this was the last one, the collected objects, in the order
  of their streams, are sent to be finalised.\<close>

theorem gather_barrier:
  assumes "GatherArgs env (args stmt) = Inr ga" and "env_workspace_id env = Some ws"
    and stream: "t_stream t = stream_new sc (Idx i) (Some p)" and "plain_scope sc"
    and "dict_get (stream_hierarchy s) (t_stream t) = Some (Some p)" and "dict_get (streams s) (t_stream t) = Some ctx"
    and "dict_get (streams s1) p \<noteq> None" and "slots (collecting s1 (t_ref t) p (sc, p)) = Some xs"
    and "list_all item_slot xs" and "0 \<le> i" and "i < int (length xs)" and "dict_get (open_streams s1) (sc, p) = Some n"
  shows "\<exists>k s2 tr. handle_gather env t stmt False s =
      (s, Await (ReqEvalObject (ga_items ga) ctx (action_key ws (env_wf_exec_id env) (t_stream t) (t_ref t))) k) \<and>
    (if n = 1
     then \<exists>k2. k (RespStored item) s1 = (s2, Await (ReqFinalizeGather (gathered (xs[nat i := VStored item]))
            (action_collection_prefix ws (env_wf_exec_id env) p (t_ref t)) (ga_drop_nulls ga) (ga_error_strategy ga)) k2)
     else k (RespStored item) s1 = (s2, Ret ())) \<and>
    result_in (streams s2) (t_ref t) p = Some tr \<and> slots tr = Some (xs[nat i := VStored item]) \<and>
    dict_get (open_streams s2) (sc, p) = Some (n - 1) \<and> queue s2 = queue s1 \<and> edges s2 = edges s1 \<and>
    (\<forall>r x. (r, x) \<noteq> (t_ref t, p) \<longrightarrow> result_in (streams s2) r x = result_in (streams s1) r x)"
proof -
  obtain k where k: "handle_gather env t stmt False s =
      (s, Await (ReqEvalObject (ga_items ga) ctx (action_key ws (env_wf_exec_id env) (t_stream t) (t_ref t))) k)"
    "\<forall>item s1. k (RespStored item) s1 = item_arrived env t stmt ga p sc i item s1"
    using gather_awaits_item [OF assms(1-6)] by blast
  from item_arrived_run [OF assms(2,7-12), of stmt ga item] show ?thesis
    unfolding k(1) using k(2) by auto
qed

section \<open>Opening streams\<close>

text \<open>A coroutine that runs with its requests answered and nothing else running in between.\<close>

inductive quiet :: "(request \<Rightarrow> response) \<Rightarrow> sched \<times> (sched, request, response, exn, unit) co \<Rightarrow> sched \<Rightarrow> bool"
  for ans
where
  quiet_Ret: "quiet ans (s, Ret ()) s"
| quiet_Await: "quiet ans (k (ans q) s) s' \<Longrightarrow> quiet ans (s, Await q k) s'"

lemma quiet_bindC:
  assumes "quiet ans sc s1" and "quiet ans (f () s1) s2"
  shows "quiet ans (bindC (snd sc) f (fst sc)) s2"
  using assms
proof (induction rule: quiet.induct)
  case (quiet_Await k q s s')
  then have "quiet ans (case k (ans q) s of (t, c) \<Rightarrow> bindC c f t) s2" by (simp add: split_def)
  then show ?case by (simp add: quiet.quiet_Await)
qed simp

lemma quiet_andthen:
  "quiet ans (m s) s1 \<Longrightarrow> quiet ans (n s1) s2 \<Longrightarrow> quiet ans (andthen m n s) s2"
  using quiet_bindC [of ans "m s" s1 "\<lambda>_. n" s2] by (simp add: andthen_apply split_def)

lemma quiet_for_each:
  assumes "\<And>x s. I s \<Longrightarrow> x \<in> set xs \<Longrightarrow> quiet ans (f x s) (g x s) \<and> I (g x s)" and "I s"
  shows "quiet ans (for_each xs f s) (fold g xs s)"
  using assms
proof (induction xs arbitrary: s)
  case (Cons x xs)
  have "quiet ans (f x s) (g x s)" "I (g x s)" using Cons.prems by simp_all
  moreover have "quiet ans (for_each xs f (g x s)) (fold g xs (g x s))"
    by (rule Cons.IH) (use Cons.prems calculation in auto)
  ultimately show ?case by (simp add: quiet_andthen)
qed (simp add: quiet_Ret)

definition item_stream :: "task \<Rightarrow> nat \<Rightarrow> stream_id" where
  "item_stream t i = stream_new (t_ref t) (Idx (int i)) (Some (t_stream t))"

definition item_context :: "task \<Rightarrow> stored_object \<Rightarrow> nat \<Rightarrow> exec_context" where
  "item_context t stored i =
     empty_context\<lparr>ctx_actions := [(t_ref t, from_collection_item stored (int i) ''collection_item'')]\<rparr>"

definition item_task :: "task \<Rightarrow> rat option \<Rightarrow> nat \<Rightarrow> task" where
  "item_task t interval i = mk_task (t_ref t) (item_stream t i) (of_nat i * (case interval of None \<Rightarrow> 0 | Some x \<Rightarrow> x))"

text \<open>One item, as a pure function.\<close>

definition open_item :: "task \<Rightarrow> stored_object \<Rightarrow> rat option \<Rightarrow> nat \<Rightarrow> sched \<Rightarrow> sched" where
  "open_item t stored interval i s =
     release (item_task t interval i) []
       (open_stream (t_stream t) (item_stream t i) (item_context t stored i)
         (s\<lparr>task_streams := dict_set (tkey t) (get_default [] (task_streams s) (tkey t) @ [item_stream t i]) (task_streams s)\<rparr>))"

lemma item_stream_inject:
  assumes "plain_scope (t_ref t)"
  shows "item_stream t i = item_stream t j \<longleftrightarrow> i = j"
  using assms by (simp add: item_stream_def stream_new_inject)

lemma open_item_tables [simp]:
  "task_streams (open_item t st iv i s) = dict_set (tkey t) (get_default [] (task_streams s) (tkey t) @ [item_stream t i]) (task_streams s)"
  "stream_hierarchy (open_item t st iv i s) = dict_set (item_stream t i) (Some (t_stream t)) (stream_hierarchy s)"
  "streams (open_item t st iv i s) = dict_set (item_stream t i) (item_context t st i) (streams s)"
  "open_streams (open_item t st iv i s) = open_streams s" "tasks (open_item t st iv i s) = tasks s"
  "adj (open_item t st iv i s) = adj s" "task_exceptions (open_item t st iv i s) = task_exceptions s"
  by (simp_all add: open_item_def open_stream_def)

lemma open_item_marker:
  "edge_marker_of (open_item t st iv i s) e =
     (if e_src e = t_ref t \<and> e_stream e = item_stream t i \<and> (e_dst e, e_type e) \<in> set (get_default [] (adj s) (t_ref t))
      then VISITED else edge_marker_of s e)"
  by (simp add: open_item_def release_marker item_task_def mk_task_def open_stream_def)
    (simp add: edge_marker_of_def)

lemma open_item_indegree:
  "known_indegree (open_item t st iv i s) k =
     known_indegree s k - (if snd k = item_stream t i
       then int (count_list (map fst (get_default [] (adj s) (t_ref t))) (fst k)) else 0)"
  by (simp add: open_item_def release_indegree item_task_def mk_task_def open_stream_def)
    (simp add: known_indegree_def split: option.split)

lemma scatter_item_run:
  assumes "adj_closed s" and "dict_get (task_streams s) (tkey t) \<noteq> None"
  shows "\<exists>k. scatter_item t st iv (int i) s = (open_item t st iv i s, Await (ReqSleep 0) k) \<and> (\<forall>s'. k RespDone s' = (s', Ret ()))"
proof -
  have "adj_closed (open_stream p x c (s\<lparr>task_streams := y\<rparr>))" for p x c y
    using assms(1) by (simp add: adj_closed_def open_stream_def)
  with assms(2) show ?thesis
    by (auto simp: scatter_item_def open_item_def queue_tasks_release bind_apply andthen_apply async_sleep_def Let_def
        item_stream_def item_context_def item_task_def)
qed

text \<open>All items.\<close>

abbreviation open_items :: "task \<Rightarrow> stored_object \<Rightarrow> rat option \<Rightarrow> nat \<Rightarrow> sched \<Rightarrow> sched" where
  "open_items t st iv n \<equiv> fold (open_item t st iv) [0..<n]"

lemma open_items_tables:
  "get_default [] (task_streams (open_items t st iv n s)) (tkey t) = get_default [] (task_streams s) (tkey t) @ map (item_stream t) [0..<n]"
  "tasks (open_items t st iv n s) = tasks s" "adj (open_items t st iv n s) = adj s"
  "task_exceptions (open_items t st iv n s) = task_exceptions s"
  "i < n \<Longrightarrow> dict_get (stream_hierarchy (open_items t st iv n s)) (item_stream t i) = Some (Some (t_stream t))"
  "x \<notin> item_stream t ` {0..<n} \<Longrightarrow> dict_get (streams (open_items t st iv n s)) x = dict_get (streams s) x"
  "x \<notin> item_stream t ` {0..<n} \<Longrightarrow> dict_get (stream_hierarchy (open_items t st iv n s)) x = dict_get (stream_hierarchy s) x"
  "plain_scope (t_ref t) \<Longrightarrow> i < n \<Longrightarrow> dict_get (streams (open_items t st iv n s)) (item_stream t i) = Some (item_context t st i)"
  by (induction n) (auto simp: item_stream_inject less_Suc_eq atLeastLessThanSuc)

lemma open_items_marker:
  "edge_marker_of (open_items t st iv n s) e =
     (if e_src e = t_ref t \<and> e_stream e \<in> item_stream t ` {0..<n} \<and> (e_dst e, e_type e) \<in> set (get_default [] (adj s) (t_ref t))
      then VISITED else edge_marker_of s e)"
  by (induction n) (auto simp: open_item_marker open_items_tables atLeastLessThanSuc)

lemma open_items_indegree:
  assumes "plain_scope (t_ref t)"
  shows "i \<ge> n \<Longrightarrow> known_indegree (open_items t st iv n s) (r, item_stream t i) = known_indegree s (r, item_stream t i)"
  using assms by (induction n) (auto simp: open_item_indegree item_stream_inject)

text \<open>The successors of a scatter that wait for nothing else, and the tasks they give in \<open>n\<close> streams.\<close>

definition waits_only_for :: "sched \<Rightarrow> string \<Rightarrow> string set" where
  "waits_only_for s r = {x \<in> fst ` set (get_default [] (adj s) r).
     \<exists>st. dict_get (tasks s) x = Some st \<and> length (depends_on st) = count_list (map fst (get_default [] (adj s) r)) x}"

definition adj_counted :: "sched \<Rightarrow> string \<Rightarrow> bool" where
  "adj_counted s r \<longleftrightarrow> (\<forall>x \<in> fst ` set (get_default [] (adj s) r). \<forall>st. dict_get (tasks s) x = Some st \<longrightarrow>
     count_list (map fst (get_default [] (adj s) r)) x \<le> length (depends_on st))"

definition fresh_stream :: "sched \<Rightarrow> stream_id \<Rightarrow> bool" where
  "fresh_stream s x \<longleftrightarrow> (\<forall>r. dict_get (indegrees s) (r, x) = None)"

definition first_tasks :: "task \<Rightarrow> rat option \<Rightarrow> string set \<Rightarrow> nat \<Rightarrow> task set" where
  "first_tasks t iv rs i = (\<lambda>r. mk_task r (item_stream t i) (t_delay (item_task t iv i))) ` rs"

lemma open_item_queue:
  assumes "adj_closed s" and "adj_counted s (t_ref t)"
    and known: "\<And>r st. dict_get (tasks s) r = Some st \<Longrightarrow> known_indegree s (r, item_stream t i) = int (length (depends_on st))"
  obtains new where "queue (open_item t st iv i s) = queue s @ new" "distinct new"
    "set new = first_tasks t iv (waits_only_for s (t_ref t)) i"
proof -
  let ?s = "open_stream (t_stream t) (item_stream t i) (item_context t st i)
         (s\<lparr>task_streams := dict_set (tkey t) (get_default [] (task_streams s) (tkey t) @ [item_stream t i]) (task_streams s)\<rparr>)"
  let ?out = "get_default [] (adj s) (t_ref t)"
  have same: "adj ?s = adj s" "queue ?s = queue s" "known_indegree ?s k = known_indegree s k" for k
    by (simp_all add: open_stream_def known_indegree_def split: option.split)
  have sel: "t_ref (item_task t iv i) = t_ref t" "t_stream (item_task t iv i) = item_stream t i"
    by (simp_all add: item_task_def mk_task_def)
  have le: "\<forall>d \<in> set ?out. int (count_list (map fst ?out) (fst d)) \<le> known_indegree s (fst d, item_stream t i)"
    using assms(1,2) known unfolding adj_closed_def adj_counted_def by fastforce
  obtain rs where rs: "queue (release (item_task t iv i) [] ?s) =
      queue s @ map (\<lambda>r. mk_task r (item_stream t i) (t_delay (item_task t iv i))) rs" "distinct rs"
    "set rs = {r \<in> fst ` set ?out. known_indegree s (r, item_stream t i) = int (count_list (map fst ?out) r)}"
    by (rule release_queue [of ?s "item_task t iv i" "[]", unfolded same sel, OF le]) (rule that)
  moreover have "known_indegree s (x, item_stream t i) = int c \<longleftrightarrow> (\<exists>st. dict_get (tasks s) x = Some st \<and> length (depends_on st) = c)"
    if x: "x \<in> fst ` set ?out" for x c
  proof -
    from x assms(1) obtain st where "dict_get (tasks s) x = Some st" unfolding adj_closed_def by fastforce
    with known show ?thesis by simp
  qed
  then have "set rs = waits_only_for s (t_ref t)" unfolding rs(3) waits_only_for_def by blast
  moreover have "distinct (map (\<lambda>r. mk_task r x d) rs)" for x d
    using rs(2) by (simp add: distinct_map inj_on_def mk_task_def)
  ultimately show ?thesis
    by (intro that [of "map (\<lambda>r. mk_task r (item_stream t i) (t_delay (item_task t iv i))) rs"])
      (simp_all add: open_item_def first_tasks_def)
qed

lemma open_items_config:
  "adj_closed (open_items t st iv n s) = adj_closed s" "adj_counted (open_items t st iv n s) r = adj_counted s r"
  "waits_only_for (open_items t st iv n s) r = waits_only_for s r"
  by (simp_all add: adj_closed_def adj_counted_def waits_only_for_def open_items_tables)

lemma open_items_queue:
  assumes "plain_scope (t_ref t)" and "adj_closed s" and "adj_counted s (t_ref t)"
    and "\<forall>i < n. fresh_stream s (item_stream t i)"
  shows "\<exists>new. queue (open_items t st iv n s) = queue s @ new \<and> distinct new \<and>
    set new = (\<Union>i<n. first_tasks t iv (waits_only_for s (t_ref t)) i)"
  using assms(4)
proof (induction n)
  case (Suc n)
  let ?s = "open_items t st iv n s"
  obtain new where new: "queue ?s = queue s @ new" "distinct new" "set new = (\<Union>i<n. first_tasks t iv (waits_only_for s (t_ref t)) i)"
    using Suc by auto
  have "known_indegree ?s (r, item_stream t n) = int (length (depends_on st'))" if "dict_get (tasks ?s) r = Some st'" for r st'
    using that open_items_indegree [OF assms(1) order_refl] Suc.prems
    by (simp add: open_items_tables known_indegree_def fresh_stream_def)
  then obtain new' where new': "queue (open_item t st iv n ?s) = queue ?s @ new'" "distinct new'"
    "set new' = first_tasks t iv (waits_only_for s (t_ref t)) n"
    using open_item_queue [of ?s t n st iv] assms(2,3) by (auto simp: open_items_config)
  have "set new \<inter> set new' = {}"
    using item_stream_inject [OF assms(1)] by (auto simp: new(3) new'(3) first_tasks_def mk_task_def)
  with new new' show ?case by (intro exI [of _ "new @ new'"]) (auto simp: lessThan_Suc)
qed simp

lemma andthen_modify: "andthen (modify f) m s = m (f s)"
  by (simp add: andthen_apply)

lemma quiet_scatter_items:
  assumes "ans (ReqSleep 0) = RespDone" and "adj_closed s" and "dict_get (task_streams s) (tkey t) \<noteq> None"
  shows "quiet ans (for_each (map int [0..<n]) (scatter_item t st iv) s) (open_items t st iv n s)"
proof -
  let ?I = "\<lambda>s. adj_closed s \<and> dict_get (task_streams s) (tkey t) \<noteq> None"
  have "quiet ans (scatter_item t st iv x s) (open_item t st iv (nat x) s) \<and> ?I (open_item t st iv (nat x) s)"
    if "?I s" and "x \<in> set (map int [0..<n])" for x s
  proof -
    from that obtain i where x: "x = int i" by auto
    from that(1) scatter_item_run [of s t st iv i] obtain k where
      "scatter_item t st iv (int i) s = (open_item t st iv i s, Await (ReqSleep 0) k)" "\<forall>s'. k RespDone s' = (s', Ret ())" by blast
    with assms(1) have "quiet ans (scatter_item t st iv x s) (open_item t st iv (nat x) s)"
      by (simp add: x quiet_Await quiet_Ret)
    with that(1) show ?thesis by (simp add: adj_closed_def)
  qed
  then have "quiet ans (for_each (map int [0..<n]) (scatter_item t st iv) s)
      (fold (\<lambda>x. open_item t st iv (nat x)) (map int [0..<n]) s)"
    by (rule quiet_for_each [where I = ?I]) (use assms(2,3) in simp_all)
  then show ?thesis by (simp add: fold_map comp_def)
qed

text \<open>C7: a scatter opens one stream per item. Run with nothing else in between, a scatter over \<open>n > 0\<close>
  items ends with the streams \<open>0, \<dots>, n - 1\<close> registered in order and counted as open; stream \<open>i\<close> is a
  child of the scatter's stream and starts with item \<open>i\<close> as the scatter's result; all outgoing edges of
  the scatter, success and error edges alike, are visited in every new stream and no other edge
  changes; and exactly the successors that wait for the scatter only are queued, once per stream, with
  the delay of their stream.\<close>

theorem scatter_opens_streams:
  assumes "ScatterArgs env (args stmt) = Inr a" and "env_workspace_id env = Some ws"
    and "dict_get (streams s) (t_stream t) = Some ctx"
    and "ans (ReqScatterInput stmt (t_stream t) (sc_collection a) ctx
       (action_collection_prefix ws (env_wf_exec_id env) (t_stream t) (t_ref t))) = RespStored coll"
    and "ans (ReqSleep 0) = RespDone" and "get_collection_size coll = Inr (int n)" and "0 < n"
    and "plain_scope (t_ref t)" and "adj_closed s" and "adj_counted s (t_ref t)"
    and "\<forall>i < n. fresh_stream s (item_stream t i)"
  shows "\<exists>s' new. quiet ans (handle_scatter env t stmt False s) s' \<and>
    dict_get (open_streams s') (tkey t) = Some (int n) \<and>
    get_default [] (task_streams s') (tkey t) = map (item_stream t) [0..<n] \<and>
    (\<forall>i < n. dict_get (stream_hierarchy s') (item_stream t i) = Some (Some (t_stream t)) \<and>
       dict_get (streams s') (item_stream t i) = Some (item_context t coll i)) \<and>
    (\<forall>x. x \<notin> item_stream t ` {0..<n} \<longrightarrow> dict_get (streams s') x = dict_get (streams s) x) \<and>
    (\<forall>e. edge_marker_of s' e =
       (if e_src e = t_ref t \<and> e_stream e \<in> item_stream t ` {0..<n} \<and> (e_dst e, e_type e) \<in> set (get_default [] (adj s) (t_ref t))
        then VISITED else edge_marker_of s e)) \<and>
    queue s' = queue s @ new \<and> distinct new \<and> set new = (\<Union>i<n. first_tasks t (sc_interval a) (waits_only_for s (t_ref t)) i)"
proof -
  define s0 where "s0 = s\<lparr>task_streams := dict_set (tkey t) [] (task_streams s)\<rparr>"
  let ?s1 = "open_items t coll (sc_interval a) n s0"
  let ?s' = "?s1\<lparr>open_streams := dict_set (tkey t) (int n) (open_streams ?s1)\<rparr>"
  have s0: "adj_closed s0" "adj_counted s0 (t_ref t)" "\<forall>i < n. fresh_stream s0 (item_stream t i)"
    "waits_only_for s0 (t_ref t) = waits_only_for s (t_ref t)" "edge_marker_of s0 = edge_marker_of s"
    using assms(9-11) by (simp_all add: s0_def adj_closed_def adj_counted_def fresh_stream_def waits_only_for_def edge_marker_of_def fun_eq_iff)
  have "quiet ans (andthen (for_each (map int [0..<n]) (scatter_item t coll (sc_interval a)))
       (modify (\<lambda>s. s\<lparr>open_streams := dict_set (tkey t) (int n) (open_streams s)\<rparr>)) s0) ?s'"
    by (rule quiet_andthen, rule quiet_scatter_items [where ans = ans, OF assms(5) s0(1)]) (simp_all add: s0_def quiet_Ret)
  then have run: "quiet ans (handle_scatter env t stmt False s) ?s'"
    using assms(1-4,6,7)
    by (auto simp: handle_scatter_def get_context_def await_stored_def bind_apply catch_apply andthen_modify s0_def intro!: quiet_Await)
  from open_items_queue [OF assms(8) s0(1,2,3), of coll "sc_interval a"] obtain new where
    "queue ?s1 = queue s0 @ new" "distinct new" "set new = (\<Union>i<n. first_tasks t (sc_interval a) (waits_only_for s (t_ref t)) i)"
    unfolding s0(4) by blast
  moreover have "edge_marker_of ?s' = edge_marker_of ?s1" by (simp add: edge_marker_of_def fun_eq_iff)
  ultimately show ?thesis
    using assms(8) by (intro exI [of _ ?s'] exI [of _ new] conjI run) (simp_all add: open_items_tables open_items_marker s0(5), auto simp: s0_def)
qed

section \<open>Instances\<close>

text \<open>A scatter over two items with one successor, and its gather with one item still missing.\<close>

definition sc_stmt :: action_stmt where
  "sc_stmt = (new_stmt ''sc'' TRANSFORM_SCATTER)\<lparr>args := [(''collection'', VList [VInt 7, VInt 8])]\<rparr>"

definition ga_stmt :: action_stmt where
  "ga_stmt = (new_stmt ''ga'' TRANSFORM_GATHER)\<lparr>args := [(''items'', VStr ''x'')], depends_on := [''sc'']\<rparr>"

definition scatter_sched :: sched where
  "scatter_sched = two_step_sched\<lparr>tasks := [(''sc'', sc_stmt), (''ga'', ga_stmt)], adj := [(''sc'', [(''ga'', SUCCESS)]), (''ga'', [])], indegrees := []\<rparr>"

theorem scatter_opens_streams_witness:
  "\<exists>s'. quiet sample_answer (handle_scatter sample_env (mk_task ''sc'' root_stream 0) sc_stmt False scatter_sched) s' \<and>
     dict_get (open_streams s') (''sc'', root_stream) = Some 2"
proof -
  have "adj_closed scatter_sched" by (rule adj_closedI) code_simp
  moreover have "adj_counted scatter_sched ''sc''" by (simp add: adj_counted_def scatter_sched_def get_default_def ga_stmt_def sc_stmt_def)
  moreover have "plain_scope ''sc''" by code_simp
  moreover have "ScatterArgs sample_env (args sc_stmt) = Inr \<lparr>sc_collection = VList [VInt 7, VInt 8], sc_interval = None\<rparr>"
    by (simp add: args_eval sample_env_def sc_stmt_def)
  moreover have "dict_get (streams scatter_sched) root_stream = Some empty_context" "env_workspace_id sample_env = Some ''ws''"
    "fresh_stream scatter_sched x" "get_collection_size (new_inline (VList [VInt 7, VInt 8]) None) = Inr (int 2)" for x
    by (simp_all add: scatter_sched_def two_step_sched_def sample_env_def fresh_stream_def get_collection_size_def new_inline_def)
  ultimately show ?thesis
    using scatter_opens_streams [of sample_env sc_stmt "\<lparr>sc_collection = VList [VInt 7, VInt 8], sc_interval = None\<rparr>" "''ws''"
        scatter_sched "mk_task ''sc'' root_stream 0" empty_context sample_answer "new_inline (VList [VInt 7, VInt 8]) None" 2]
    by (auto simp: mk_task_def tkey_def)
qed

definition gather_sched :: sched where
  "gather_sched = scatter_sched
     \<lparr>streams := [(root_stream, empty_context), (stream_new ''sc'' (Idx 1) (Some root_stream), empty_context)],
      stream_hierarchy := [(root_stream, None), (stream_new ''sc'' (Idx 1) (Some root_stream), Some root_stream)],
      task_streams := [((''sc'', root_stream), [stream_new ''sc'' (Idx 0) (Some root_stream), stream_new ''sc'' (Idx 1) (Some root_stream)])],
      open_streams := [((''sc'', root_stream), 2)]\<rparr>"

theorem gather_barrier_witness:
  "\<exists>k s2. handle_gather sample_env (mk_task ''ga'' (stream_new ''sc'' (Idx 1) (Some root_stream)) 0) ga_stmt False gather_sched =
      (gather_sched, Await (ReqEvalObject ''x'' empty_context (action_key ''ws'' ''wf'' (stream_new ''sc'' (Idx 1) (Some root_stream)) ''ga'')) k) \<and>
     k (RespStored (new_inline (VInt 7) None)) gather_sched = (s2, Ret ()) \<and> dict_get (open_streams s2) (''sc'', root_stream) = Some 1"
proof -
  let ?t = "mk_task ''ga'' (stream_new ''sc'' (Idx 1) (Some root_stream)) 0"
  have "plain_scope ''sc''" by code_simp
  moreover have "GatherArgs sample_env (args ga_stmt) = Inr \<lparr>ga_items = ''x'', ga_drop_nulls = False, ga_error_strategy = PARTITION\<rparr>"
    "env_workspace_id sample_env = Some ''ws''" "env_wf_exec_id sample_env = ''wf''"
    by (simp_all add: args_eval sample_env_def ga_stmt_def)
  moreover have "slots (collecting gather_sched ''ga'' root_stream (''sc'', root_stream)) = Some [VStr GATHER_UNSET, VStr GATHER_UNSET]"
    by (simp add: collecting_def result_in_def gather_sched_def empty_context_def get_default_def slots_unset numeral_2_eq_2)
  moreover have "list_all item_slot [VStr GATHER_UNSET, VStr GATHER_UNSET]" by (simp add: item_slot_def)
  moreover have "dict_get (streams gather_sched) (stream_new ''sc'' (Idx 1) (Some root_stream)) = Some empty_context"
    "dict_get (stream_hierarchy gather_sched) (stream_new ''sc'' (Idx 1) (Some root_stream)) = Some (Some root_stream)"
    "dict_get (streams gather_sched) root_stream = Some empty_context" "dict_get (open_streams gather_sched) (''sc'', root_stream) = Some 2"
    by (simp_all add: gather_sched_def)
  ultimately show ?thesis
    using gather_barrier [where env = sample_env and stmt = ga_stmt and ws = "''ws''" and t = ?t and sc = "''sc''" and i = 1 and
        p = root_stream and s = gather_sched and ?s1.0 = gather_sched and ctx = empty_context and n = 2 and
        item = "new_inline (VInt 7) None"]
    by (fastforce simp: mk_task_def)
qed

end
