(* ===== verification/Tiers_Semaphore.thy ===== *)
theory Tiers_Semaphore
  imports Dsl_Values
begin

text \<open>
  The per-organisation semaphore for workflow and action permits (\<open>tracecat/tiers/semaphore.py\<close>). A
  permit is a lease: a member of a Redis sorted set whose score is the time it was last refreshed.
  Redis is not part of the repository; its sorted-set commands are a parameter with their documented
  behaviour as the laws of the locale \<open>zset\<close>. The contract the rest of the system relies on is the
  locale \<open>lease_semaphore\<close>, which the methods of \<open>RedisSemaphore\<close> satisfy for every such Redis.
\<close>

section \<open>Redis sorted sets\<close>

record 'r zset_ops =
  zadd :: "string \<Rightarrow> int \<Rightarrow> string \<Rightarrow> 'r \<Rightarrow> 'r"
  zscore :: "string \<Rightarrow> string \<Rightarrow> 'r \<Rightarrow> int option"
  zcard :: "string \<Rightarrow> 'r \<Rightarrow> int"
  zrem :: "string \<Rightarrow> string \<Rightarrow> 'r \<Rightarrow> 'r \<times> int"
  zremrangebyscore :: "string \<Rightarrow> int \<Rightarrow> 'r \<Rightarrow> 'r \<times> int"

definition zmembers :: "'r zset_ops \<Rightarrow> string \<Rightarrow> 'r \<Rightarrow> string set" where
  "zmembers ops key r = {m. zscore ops key m r \<noteq> None}"

text \<open>The removal by score is only used from \<open>-inf\<close>, with an inclusive upper end.\<close>

locale zset =
  fixes ops :: "'r zset_ops"
  assumes zscore_zadd: "zscore ops k m (zadd ops k' sc m' r) = (if k = k' \<and> m = m' then Some sc else zscore ops k m r)"
    and zscore_zrem: "zscore ops k m (fst (zrem ops k' m' r)) = (if k = k' \<and> m = m' then None else zscore ops k m r)"
    and zscore_zremrange: "zscore ops k m (fst (zremrangebyscore ops k' hi r)) =
      (if k = k' then (case zscore ops k m r of None \<Rightarrow> None | Some sc \<Rightarrow> if sc \<le> hi then None else Some sc)
       else zscore ops k m r)"
    and zcard_card: "zcard ops k r = int (card (zmembers ops k r))"
    and finite_members: "finite (zmembers ops k r)"

section \<open>The semaphore\<close>

datatype permit_scope = WORKFLOW | ACTION

definition scope_value :: "permit_scope \<Rightarrow> string" where
  "scope_value s = (case s of WORKFLOW \<Rightarrow> ''workflow'' | ACTION \<Rightarrow> ''action'')"

record acquire_result =
  acquired :: bool
  current_count :: int

definition DEFAULT_TTL_SECONDS :: int where
  "DEFAULT_TTL_SECONDS = 300"

record 'r redis_semaphore =
  sem_client :: "'r zset_ops"
  sem_ttl :: int

definition semaphore_key :: "string \<Rightarrow> permit_scope \<Rightarrow> string" where
  "semaphore_key org_id scope = ''tier:org:'' @ org_id @ '':'' @ scope_value scope @ ''-semaphore''"

text \<open>The two Lua scripts; Redis runs a script atomically.\<close>

definition ACQUIRE_SCRIPT :: "'r zset_ops \<Rightarrow> string \<Rightarrow> string \<Rightarrow> int \<Rightarrow> int \<Rightarrow> int \<Rightarrow> 'r \<Rightarrow> (int \<times> int) \<times> 'r" where
  "ACQUIRE_SCRIPT ops key wf_id limit now ttl r =
     (let r1 = fst (zremrangebyscore ops key (now - ttl) r)
      in if zscore ops key wf_id r1 \<noteq> None then
           (let r2 = zadd ops key now wf_id r1 in ((1, zcard ops key r2), r2))
         else
           (let count = zcard ops key r1
            in if count \<ge> limit then ((0, count), r1)
               else ((1, count + 1), zadd ops key now wf_id r1)))"

definition HEARTBEAT_SCRIPT :: "'r zset_ops \<Rightarrow> string \<Rightarrow> string \<Rightarrow> int \<Rightarrow> 'r \<Rightarrow> int \<times> 'r" where
  "HEARTBEAT_SCRIPT ops key permit_id now r =
     (if zscore ops key permit_id r = None then (0, r) else (1, zadd ops key now permit_id r))"

text \<open>The methods; \<open>now\<close> is \<open>int(time.time())\<close> on the calling host.\<close>

definition sem_acquire ::
  "'r redis_semaphore \<Rightarrow> string \<Rightarrow> string \<Rightarrow> int \<Rightarrow> permit_scope \<Rightarrow> int \<Rightarrow> 'r \<Rightarrow> acquire_result \<times> 'r" where
  "sem_acquire sem org_id permit_id limit scope now r =
     (let key = semaphore_key org_id scope;
          (result, r') = ACQUIRE_SCRIPT (sem_client sem) key permit_id limit now (sem_ttl sem) r
      in (\<lparr>acquired = (fst result \<noteq> 0), current_count = snd result\<rparr>, r'))"

definition sem_release :: "'r redis_semaphore \<Rightarrow> string \<Rightarrow> string \<Rightarrow> permit_scope \<Rightarrow> 'r \<Rightarrow> 'r" where
  "sem_release sem org_id permit_id scope r = fst (zrem (sem_client sem) (semaphore_key org_id scope) permit_id r)"

definition sem_heartbeat ::
  "'r redis_semaphore \<Rightarrow> string \<Rightarrow> string \<Rightarrow> permit_scope \<Rightarrow> int \<Rightarrow> 'r \<Rightarrow> bool \<times> 'r" where
  "sem_heartbeat sem org_id permit_id scope now r =
     (let (result, r') = HEARTBEAT_SCRIPT (sem_client sem) (semaphore_key org_id scope) permit_id now r
      in (result \<noteq> 0, r'))"

definition get_count :: "'r redis_semaphore \<Rightarrow> string \<Rightarrow> permit_scope \<Rightarrow> int \<Rightarrow> 'r \<Rightarrow> int \<times> 'r" where
  "get_count sem org_id scope now r =
     (let key = semaphore_key org_id scope;
          r' = fst (zremrangebyscore (sem_client sem) key (now - sem_ttl sem) r)
      in (zcard (sem_client sem) key r', r'))"

definition acquire_workflow where
  "acquire_workflow sem org_id workflow_id limit = sem_acquire sem org_id workflow_id limit WORKFLOW"

definition release_workflow where
  "release_workflow sem org_id workflow_id = sem_release sem org_id workflow_id WORKFLOW"

definition heartbeat_workflow where
  "heartbeat_workflow sem org_id workflow_id = sem_heartbeat sem org_id workflow_id WORKFLOW"

definition acquire_action where
  "acquire_action sem org_id action_id limit = sem_acquire sem org_id action_id limit ACTION"

definition release_action where
  "release_action sem org_id action_id = sem_release sem org_id action_id ACTION"

definition heartbeat_action where
  "heartbeat_action sem org_id action_id = sem_heartbeat sem org_id action_id ACTION"

section \<open>The contract of a lease semaphore\<close>

text \<open>
  Every key has a table of leases, the time each holder was last seen. A lease is live until its time
  to live has passed. The four laws say what each operation returns and does to the tables.
\<close>

datatype 'k sem_op = OpAcquire 'k string int int | OpRelease 'k string | OpHeartbeat 'k string int | OpCount 'k int

definition live :: "int \<Rightarrow> int \<Rightarrow> int option \<Rightarrow> int option" where
  "live ttl now x = (case x of None \<Rightarrow> None | Some t \<Rightarrow> if t \<le> now - ttl then None else Some t)"

text \<open>The clock reading of an operation that prunes the table of a key.\<close>

definition op_time :: "'k \<Rightarrow> 'k sem_op \<Rightarrow> int option" where
  "op_time k oper =
     (case oper of
        OpAcquire k' _ _ now \<Rightarrow> if k' = k then Some now else None
      | OpCount k' now \<Rightarrow> if k' = k then Some now else None
      | _ \<Rightarrow> None)"

locale lease_semaphore =
  fixes leases :: "'s \<Rightarrow> 'k \<Rightarrow> string \<Rightarrow> int option"
    and acquire :: "'k \<Rightarrow> string \<Rightarrow> int \<Rightarrow> int \<Rightarrow> 's \<Rightarrow> acquire_result \<times> 's"
    and release_permit :: "'k \<Rightarrow> string \<Rightarrow> 's \<Rightarrow> 's"
    and heartbeat :: "'k \<Rightarrow> string \<Rightarrow> int \<Rightarrow> 's \<Rightarrow> bool \<times> 's"
    and count :: "'k \<Rightarrow> int \<Rightarrow> 's \<Rightarrow> int \<times> 's"
    and ttl :: int
  assumes finite_leases: "finite {p. leases s k p \<noteq> None}"
    and acquire_result: "acquire k p limit now s = (res, s') \<Longrightarrow>
      (acquired res \<longleftrightarrow> live ttl now (leases s k p) \<noteq> None \<or> int (card {q. live ttl now (leases s k q) \<noteq> None}) < limit) \<and>
      leases s' = (leases s)(k := (\<lambda>q. if acquired res \<and> q = p then Some now else live ttl now (leases s k q))) \<and>
      current_count res = int (card {q. leases s' k q \<noteq> None})"
    and release_leases: "leases (release_permit k p s) = (leases s)(k := (leases s k)(p := None))"
    and heartbeat_result: "heartbeat k p now s = (ok, s') \<Longrightarrow>
      (ok \<longleftrightarrow> leases s k p \<noteq> None) \<and>
      leases s' = (if ok then (leases s)(k := (leases s k)(p := Some now)) else leases s)"
    and count_result: "count k now s = (n, s') \<Longrightarrow>
      leases s' = (leases s)(k := (\<lambda>q. live ttl now (leases s k q))) \<and> n = int (card {q. leases s' k q \<noteq> None})"
begin

definition holders :: "'s \<Rightarrow> 'k \<Rightarrow> string set" where
  "holders s k = {p. leases s k p \<noteq> None}"

fun perform :: "'k sem_op \<Rightarrow> 's \<Rightarrow> 's" where
  "perform (OpAcquire k p limit now) s = snd (acquire k p limit now s)"
| "perform (OpRelease k p) s = release_permit k p s"
| "perform (OpHeartbeat k p now) s = snd (heartbeat k p now s)"
| "perform (OpCount k now) s = snd (count k now s)"

lemma holders_finite [simp]: "finite (holders s k)"
  using finite_leases unfolding holders_def .

lemma live_holders: "{q. live ttl now (leases s k q) \<noteq> None} \<subseteq> holders s k"
  by (auto simp: live_def holders_def split: option.splits)

lemma acquire_holders:
  "\<exists>H. H \<subseteq> holders s k \<and>
     (\<forall>k'. holders (snd (acquire k p limit now s)) k' =
        (if k' \<noteq> k then holders s k'
         else if acquired (fst (acquire k p limit now s)) then insert p H else H)) \<and>
     (acquired (fst (acquire k p limit now s)) \<longrightarrow> p \<in> H \<or> int (card H) < limit)"
proof -
  obtain res s' where eq: "acquire k p limit now s = (res, s')" by fastforce
  from acquire_result [OF eq] show ?thesis
    by (intro exI [of _ "{q. live ttl now (leases s k q) \<noteq> None}"])
      (auto simp: eq holders_def live_def split: option.splits if_splits)
qed

lemma perform_holders:
  "(\<forall>p limit now. oper \<noteq> OpAcquire k p limit now) \<Longrightarrow> holders (perform oper s) k \<subseteq> holders s k"
proof (cases oper)
  case (OpHeartbeat k' p now)
  obtain ok s' where eq: "heartbeat k' p now s = (ok, s')" by fastforce
  from heartbeat_result [OF eq] OpHeartbeat eq show ?thesis by (auto simp: holders_def split: if_splits)
next
  case (OpCount k' now)
  obtain n s' where eq: "count k' now s = (n, s')" by fastforce
  from count_result [OF eq] OpCount eq show ?thesis by (auto simp: holders_def live_def split: option.splits if_splits)
next
  case (OpAcquire k' p limit now)
  assume "\<forall>p limit now. oper \<noteq> OpAcquire k p limit now"
  with OpAcquire have "k \<noteq> k'" by auto
  with acquire_holders [where k = k' and p = p and limit = limit and now = now and s = s] OpAcquire show ?thesis by auto
qed (auto simp: holders_def release_leases split: if_splits)

lemma perform_bound:
  assumes "int (card (holders s k)) \<le> L" and "\<And>p limit now. oper = OpAcquire k p limit now \<Longrightarrow> limit \<le> L"
  shows "int (card (holders (perform oper s) k)) \<le> L"
proof (cases "\<exists>p limit now. oper = OpAcquire k p limit now")
  case False
  then have "card (holders (perform oper s) k) \<le> card (holders s k)"
    by (intro card_mono perform_holders) auto
  with assms(1) show ?thesis by simp
next
  case True
  then obtain p limit now where oper: "oper = OpAcquire k p limit now" by blast
  from acquire_holders [of s k p limit now] obtain H where
    H: "H \<subseteq> holders s k" and res: "holders (perform oper s) k = (if acquired (fst (acquire k p limit now s)) then insert p H else H)"
    and lt: "acquired (fst (acquire k p limit now s)) \<longrightarrow> p \<in> H \<or> int (card H) < limit" unfolding oper by auto
  have fin: "finite H" by (rule finite_subset [OF H]) simp
  have "card H \<le> card (holders s k)" by (rule card_mono [OF _ H]) simp
  with res lt fin assms(1) assms(2) [OF oper] show ?thesis by (auto simp: insert_absorb card_insert_if)
qed

text \<open>Safety: with limits of at most \<open>L\<close>, no sequence of operations brings a key above \<open>L\<close> holders.\<close>

lemma holders_bounded:
  assumes "int (card (holders s k)) \<le> L"
    and "\<And>p limit now. OpAcquire k p limit now \<in> set opers \<Longrightarrow> limit \<le> L"
  shows "int (card (holders (fold perform opers s) k)) \<le> L"
  using assms
proof (induction opers arbitrary: s)
  case (Cons oper opers)
  have "int (card (holders (perform oper s) k)) \<le> L"
    by (rule perform_bound [OF Cons.prems(1)]) (use Cons.prems(2) in auto)
  with Cons show ?case by auto
qed simp

text \<open>A holder keeps its permit as long as nobody looks later than its lease allows.\<close>

lemma lease_kept:
  assumes "leases s k p = Some t" and "\<And>now. op_time k oper = Some now \<Longrightarrow> now < t + ttl"
    and "oper \<noteq> OpRelease k p"
  shows "\<exists>t'. leases (perform oper s) k p = Some t' \<and>
     (t' = t \<or> (\<exists>limit now. oper = OpAcquire k p limit now \<and> t' = now) \<or> (\<exists>now. oper = OpHeartbeat k p now \<and> t' = now))"
proof (cases oper)
  case (OpAcquire k' q limit now)
  obtain res s' where eq: "acquire k' q limit now s = (res, s')" by fastforce
  from acquire_result [OF eq] OpAcquire eq assms(1,2) show ?thesis by (auto simp: op_time_def live_def split: if_splits)
next
  case (OpHeartbeat k' q now)
  obtain ok s' where eq: "heartbeat k' q now s = (ok, s')" by fastforce
  from heartbeat_result [OF eq] OpHeartbeat eq assms(1) show ?thesis by (auto split: if_splits)
next
  case (OpCount k' now)
  obtain n s' where eq: "count k' now s = (n, s')" by fastforce
  from count_result [OF eq] OpCount eq assms(1,2) show ?thesis by (auto simp: op_time_def live_def split: if_splits)
next
  case (OpRelease k' q)
  with assms(1,3) show ?thesis by (auto simp: release_leases)
qed

end

section \<open>The Redis semaphore satisfies the contract\<close>

lemma semaphore_key_inject: "semaphore_key o1 s1 = semaphore_key o2 s2 \<longleftrightarrow> o1 = o2 \<and> s1 = s2"
proof
  assume eq: "semaphore_key o1 s1 = semaphore_key o2 s2"
  then have rev: "rev (scope_value s1) @ CHR '':'' # rev o1 = rev (scope_value s2) @ CHR '':'' # rev o2"
    by (simp add: semaphore_key_def flip: rev_append) (metis append_assoc append_Cons append_Nil rev.simps(2) rev_append rev_rev_ident)
  then show "o1 = o2 \<and> s1 = s2" by (cases s1; cases s2) (simp_all add: scope_value_def)
qed simp

definition permit_leases :: "'r redis_semaphore \<Rightarrow> 'r \<Rightarrow> string \<times> permit_scope \<Rightarrow> string \<Rightarrow> int option" where
  "permit_leases sem r k p = zscore (sem_client sem) (semaphore_key (fst k) (snd k)) p r"


text \<open>The operations with organisation and scope as one key.\<close>

definition key_acquire :: "'r redis_semaphore \<Rightarrow> string \<times> permit_scope \<Rightarrow> string \<Rightarrow> int \<Rightarrow> int \<Rightarrow> 'r \<Rightarrow> acquire_result \<times> 'r" where
  "key_acquire sem k p limit now r = sem_acquire sem (fst k) p limit (snd k) now r"

definition key_release :: "'r redis_semaphore \<Rightarrow> string \<times> permit_scope \<Rightarrow> string \<Rightarrow> 'r \<Rightarrow> 'r" where
  "key_release sem k p r = sem_release sem (fst k) p (snd k) r"

definition key_heartbeat :: "'r redis_semaphore \<Rightarrow> string \<times> permit_scope \<Rightarrow> string \<Rightarrow> int \<Rightarrow> 'r \<Rightarrow> bool \<times> 'r" where
  "key_heartbeat sem k p now r = sem_heartbeat sem (fst k) p (snd k) now r"

definition key_count :: "'r redis_semaphore \<Rightarrow> string \<times> permit_scope \<Rightarrow> int \<Rightarrow> 'r \<Rightarrow> int \<times> 'r" where
  "key_count sem k now r = get_count sem (fst k) (snd k) now r"

locale redis_backed =
  fixes sem :: "'r redis_semaphore"
  assumes client: "zset (sem_client sem)"
begin

lemmas zset_simps =
  zset.zscore_zadd [OF client] zset.zscore_zrem [OF client] zset.zscore_zremrange [OF client]
  zset.zcard_card [OF client]

lemma members_leases: "zmembers (sem_client sem) (semaphore_key (fst k) (snd k)) r = {p. permit_leases sem r k p \<noteq> None}"
  by (simp add: zmembers_def permit_leases_def)

lemma leases_zadd:
  "permit_leases sem (zadd (sem_client sem) (semaphore_key (fst k) (snd k)) now p r) =
     (permit_leases sem r)(k := (permit_leases sem r k)(p := Some now))"
  by (auto simp: permit_leases_def zset_simps semaphore_key_inject fun_eq_iff prod_eq_iff)

lemma leases_prune:
  "permit_leases sem (fst (zremrangebyscore (sem_client sem) (semaphore_key (fst k) (snd k)) (now - ttl) r)) =
     (permit_leases sem r)(k := (\<lambda>q. live ttl now (permit_leases sem r k q)))"
  by (auto simp: permit_leases_def zset_simps semaphore_key_inject fun_eq_iff prod_eq_iff live_def split: option.splits)

lemma members_card: "zcard (sem_client sem) (semaphore_key (fst k) (snd k)) r = int (card {p. permit_leases sem r k p \<noteq> None})"
  by (simp add: zset_simps members_leases)

lemma finite_permits: "finite {p. permit_leases sem r k p \<noteq> None}"
  using zset.finite_members [OF client] unfolding members_leases [symmetric] .

lemma acquire_law:
  assumes "key_acquire sem k p limit now r = (res, r')"
  shows "(acquired res \<longleftrightarrow> live (sem_ttl sem) now (permit_leases sem r k p) \<noteq> None \<or>
        int (card {q. live (sem_ttl sem) now (permit_leases sem r k q) \<noteq> None}) < limit) \<and>
      permit_leases sem r' = (permit_leases sem r)(k := (\<lambda>q. if acquired res \<and> q = p then Some now
         else live (sem_ttl sem) now (permit_leases sem r k q))) \<and>
      current_count res = int (card {q. permit_leases sem r' k q \<noteq> None})"
proof -
  let ?key = "semaphore_key (fst k) (snd k)" and ?live = "\<lambda>q. live (sem_ttl sem) now (permit_leases sem r k q)"
  define r1 where "r1 = fst (zremrangebyscore (sem_client sem) ?key (now - sem_ttl sem) r)"
  have r1: "permit_leases sem r1 = (permit_leases sem r)(k := ?live)"
    by (simp add: r1_def leases_prune)
  have score: "zscore (sem_client sem) ?key p r1 = ?live p" using r1 by (simp add: fun_eq_iff permit_leases_def)
  have card: "zcard (sem_client sem) ?key r1 = int (card {q. ?live q \<noteq> None})" by (simp add: members_card r1)
  have fin: "finite {q. ?live q \<noteq> None}" using finite_permits [of r1 k] by (simp add: r1)
  have script: "ACQUIRE_SCRIPT (sem_client sem) ?key p limit now (sem_ttl sem) r =
      (if ?live p \<noteq> None then ((1, zcard (sem_client sem) ?key (zadd (sem_client sem) ?key now p r1)), zadd (sem_client sem) ?key now p r1)
       else if int (card {q. ?live q \<noteq> None}) \<ge> limit then ((0, int (card {q. ?live q \<noteq> None})), r1)
       else ((1, int (card {q. ?live q \<noteq> None}) + 1), zadd (sem_client sem) ?key now p r1))"
    by (simp add: ACQUIRE_SCRIPT_def Let_def score card flip: r1_def)
  let ?new = "\<lambda>q. if q = p then Some now else ?live q"
  have add: "permit_leases sem (zadd (sem_client sem) ?key now p r1) = (permit_leases sem r)(k := ?new)"
    by (simp add: leases_zadd r1 fun_eq_iff)
  have "{q. ?new q \<noteq> None} = insert p {q. ?live q \<noteq> None}" by auto
  then have ins: "card {q. ?new q \<noteq> None} = (if ?live p \<noteq> None then card {q. ?live q \<noteq> None} else card {q. ?live q \<noteq> None} + 1)"
    using card_insert_if [OF fin, of p] by simp
  consider "?live p \<noteq> None" | "?live p = None" "int (card {q. ?live q \<noteq> None}) \<ge> limit"
    | "?live p = None" "int (card {q. ?live q \<noteq> None}) < limit" by linarith
  then show ?thesis
  proof cases
    case 1
    with assms have "res = \<lparr>acquired = True, current_count = int (card {q. ?new q \<noteq> None})\<rparr>"
      "r' = zadd (sem_client sem) ?key now p r1"
      by (simp_all add: key_acquire_def sem_acquire_def script members_card add)
    with 1 add ins show ?thesis by simp
  next
    case 2
    with assms have "res = \<lparr>acquired = False, current_count = int (card {q. ?live q \<noteq> None})\<rparr>" "r' = r1"
      by (simp_all add: key_acquire_def sem_acquire_def script)
    with 2 r1 show ?thesis by simp
  next
    case 3
    with assms ins have "res = \<lparr>acquired = True, current_count = int (card {q. ?new q \<noteq> None})\<rparr>"
      "r' = zadd (sem_client sem) ?key now p r1"
      by (auto simp: key_acquire_def sem_acquire_def script)
    with 3 add show ?thesis by simp
  qed
qed

lemma release_law:
  "permit_leases sem (key_release sem k p r) = (permit_leases sem r)(k := (permit_leases sem r k)(p := None))"
  by (auto simp: key_release_def sem_release_def permit_leases_def zset_simps semaphore_key_inject fun_eq_iff prod_eq_iff)

lemma heartbeat_law:
  "key_heartbeat sem k p now r = (ok, r') \<Longrightarrow> (ok \<longleftrightarrow> permit_leases sem r k p \<noteq> None) \<and>
     permit_leases sem r' = (if ok then (permit_leases sem r)(k := (permit_leases sem r k)(p := Some now)) else permit_leases sem r)"
  by (auto simp: key_heartbeat_def sem_heartbeat_def HEARTBEAT_SCRIPT_def leases_zadd permit_leases_def [of sem r k p] split: if_splits)

lemma count_law:
  "key_count sem k now r = (n, r') \<Longrightarrow>
     permit_leases sem r' = (permit_leases sem r)(k := (\<lambda>q. live (sem_ttl sem) now (permit_leases sem r k q))) \<and>
     n = int (card {q. permit_leases sem r' k q \<noteq> None})"
  by (auto simp: key_count_def get_count_def Let_def leases_prune members_card)

end

sublocale redis_backed \<subseteq> permits: lease_semaphore "permit_leases sem" "key_acquire sem" "key_release sem"
  "key_heartbeat sem" "key_count sem" "sem_ttl sem"
  by unfold_locales (rule finite_permits, rule acquire_law, assumption, rule release_law, rule heartbeat_law, assumption,
      rule count_law, assumption)


text \<open>A Redis that satisfies the laws: sorted sets as association lists.\<close>

definition list_zset :: "(string \<times> string, int) dict zset_ops" where
  "list_zset =
     \<lparr>zadd = (\<lambda>k sc m r. dict_set (k, m) sc r),
      zscore = (\<lambda>k m r. dict_get r (k, m)),
      zcard = (\<lambda>k r. int (card {m \<in> snd ` set (dict_keys r). dict_get r (k, m) \<noteq> None})),
      zrem = (\<lambda>k m r. (dict_pop (k, m) r, if dict_get r (k, m) = None then 0 else 1)),
      zremrangebyscore = (\<lambda>k hi r. (dict_filter (\<lambda>(k', m). \<not> (k' = k \<and> (case dict_get r (k, m) of
          None \<Rightarrow> False | Some sc \<Rightarrow> sc \<le> hi))) r, 0))\<rparr>"

lemma list_zset_members: "zmembers list_zset k r = {m \<in> snd ` set (dict_keys r). dict_get r (k, m) \<noteq> None}"
  by (force simp: zmembers_def list_zset_def dest: map_of_SomeD)

interpretation list_redis: zset list_zset
proof
  fix k m k' m' sc hi and r :: "(string \<times> string, int) dict"
  show "zcard list_zset k r = int (card (zmembers list_zset k r))"
    by (simp add: list_zset_members) (simp add: list_zset_def)
  show "finite (zmembers list_zset k r)" by (simp add: list_zset_members)
  show "zscore list_zset k m (zadd list_zset k' sc m' r) = (if k = k' \<and> m = m' then Some sc else zscore list_zset k m r)"
    "zscore list_zset k m (fst (zrem list_zset k' m' r)) = (if k = k' \<and> m = m' then None else zscore list_zset k m r)"
    "zscore list_zset k m (fst (zremrangebyscore list_zset k' hi r)) =
      (if k = k' then (case zscore list_zset k m r of None \<Rightarrow> None | Some sc \<Rightarrow> if sc \<le> hi then None else Some sc)
       else zscore list_zset k m r)"
    by (auto simp: list_zset_def split: option.splits)
qed

definition list_semaphore :: "(string \<times> string, int) dict redis_semaphore" where
  "list_semaphore = \<lparr>sem_client = list_zset, sem_ttl = DEFAULT_TTL_SECONDS\<rparr>"

lemma list_semaphore_simps [simp]:
  "sem_client list_semaphore = list_zset" "sem_ttl list_semaphore = 300" "zset list_zset"
  "zscore list_zset k m r = dict_get r (k, m)"
  by (simp_all add: list_semaphore_def list_redis.zset_axioms DEFAULT_TTL_SECONDS_def) (simp add: list_zset_def)

interpretation list_permits: redis_backed list_semaphore
  by (rule redis_backed.intro) simp

section \<open>Properties\<close>

definition permit_holders :: "'r redis_semaphore \<Rightarrow> 'r \<Rightarrow> string \<Rightarrow> permit_scope \<Rightarrow> string set" where
  "permit_holders sem r org_id scope = zmembers (sem_client sem) (semaphore_key org_id scope) r"

fun sem_perform :: "'r redis_semaphore \<Rightarrow> (string \<times> permit_scope) sem_op \<Rightarrow> 'r \<Rightarrow> 'r" where
  "sem_perform sem (OpAcquire k p limit now) r = snd (sem_acquire sem (fst k) p limit (snd k) now r)"
| "sem_perform sem (OpRelease k p) r = sem_release sem (fst k) p (snd k) r"
| "sem_perform sem (OpHeartbeat k p now) r = snd (sem_heartbeat sem (fst k) p (snd k) now r)"
| "sem_perform sem (OpCount k now) r = snd (get_count sem (fst k) (snd k) now r)"

context redis_backed
begin

lemma perform_sem: "permits.perform = sem_perform sem"
proof (intro ext)
  fix oper r
  show "permits.perform oper r = sem_perform sem oper r"
    by (cases oper) (simp_all add: key_acquire_def key_release_def key_heartbeat_def key_count_def)
qed

lemma holders_sem: "permits.holders r k = permit_holders sem r (fst k) (snd k)"
  by (simp add: permits.holders_def permit_holders_def members_leases)

lemma sem_bounded:
  assumes "int (card (permit_holders sem r org_id scope)) \<le> L"
    and "\<And>p limit now. OpAcquire (org_id, scope) p limit now \<in> set opers \<Longrightarrow> limit \<le> L"
  shows "int (card (permit_holders sem (fold (sem_perform sem) opers r) org_id scope)) \<le> L"
  using permits.holders_bounded [of r "(org_id, scope)" L opers] assms by (simp add: perform_sem holders_sem)

lemma sem_leases: "permit_leases sem r (org_id, scope) p = zscore (sem_client sem) (semaphore_key org_id scope) p r"
  by (simp add: permit_leases_def)

lemma sem_kept:
  assumes "zscore (sem_client sem) (semaphore_key org_id scope) p r = Some t"
    and "\<And>now. op_time (org_id, scope) oper = Some now \<Longrightarrow> now < t + sem_ttl sem"
    and "oper \<noteq> OpRelease (org_id, scope) p"
  shows "\<exists>t'. zscore (sem_client sem) (semaphore_key org_id scope) p (sem_perform sem oper r) = Some t' \<and>
     (t' = t \<or> (\<exists>limit now. oper = OpAcquire (org_id, scope) p limit now \<and> t' = now) \<or>
      (\<exists>now. oper = OpHeartbeat (org_id, scope) p now \<and> t' = now))"
  using permits.lease_kept [of r "(org_id, scope)" p t oper] assms by (simp add: perform_sem sem_leases)

lemma sem_acquire_spec:
  assumes "sem_acquire sem org_id p limit scope now r = (res, r')"
  shows "(acquired res \<longleftrightarrow> live (sem_ttl sem) now (permit_leases sem r (org_id, scope) p) \<noteq> None \<or>
       int (card {q. live (sem_ttl sem) now (permit_leases sem r (org_id, scope) q) \<noteq> None}) < limit) \<and>
     permit_leases sem r' = (permit_leases sem r)((org_id, scope) := (\<lambda>q. if acquired res \<and> q = p then Some now
        else live (sem_ttl sem) now (permit_leases sem r (org_id, scope) q))) \<and>
     current_count res = int (card {q. permit_leases sem r' (org_id, scope) q \<noteq> None})"
  using acquire_law [of "(org_id, scope)" p limit now r res r'] assms by (simp add: key_acquire_def)

end

text \<open>C27: the permit limit is never exceeded. Start with at most \<open>L\<close> holders and let any number of
  clients acquire, release, refresh and count permits of any organisation in any order, at any times
  (clocks need not agree), with limits of at most \<open>L\<close> for this organisation and scope: there are never
  more than \<open>L\<close> holders.\<close>

theorem permits_bounded:
  assumes "zset (sem_client sem)" and "int (card (permit_holders sem r org_id scope)) \<le> L"
    and "\<forall>p limit now. OpAcquire (org_id, scope) p limit now \<in> set opers \<longrightarrow> limit \<le> L"
  shows "int (card (permit_holders sem (fold (sem_perform sem) opers r) org_id scope)) \<le> L"
  using assms(3) by (intro redis_backed.sem_bounded [OF redis_backed.intro [OF assms(1)] assms(2)]) blast

theorem permits_bounded_witness:
  "int (card (permit_holders list_semaphore (fold (sem_perform list_semaphore)
     [OpAcquire (''o'', WORKFLOW) ''a'' 2 100, OpAcquire (''o'', WORKFLOW) ''b'' 2 101, OpAcquire (''o'', WORKFLOW) ''c'' 2 102] [])
     ''o'' WORKFLOW)) \<le> 2"
  by (rule permits_bounded) (auto simp: permit_holders_def list_zset_members)

text \<open>C28: acquiring refines the abstract lease table. A permit is granted exactly when the caller holds
  a live lease already or fewer live leases than the limit exist; a grant sets the caller's lease to
  the present, expired leases of this organisation and scope are dropped, every other table is
  unchanged, and the returned count is the number of leases afterwards.\<close>

theorem acquire_refines_leases:
  assumes "zset (sem_client sem)" and "sem_acquire sem org_id p limit scope now r = (res, r')"
  shows "(acquired res \<longleftrightarrow> live (sem_ttl sem) now (permit_leases sem r (org_id, scope) p) \<noteq> None \<or>
       int (card {q. live (sem_ttl sem) now (permit_leases sem r (org_id, scope) q) \<noteq> None}) < limit) \<and>
     permit_leases sem r' = (permit_leases sem r)((org_id, scope) := (\<lambda>q. if acquired res \<and> q = p then Some now
        else live (sem_ttl sem) now (permit_leases sem r (org_id, scope) q))) \<and>
     current_count res = int (card {q. permit_leases sem r' (org_id, scope) q \<noteq> None})"
  by (rule redis_backed.sem_acquire_spec [OF redis_backed.intro [OF assms(1)] assms(2)])

theorem acquire_refines_leases_witness:
  "acquired (fst (sem_acquire list_semaphore ''o'' ''a'' 1 WORKFLOW 1000 [((semaphore_key ''o'' WORKFLOW, ''b''), 700)]))"
proof -
  let ?r = "[((semaphore_key ''o'' WORKFLOW, ''b''), 700)]"
  obtain res r' where eq: "sem_acquire list_semaphore ''o'' ''a'' 1 WORKFLOW 1000 ?r = (res, r')" by fastforce
  have "zset (sem_client list_semaphore)" by simp
  from acquire_refines_leases [OF this eq] show ?thesis
    by (simp add: eq live_def permit_leases_def split: option.splits)
qed

text \<open>C29: leases are kept. A permit stays held through every operation except its own release, as long
  as the operations that prune this table (acquire and count) see a clock before the lease's last
  refresh plus the time to live; its lease time only changes by its own acquire or heartbeat.\<close>

theorem lease_kept_alive:
  assumes "zset (sem_client sem)" and "zscore (sem_client sem) (semaphore_key org_id scope) p r = Some t"
    and "\<forall>q limit now. oper = OpAcquire (org_id, scope) q limit now \<longrightarrow> now < t + sem_ttl sem"
    and "\<forall>now. oper = OpCount (org_id, scope) now \<longrightarrow> now < t + sem_ttl sem" and "oper \<noteq> OpRelease (org_id, scope) p"
  shows "\<exists>t'. zscore (sem_client sem) (semaphore_key org_id scope) p (sem_perform sem oper r) = Some t' \<and>
     (t' = t \<or> (\<exists>limit now. oper = OpAcquire (org_id, scope) p limit now \<and> t' = now) \<or>
      (\<exists>now. oper = OpHeartbeat (org_id, scope) p now \<and> t' = now))"
  by (rule redis_backed.sem_kept [OF redis_backed.intro [OF assms(1)] assms(2) _ assms(5)])
    (use assms(3,4) in \<open>auto simp: op_time_def split: sem_op.splits if_splits\<close>)

theorem lease_kept_alive_witness:
  "\<exists>t'. zscore list_zset (semaphore_key ''o'' ACTION) ''a''
     (sem_perform list_semaphore (OpAcquire (''o'', ACTION) ''b'' 5 399) [((semaphore_key ''o'' ACTION, ''a''), 100)]) = Some t'"
  using lease_kept_alive [of list_semaphore "''o''" ACTION "''a''" "[((semaphore_key ''o'' ACTION, ''a''), 100)]" 100
      "OpAcquire (''o'', ACTION) ''b'' 5 399"]
  by auto

end
