(* ===== verification/Tiers.thy ===== *)
theory Tiers
  imports Tiers_Semaphore
begin

text \<open>
  Tier limits and entitlements of an organisation (\<open>tracecat/tiers/service.py\<close>, \<open>access.py\<close>,
  \<open>defaults.py\<close>, \<open>limits_cache.py\<close>), the permit service built on the semaphore (\<open>permits.py\<close>,
  \<open>activities.py\<close>) and the workflow's loop that waits for a permit (\<open>tracecat/dsl/workflow.py\<close>).
  Database queries, Redis strings and pydantic's coercions and JSON are parameters.
\<close>

section \<open>Limits and entitlements\<close>

record effective_limits =
  api_rate_limit :: "int option"
  api_burst_capacity :: "int option"
  max_concurrent_workflows :: "int option"
  max_action_executions_per_workflow :: "int option"
  max_concurrent_actions :: "int option"

record effective_entitlements =
  custom_registry :: bool
  git_sync :: bool
  agent_addons :: bool
  case_addons :: bool
  rbac_addons :: bool
  service_accounts :: bool
  workspace_chat :: bool
  watchtower :: bool

datatype entitlement =
    CUSTOM_REGISTRY | GIT_SYNC | AGENT_ADDONS | CASE_ADDONS | RBAC_ADDONS | SERVICE_ACCOUNTS | WORKSPACE_CHAT | WATCHTOWER

primrec entitlement_value :: "entitlement \<Rightarrow> string" where
  "entitlement_value CUSTOM_REGISTRY = ''custom_registry''"
| "entitlement_value GIT_SYNC = ''git_sync''"
| "entitlement_value AGENT_ADDONS = ''agent_addons''"
| "entitlement_value CASE_ADDONS = ''case_addons''"
| "entitlement_value RBAC_ADDONS = ''rbac_addons''"
| "entitlement_value SERVICE_ACCOUNTS = ''service_accounts''"
| "entitlement_value WORKSPACE_CHAT = ''workspace_chat''"
| "entitlement_value WATCHTOWER = ''watchtower''"

text \<open>\<open>getattr(entitlements, name)\<close>.\<close>

primrec entitlement_field :: "entitlement \<Rightarrow> effective_entitlements \<Rightarrow> bool" where
  "entitlement_field CUSTOM_REGISTRY = custom_registry"
| "entitlement_field GIT_SYNC = git_sync"
| "entitlement_field AGENT_ADDONS = agent_addons"
| "entitlement_field CASE_ADDONS = case_addons"
| "entitlement_field RBAC_ADDONS = rbac_addons"
| "entitlement_field SERVICE_ACCOUNTS = service_accounts"
| "entitlement_field WORKSPACE_CHAT = workspace_chat"
| "entitlement_field WATCHTOWER = watchtower"

definition DEFAULT_LIMITS :: effective_limits where
  "DEFAULT_LIMITS =
     \<lparr>api_rate_limit = None, api_burst_capacity = None, max_concurrent_workflows = None,
      max_action_executions_per_workflow = None, max_concurrent_actions = None\<rparr>"

text \<open>The normalised legacy feature flags.\<close>

definition parse_feature_flags :: "string \<Rightarrow> string set" where
  "parse_feature_flags feature_flags_env =
     (\<lambda>raw_flag. map (\<lambda>c. if c = CHR ''_'' then CHR ''-'' else c) (map lower_char (py_strip raw_flag))) `
       {raw_flag \<in> set (split_on (CHR '','') feature_flags_env). py_strip raw_flag \<noteq> []}"

definition AGENT_ADDON_FLAGS :: "string list" where
  "AGENT_ADDON_FLAGS = [''agent-approvals'', ''agent-presets'']"

definition CASE_ADDON_FLAGS :: "string list" where
  "CASE_ADDON_FLAGS = [''case-dropdowns'', ''case-durations'', ''case-tasks'', ''case-triggers'']"

definition RBAC_FLAGS :: "string list" where
  "RBAC_FLAGS = [''rbac'']"

definition resolve_oss_default_entitlements :: "string option \<Rightarrow> effective_entitlements" where
  "resolve_oss_default_entitlements feature_flags_env =
     (case feature_flags_env of
        Some (c # env) \<Rightarrow>
          let normalized_flags = parse_feature_flags (c # env);
              agent_addons_enabled = list_ex (\<lambda>flag. flag \<in> normalized_flags) AGENT_ADDON_FLAGS
          in \<lparr>custom_registry = True, git_sync = (''git-sync'' \<in> normalized_flags),
              agent_addons = agent_addons_enabled,
              case_addons = list_ex (\<lambda>flag. flag \<in> normalized_flags) CASE_ADDON_FLAGS,
              rbac_addons = list_ex (\<lambda>flag. flag \<in> normalized_flags) RBAC_FLAGS,
              service_accounts = False, workspace_chat = agent_addons_enabled, watchtower = False\<rparr>
      | _ \<Rightarrow>
          \<lparr>custom_registry = True, git_sync = False, agent_addons = False, case_addons = False,
           rbac_addons = False, service_accounts = False, workspace_chat = False, watchtower = False\<rparr>)"

text \<open>The rows of the tier tables, and the two queries on them.\<close>

record tier_row =
  tier_limits :: effective_limits
  tier_entitlements :: "(string, pyval) dict option"

record org_tier_row =
  org_limits :: effective_limits
  entitlement_overrides :: "(string, pyval) dict option"
  assigned_tier :: "tier_row option"

record tier_db =
  query_org_tier :: "string \<Rightarrow> exn + org_tier_row option"
  query_default_tier :: "exn + tier_row option"

record tier_config =
  ee_multi_tenant :: bool
  default_entitlements :: effective_entitlements

abbreviation DefaultTierNotConfiguredError :: exn where
  "DefaultTierNotConfiguredError \<equiv>
     PyError ''DefaultTierNotConfiguredError'' ''No default tier configured. Run database migrations.''"

definition get_org_tier_and_resolved_tier :: "tier_db \<Rightarrow> string \<Rightarrow> exn + org_tier_row option \<times> tier_row" where
  "get_org_tier_and_resolved_tier db org_id =
     sbind (query_org_tier db org_id) (\<lambda>org_tier.
       case (case org_tier of None \<Rightarrow> None | Some ot \<Rightarrow> assigned_tier ot) of
         Some t \<Rightarrow> Inr (org_tier, t)
       | None \<Rightarrow>
           sbind (query_default_tier db) (\<lambda>default_tier.
             case default_tier of None \<Rightarrow> Inl DefaultTierNotConfiguredError | Some t \<Rightarrow> Inr (org_tier, t)))"

definition resolve_limit :: "int option \<Rightarrow> int option \<Rightarrow> int option" where
  "resolve_limit org_value tier_value = (case org_value of None \<Rightarrow> tier_value | Some v \<Rightarrow> Some v)"

definition get_effective_limits :: "tier_config \<Rightarrow> tier_db \<Rightarrow> string \<Rightarrow> exn + effective_limits" where
  "get_effective_limits cfg db org_id =
     (if \<not> ee_multi_tenant cfg then Inr DEFAULT_LIMITS
      else
        sbind (get_org_tier_and_resolved_tier db org_id) (\<lambda>(org_tier, tier).
          let org = (case org_tier of None \<Rightarrow> DEFAULT_LIMITS | Some ot \<Rightarrow> org_limits ot); t = tier_limits tier
          in Inr \<lparr>api_rate_limit = resolve_limit (api_rate_limit org) (api_rate_limit t),
                  api_burst_capacity = resolve_limit (api_burst_capacity org) (api_burst_capacity t),
                  max_concurrent_workflows = resolve_limit (max_concurrent_workflows org) (max_concurrent_workflows t),
                  max_action_executions_per_workflow =
                    resolve_limit (max_action_executions_per_workflow org) (max_action_executions_per_workflow t),
                  max_concurrent_actions = resolve_limit (max_concurrent_actions org) (max_concurrent_actions t)\<rparr>))"

text \<open>\<open>x or {}\<close> on a JSONB column.\<close>

definition or_empty :: "(string, pyval) dict option \<Rightarrow> (string, pyval) dict" where
  "or_empty d = (case d of None \<Rightarrow> [] | Some x \<Rightarrow> x)"

definition overrides_of :: "org_tier_row option \<Rightarrow> (string, pyval) dict" where
  "overrides_of org_tier = (case org_tier of None \<Rightarrow> [] | Some ot \<Rightarrow> or_empty (entitlement_overrides ot))"

definition resolve_entitlement :: "(string, pyval) dict \<Rightarrow> (string, pyval) dict \<Rightarrow> string \<Rightarrow> pyval" where
  "resolve_entitlement overrides tier_ents key =
     (case dict_get overrides key of Some v \<Rightarrow> v | None \<Rightarrow> get_default (VBool False) tier_ents key)"

text \<open>\<open>coerce\<close> is pydantic's validation of a boolean field.\<close>

definition get_effective_entitlements ::
  "(pyval \<Rightarrow> exn + bool) \<Rightarrow> tier_config \<Rightarrow> tier_db \<Rightarrow> string \<Rightarrow> exn + effective_entitlements" where
  "get_effective_entitlements coerce cfg db org_id =
     (if \<not> ee_multi_tenant cfg then Inr (default_entitlements cfg)
      else
        sbind (get_org_tier_and_resolved_tier db org_id) (\<lambda>(org_tier, tier).
          let value = (\<lambda>e. coerce (resolve_entitlement (overrides_of org_tier) (or_empty (tier_entitlements tier))
                             (entitlement_value e)))
          in sbind (value CUSTOM_REGISTRY) (\<lambda>v1. sbind (value GIT_SYNC) (\<lambda>v2. sbind (value AGENT_ADDONS) (\<lambda>v3.
             sbind (value CASE_ADDONS) (\<lambda>v4. sbind (value RBAC_ADDONS) (\<lambda>v5. sbind (value SERVICE_ACCOUNTS) (\<lambda>v6.
             sbind (value WORKSPACE_CHAT) (\<lambda>v7. sbind (value WATCHTOWER) (\<lambda>v8.
               Inr \<lparr>custom_registry = v1, git_sync = v2, agent_addons = v3, case_addons = v4, rbac_addons = v5,
                    service_accounts = v6, workspace_chat = v7, watchtower = v8\<rparr>))))))))))"

definition is_org_entitled :: "tier_config \<Rightarrow> tier_db \<Rightarrow> string \<Rightarrow> entitlement \<Rightarrow> exn + bool" where
  "is_org_entitled cfg db org_id e =
     (if \<not> ee_multi_tenant cfg then Inr (entitlement_field e (default_entitlements cfg))
      else
        sbind (get_org_tier_and_resolved_tier db org_id) (\<lambda>(org_tier, tier).
          case get_default VNone (overrides_of org_tier) (entitlement_value e) of
            VNone \<Rightarrow> Inr (py_bool (get_default (VBool False) (or_empty (tier_entitlements tier)) (entitlement_value e)))
          | override \<Rightarrow> Inr (py_bool override)))"

definition require_org_entitlement :: "tier_config \<Rightarrow> tier_db \<Rightarrow> string \<Rightarrow> entitlement \<Rightarrow> exn + unit" where
  "require_org_entitlement cfg db org_id e =
     sbind (is_org_entitled cfg db org_id e) (\<lambda>b.
       if b then Inr () else Inl (PyError ''EntitlementRequired'' (entitlement_value e)))"

text \<open>\<open>check_entitlement\<close> of \<open>entitlements.py\<close>, for a role with or without an organisation.\<close>

definition check_entitlement :: "tier_config \<Rightarrow> tier_db \<Rightarrow> string option \<Rightarrow> entitlement \<Rightarrow> exn + unit" where
  "check_entitlement cfg db organization_id e =
     (case organization_id of
        None \<Rightarrow> Inl (ValueError ''Role must have organization_id to check entitlements'')
      | Some org_id \<Rightarrow> require_org_entitlement cfg db org_id e)"

text \<open>The two methods of \<open>EntitlementService\<close>, whose tier service holds the database session.\<close>

definition is_entitled :: "tier_config \<Rightarrow> tier_db \<Rightarrow> string \<Rightarrow> entitlement \<Rightarrow> exn + bool" where
  "is_entitled cfg db org_id e = is_org_entitled cfg db org_id e"

definition service_check_entitlement :: "tier_config \<Rightarrow> tier_db \<Rightarrow> string \<Rightarrow> entitlement \<Rightarrow> exn + unit" where
  "service_check_entitlement cfg db org_id e = require_org_entitlement cfg db org_id e"

section \<open>The limits cache\<close>

record 'r limits_cache =
  kv_get :: "string \<Rightarrow> 'r \<Rightarrow> exn + string option"
  kv_set :: "string \<Rightarrow> string \<Rightarrow> int \<Rightarrow> 'r \<Rightarrow> exn + 'r"
  kv_delete :: "string \<Rightarrow> 'r \<Rightarrow> exn + 'r"
  validate_json :: "string \<Rightarrow> effective_limits option"
  dump_json :: "effective_limits \<Rightarrow> string"
  cache_ttl :: int

definition effective_limits_cache_key :: "string \<Rightarrow> string" where
  "effective_limits_cache_key org_id = ''tier:org:'' @ org_id @ '':effective-limits:v1''"

definition get_effective_limits_cached :: "'r limits_cache \<Rightarrow> string \<Rightarrow> 'r \<Rightarrow> (exn + effective_limits option) \<times> 'r" where
  "get_effective_limits_cached cache org_id r =
     (if cache_ttl cache \<le> 0 then (Inr None, r)
      else
        let key = effective_limits_cache_key org_id
        in case kv_get cache key r of
             Inl e \<Rightarrow> (Inl e, r)
           | Inr None \<Rightarrow> (Inr None, r)
           | Inr (Some payload) \<Rightarrow>
               (case validate_json cache payload of
                  Some limits \<Rightarrow> (Inr (Some limits), r)
                | None \<Rightarrow> (case kv_delete cache key r of Inl e \<Rightarrow> (Inl e, r) | Inr r' \<Rightarrow> (Inr None, r'))))"

definition set_effective_limits_cached :: "'r limits_cache \<Rightarrow> string \<Rightarrow> effective_limits \<Rightarrow> 'r \<Rightarrow> exn + 'r" where
  "set_effective_limits_cached cache org_id limits r =
     (if cache_ttl cache \<le> 0 then Inr r
      else kv_set cache (effective_limits_cache_key org_id) (dump_json cache limits) (cache_ttl cache) r)"

definition invalidate_effective_limits_cache :: "'r limits_cache \<Rightarrow> string \<Rightarrow> 'r \<Rightarrow> exn + 'r" where
  "invalidate_effective_limits_cache cache org_id r = kv_delete cache (effective_limits_cache_key org_id) r"

section \<open>The permit service\<close>

definition UNBOUNDED_CONCURRENCY_LIMIT :: int where
  "UNBOUNDED_CONCURRENCY_LIMIT = 2147483647"

record 'r permit_service =
  svc_semaphore :: "'r redis_semaphore"
  svc_cache :: "'r limits_cache"
  svc_config :: tier_config
  svc_db :: tier_db

record permit_outcome =
  outcome_result :: acquire_result
  effective_limit :: int
  cap_source :: string

definition normalize_concurrency_limit :: "int option \<Rightarrow> string \<Rightarrow> string \<Rightarrow> exn + int" where
  "normalize_concurrency_limit limit org_id scope =
     (case limit of
        None \<Rightarrow> Inr UNBOUNDED_CONCURRENCY_LIMIT
      | Some n \<Rightarrow>
          if n \<le> 0 then Inl (PyError ''InvalidOrganizationConcurrencyCapError''
             (''Invalid organization concurrency cap: scope='' @ scope @ '' org_id='' @ org_id @ '' limit='' @ show_int n))
          else Inr n)"

text \<open>A cache that cannot be read or written does not stop the service.\<close>

definition get_effective_limits_for_org ::
  "'r permit_service \<Rightarrow> string \<Rightarrow> 'r \<Rightarrow> (exn + effective_limits \<times> string) \<times> 'r" where
  "get_effective_limits_for_org svc org_id r =
     (let (cached, r1) = get_effective_limits_cached (svc_cache svc) org_id r
      in case cached of
           Inr (Some limits) \<Rightarrow> (Inr (limits, ''cache''), r1)
         | _ \<Rightarrow>
             (case get_effective_limits (svc_config svc) (svc_db svc) org_id of
                Inl e \<Rightarrow> (Inl e, r1)
              | Inr limits \<Rightarrow>
                  (Inr (limits, ''db''),
                   case set_effective_limits_cached (svc_cache svc) org_id limits r1 of Inl _ \<Rightarrow> r1 | Inr r2 \<Rightarrow> r2)))"

definition acquire_permit ::
  "(effective_limits \<Rightarrow> int option) \<Rightarrow> permit_scope \<Rightarrow> 'r permit_service \<Rightarrow> string \<Rightarrow> string \<Rightarrow> int \<Rightarrow> 'r \<Rightarrow>
   (exn + permit_outcome) \<times> 'r" where
  "acquire_permit limit_of scope svc org_id permit_id now r =
     (let (found, r1) = get_effective_limits_for_org svc org_id r
      in case found of
           Inl e \<Rightarrow> (Inl e, r1)
         | Inr (limits, source) \<Rightarrow>
             (case normalize_concurrency_limit (limit_of limits) org_id (scope_value scope) of
                Inl e \<Rightarrow> (Inl e, r1)
              | Inr limit \<Rightarrow>
                  let (result, r2) = sem_acquire (svc_semaphore svc) org_id permit_id limit scope now r1
                  in (Inr \<lparr>outcome_result = result, effective_limit = limit, cap_source = source\<rparr>, r2)))"

definition acquire_workflow_permit ::
  "'r permit_service \<Rightarrow> string \<Rightarrow> string \<Rightarrow> int \<Rightarrow> 'r \<Rightarrow> (exn + permit_outcome) \<times> 'r" where
  "acquire_workflow_permit svc org_id workflow_id now r =
     acquire_permit max_concurrent_workflows WORKFLOW svc org_id workflow_id now r"

definition acquire_action_permit ::
  "'r permit_service \<Rightarrow> string \<Rightarrow> string \<Rightarrow> int \<Rightarrow> 'r \<Rightarrow> (exn + permit_outcome) \<times> 'r" where
  "acquire_action_permit svc org_id action_id now r =
     acquire_permit max_concurrent_actions ACTION svc org_id action_id now r"

definition release_workflow_permit :: "'r permit_service \<Rightarrow> string \<Rightarrow> string \<Rightarrow> 'r \<Rightarrow> 'r" where
  "release_workflow_permit svc org_id workflow_id r = release_workflow (svc_semaphore svc) org_id workflow_id r"

definition release_action_permit :: "'r permit_service \<Rightarrow> string \<Rightarrow> string \<Rightarrow> 'r \<Rightarrow> 'r" where
  "release_action_permit svc org_id action_id r = release_action (svc_semaphore svc) org_id action_id r"

definition heartbeat_workflow_permit :: "'r permit_service \<Rightarrow> string \<Rightarrow> string \<Rightarrow> int \<Rightarrow> 'r \<Rightarrow> bool \<times> 'r" where
  "heartbeat_workflow_permit svc org_id workflow_id now r = heartbeat_workflow (svc_semaphore svc) org_id workflow_id now r"

definition heartbeat_action_permit :: "'r permit_service \<Rightarrow> string \<Rightarrow> string \<Rightarrow> int \<Rightarrow> 'r \<Rightarrow> bool \<times> 'r" where
  "heartbeat_action_permit svc org_id action_id now r = heartbeat_action (svc_semaphore svc) org_id action_id now r"

text \<open>The activities: an invalid cap becomes a non-retryable \<open>ApplicationError\<close>.\<close>

definition permit_activity :: "(exn + permit_outcome) \<times> 'r \<Rightarrow> (exn + acquire_result) \<times> 'r" where
  "permit_activity x =
     (case x of
        (Inr outcome, r) \<Rightarrow> (Inr (outcome_result outcome), r)
      | (Inl e, r) \<Rightarrow>
          (Inl (if exn_class e = ''InvalidOrganizationConcurrencyCapError''
                then application_error (exn_text e) [] else e), r))"

definition acquire_workflow_permit_activity where
  "acquire_workflow_permit_activity svc org_id workflow_id now r =
     permit_activity (acquire_workflow_permit svc org_id workflow_id now r)"

definition acquire_action_permit_activity where
  "acquire_action_permit_activity svc org_id action_id now r =
     permit_activity (acquire_action_permit svc org_id action_id now r)"

definition release_workflow_permit_activity :: "'r permit_service \<Rightarrow> string \<Rightarrow> string \<Rightarrow> 'r \<Rightarrow> 'r" where
  "release_workflow_permit_activity svc org_id workflow_id r = release_workflow_permit svc org_id workflow_id r"

definition heartbeat_workflow_permit_activity ::
  "'r permit_service \<Rightarrow> string \<Rightarrow> string \<Rightarrow> int \<Rightarrow> 'r \<Rightarrow> bool \<times> 'r" where
  "heartbeat_workflow_permit_activity svc org_id workflow_id now r = heartbeat_workflow_permit svc org_id workflow_id now r"

definition release_action_permit_activity :: "'r permit_service \<Rightarrow> string \<Rightarrow> string \<Rightarrow> 'r \<Rightarrow> 'r" where
  "release_action_permit_activity svc org_id action_id r = release_action_permit svc org_id action_id r"

definition heartbeat_action_permit_activity ::
  "'r permit_service \<Rightarrow> string \<Rightarrow> string \<Rightarrow> int \<Rightarrow> 'r \<Rightarrow> bool \<times> 'r" where
  "heartbeat_action_permit_activity svc org_id action_id now r = heartbeat_action_permit svc org_id action_id now r"

text \<open>The limits activity reads the database, not the cache.\<close>

definition get_tier_limits_activity :: "'r permit_service \<Rightarrow> string \<Rightarrow> exn + effective_limits" where
  "get_tier_limits_activity svc org_id = get_effective_limits (svc_config svc) (svc_db svc) org_id"

section \<open>Waiting for a permit\<close>

text \<open>
  The retry loop of the workflow. Attempt \<open>i\<close> gets the answer \<open>ask i\<close> of the activity; if it is a
  refusal, \<open>elapsed i\<close> seconds have passed since the start and \<open>jitter i\<close> is the random factor.
\<close>

record wait_config =
  backoff_base :: rat
  backoff_max :: rat
  max_wait :: rat

text \<open>
  \<open>base * (2**attempt)\<close> multiplies a float with an integer, which Python first converts to a float: from
  \<open>2 ** 1024\<close> on, the conversion raises. (A product that is too large is infinite, and the minimum is then
  \<open>max_backoff\<close>, as here.)
\<close>

definition next_permit_backoff_seconds :: "wait_config \<Rightarrow> nat \<Rightarrow> rat \<Rightarrow> exn + rat" where
  "next_permit_backoff_seconds cfg attempt jitter =
     (let base = max (backoff_base cfg) (1 / 10);
          max_backoff = max (backoff_max cfg) base
      in if attempt \<ge> 1024 then Inl (PyError ''OverflowError'' ''int too large to convert to float'')
         else Inr (min (base * 2 ^ attempt) max_backoff * jitter))"

definition next_permit_heartbeat_sleep_seconds :: "rat \<Rightarrow> rat \<Rightarrow> rat" where
  "next_permit_heartbeat_sleep_seconds heartbeat_interval jitter = max (heartbeat_interval * jitter) (1 / 10)"

definition sleep_duration :: "wait_config \<Rightarrow> nat \<Rightarrow> rat \<Rightarrow> rat \<Rightarrow> exn + rat" where
  "sleep_duration cfg attempt jitter elapsed =
     sbind (next_permit_backoff_seconds cfg attempt jitter) (\<lambda>d. Inr (min d (max_wait cfg - elapsed)))"

text \<open>The loop ends with the permit, a failure of the activity, a timeout, or what the backoff raises.\<close>

datatype wait_result = PermitAcquired acquire_result | PermitFailed exn | PermitTimeout rat | PermitRaised exn

partial_function (option) acquire_permit_loop ::
  "wait_config \<Rightarrow> (nat \<Rightarrow> exn + acquire_result) \<Rightarrow> (nat \<Rightarrow> rat) \<Rightarrow> (nat \<Rightarrow> rat) \<Rightarrow> nat \<Rightarrow> rat list \<Rightarrow>
   (wait_result \<times> rat list) option" where
  "acquire_permit_loop cfg ask elapsed jitter attempt sleeps =
     (case ask attempt of
        Inl e \<Rightarrow> Some (PermitFailed e, sleeps)
      | Inr result \<Rightarrow>
          if acquired result then Some (PermitAcquired result, sleeps)
          else if elapsed attempt \<ge> max_wait cfg then Some (PermitTimeout (elapsed attempt), sleeps)
          else (case sleep_duration cfg attempt (jitter attempt) (elapsed attempt) of
                  Inl e \<Rightarrow> Some (PermitRaised e, sleeps)
                | Inr d \<Rightarrow> acquire_permit_loop cfg ask elapsed jitter (Suc attempt) (sleeps @ [d])))"

text \<open>\<open>_check_action_execution_limit\<close>: the counter after the check, and whether it raises.\<close>

definition check_action_execution_limit :: "effective_limits option \<Rightarrow> int \<Rightarrow> (exn + unit) \<times> int" where
  "check_action_execution_limit limits n =
     (case limits of
        None \<Rightarrow> (Inr (), n)
      | Some l \<Rightarrow>
          (case max_action_executions_per_workflow l of
             None \<Rightarrow> (Inr (), n)
           | Some max_actions \<Rightarrow>
               if n + 1 > max_actions
               then (Inl (application_error (''Action execution limit exceeded ('' @ show_int (n + 1) @ ''/'' @
                       show_int max_actions @ '')'') []), n + 1)
               else (Inr (), n + 1)))"


section \<open>Properties\<close>

definition bool_values :: "(string, pyval) dict \<Rightarrow> bool" where
  "bool_values d \<longleftrightarrow> list_all (\<lambda>(_, v). case v of VBool _ \<Rightarrow> True | _ \<Rightarrow> False) d"

lemma bool_values_get:
  assumes "bool_values d" and "dict_get d k = Some v"
  obtains b where "v = VBool b"
  using assms by (auto simp: bool_values_def list_all_iff dest!: map_of_SomeD split: pyval.splits)

lemma resolve_entitlement_bool:
  assumes "bool_values ov" and "bool_values te"
  obtains b where "resolve_entitlement ov te k = VBool b"
    "(case get_default VNone ov k of VNone \<Rightarrow> py_bool (get_default (VBool False) te k) | v \<Rightarrow> py_bool v) = b"
proof (cases "dict_get ov k")
  case (Some v)
  then obtain b where "v = VBool b" using bool_values_get [OF assms(1)] by blast
  with Some that show ?thesis by (simp add: resolve_entitlement_def get_default_def)
next
  case None
  show ?thesis
  proof (cases "dict_get te k")
    case (Some v)
    then obtain b where "v = VBool b" using bool_values_get [OF assms(2)] by blast
    with None Some that show ?thesis by (simp add: resolve_entitlement_def get_default_def)
  qed (use None that [of False] in \<open>simp add: resolve_entitlement_def get_default_def\<close>)
qed

text \<open>The two entitlement checks agree. When the stored overrides and tier entitlements hold
  booleans (and pydantic accepts a boolean as itself), the single check \<open>is_org_entitled\<close> returns the
  field of \<open>get_effective_entitlements\<close>, errors included.\<close>

theorem entitlement_checks_agree:
  assumes "\<forall>b. coerce (VBool b) = Inr b"
    and "\<forall>ot t. get_org_tier_and_resolved_tier db org_id = Inr (ot, t) \<longrightarrow>
      bool_values (overrides_of ot) \<and> bool_values (or_empty (tier_entitlements t))"
  shows "is_org_entitled cfg db org_id e =
    sbind (get_effective_entitlements coerce cfg db org_id) (\<lambda>ents. Inr (entitlement_field e ents))"
proof (cases "ee_multi_tenant cfg")
  case multi: True
  show ?thesis
  proof (cases "get_org_tier_and_resolved_tier db org_id")
    case (Inr x)
    obtain ot t where x: "x = (ot, t)" by (cases x)
    let ?res = "\<lambda>e. resolve_entitlement (overrides_of ot) (or_empty (tier_entitlements t)) (entitlement_value e)"
    define val where "val = (\<lambda>e. case get_default VNone (overrides_of ot) (entitlement_value e) of
        VNone \<Rightarrow> py_bool (get_default (VBool False) (or_empty (tier_entitlements t)) (entitlement_value e))
      | v \<Rightarrow> py_bool v)"
    have bools: "bool_values (overrides_of ot)" "bool_values (or_empty (tier_entitlements t))"
      using assms(2) Inr x by auto
    have "?res e = VBool (val e)" for e
      by (rule resolve_entitlement_bool [OF bools, of "entitlement_value e"]) (simp add: val_def)
    moreover have "is_org_entitled cfg db org_id e = Inr (val e)"
      using multi Inr x by (simp add: is_org_entitled_def val_def split: pyval.splits)
    ultimately show ?thesis
      using multi Inr x assms(1) by (cases e) (simp_all add: get_effective_entitlements_def del: entitlement_value.simps)
  qed (use multi in \<open>simp add: is_org_entitled_def get_effective_entitlements_def\<close>)
qed (simp add: is_org_entitled_def get_effective_entitlements_def)

definition sample_tier :: tier_row where
  "sample_tier = \<lparr>tier_limits = DEFAULT_LIMITS, tier_entitlements = Some [(''git_sync'', VBool True)]\<rparr>"

definition sample_db :: "(string, pyval) dict option \<Rightarrow> tier_db" where
  "sample_db ov =
     \<lparr>query_org_tier = (\<lambda>_. Inr (Some \<lparr>org_limits = DEFAULT_LIMITS, entitlement_overrides = ov, assigned_tier = Some sample_tier\<rparr>)),
      query_default_tier = Inr None\<rparr>"

definition sample_tier_config :: tier_config where
  "sample_tier_config = \<lparr>ee_multi_tenant = True, default_entitlements = resolve_oss_default_entitlements None\<rparr>"

definition strict_bool :: "pyval \<Rightarrow> exn + bool" where
  "strict_bool v = (case v of VBool b \<Rightarrow> Inr b | _ \<Rightarrow> Inl (ValidationError ''bool''))"

lemma sample_db_resolves:
  "get_org_tier_and_resolved_tier (sample_db ov) org_id =
     Inr (Some \<lparr>org_limits = DEFAULT_LIMITS, entitlement_overrides = ov, assigned_tier = Some sample_tier\<rparr>, sample_tier)"
  by (simp add: get_org_tier_and_resolved_tier_def sample_db_def)

theorem entitlement_checks_agree_witness:
  "is_org_entitled sample_tier_config (sample_db (Some [(''watchtower'', VBool True)])) ''o'' WATCHTOWER =
    sbind (get_effective_entitlements strict_bool sample_tier_config (sample_db (Some [(''watchtower'', VBool True)])) ''o'')
      (\<lambda>ents. Inr (entitlement_field WATCHTOWER ents))"
  by (rule entitlement_checks_agree)
    (simp_all add: strict_bool_def sample_db_resolves overrides_of_def or_empty_def bool_values_def sample_tier_def)

text \<open>A null override splits the two checks: an override stored as null counts as absent for
  \<open>is_org_entitled\<close>, while \<open>get_effective_entitlements\<close> takes it as the value and fails for every
  coercion that rejects null.\<close>

theorem null_override_diverges:
  assumes "coerce VNone = Inl err"
  shows "is_org_entitled sample_tier_config (sample_db (Some [(''custom_registry'', VNone)])) org_id GIT_SYNC = Inr True \<and>
    get_effective_entitlements coerce sample_tier_config (sample_db (Some [(''custom_registry'', VNone)])) org_id = Inl err"
  using assms
  by (simp add: is_org_entitled_def get_effective_entitlements_def sample_db_resolves sample_tier_config_def
      overrides_of_def or_empty_def sample_tier_def get_default_def resolve_entitlement_def)

theorem null_override_diverges_witness:
  "get_effective_entitlements strict_bool sample_tier_config (sample_db (Some [(''custom_registry'', VNone)])) ''o'' =
     Inl (ValidationError ''bool'')"
  using null_override_diverges [of strict_bool "ValidationError ''bool''" "''o''"] by (simp add: strict_bool_def)

text \<open>What a permit outcome means. The effective limit is at least one; the reported count is the
  number of holders afterwards; a granted permit is held; a refused one is not held, and then at least
  as many permits as the limit allows are.\<close>

theorem permit_outcome_correct:
  assumes "zset (sem_client (svc_semaphore svc))"
    and "acquire_permit limit_of scope svc org_id p now r = (Inr oc, r')"
  shows "1 \<le> effective_limit oc \<and>
    current_count (outcome_result oc) = int (card (permit_holders (svc_semaphore svc) r' org_id scope)) \<and>
    (acquired (outcome_result oc) \<longleftrightarrow> p \<in> permit_holders (svc_semaphore svc) r' org_id scope) \<and>
    (\<not> acquired (outcome_result oc) \<longrightarrow>
       effective_limit oc \<le> int (card (permit_holders (svc_semaphore svc) r' org_id scope)))"
proof -
  let ?sem = "svc_semaphore svc"
  from assms(2) obtain r1 limits src limit res where
    lim: "normalize_concurrency_limit (limit_of limits) org_id (scope_value scope) = Inr limit"
    and acq: "sem_acquire ?sem org_id p limit scope now r1 = (res, r')"
    and oc: "oc = \<lparr>outcome_result = res, effective_limit = limit, cap_source = src\<rparr>"
    by (auto simp: acquire_permit_def Let_def split: sum.splits prod.splits)
  have "1 \<le> limit" using lim
    by (auto simp: normalize_concurrency_limit_def UNBOUNDED_CONCURRENCY_LIMIT_def split: option.splits if_splits)
  moreover have "permit_holders ?sem r' org_id scope = {q. permit_leases ?sem r' (org_id, scope) q \<noteq> None}"
    by (simp add: permit_holders_def zmembers_def permit_leases_def)
  moreover note redis_backed.sem_acquire_spec [OF redis_backed.intro [OF assms(1)] acq]
  ultimately show ?thesis by (auto simp: oc)
qed


text \<open>A Redis with the keys of both uses: sorted sets and strings side by side.\<close>

definition pair_zset :: "((string \<times> string, int) dict \<times> (string, string) dict) zset_ops" where
  "pair_zset =
     \<lparr>zadd = (\<lambda>k sc m r. (zadd list_zset k sc m (fst r), snd r)),
      zscore = (\<lambda>k m r. zscore list_zset k m (fst r)),
      zcard = (\<lambda>k r. zcard list_zset k (fst r)),
      zrem = (\<lambda>k m r. let (r', n) = zrem list_zset k m (fst r) in ((r', snd r), n)),
      zremrangebyscore = (\<lambda>k hi r. let (r', n) = zremrangebyscore list_zset k hi (fst r) in ((r', snd r), n))\<rparr>"

lemma pair_members: "zmembers pair_zset k r = zmembers list_zset k (fst r)"
  by (simp add: zmembers_def pair_zset_def)

interpretation pair_redis: zset pair_zset
proof
  fix k m k' m' sc hi and r :: "(string \<times> string, int) dict \<times> (string, string) dict"
  show "zcard pair_zset k r = int (card (zmembers pair_zset k r))"
    unfolding pair_members list_redis.zcard_card [symmetric] by (simp add: pair_zset_def)
  show "finite (zmembers pair_zset k r)" unfolding pair_members by (rule list_redis.finite_members)
  show "zscore pair_zset k m (zadd pair_zset k' sc m' r) = (if k = k' \<and> m = m' then Some sc else zscore pair_zset k m r)"
    "zscore pair_zset k m (fst (zrem pair_zset k' m' r)) = (if k = k' \<and> m = m' then None else zscore pair_zset k m r)"
    "zscore pair_zset k m (fst (zremrangebyscore pair_zset k' hi r)) =
      (if k = k' then (case zscore pair_zset k m r of None \<Rightarrow> None | Some sc \<Rightarrow> if sc \<le> hi then None else Some sc)
       else zscore pair_zset k m r)"
    using list_redis.zscore_zadd [of k m k' sc m' "fst r"] list_redis.zscore_zrem [of k m k' m' "fst r"]
      list_redis.zscore_zremrange [of k m k' hi "fst r"]
    by (simp_all add: pair_zset_def split_def Let_def)
qed

text \<open>A JSON form for the sample: the five fields between commas.\<close>

definition dump_field :: "int option \<Rightarrow> string" where
  "dump_field x = (case x of None \<Rightarrow> ''null'' | Some n \<Rightarrow> show_int n)"

definition dump_limits :: "effective_limits \<Rightarrow> string" where
  "dump_limits l =
     dump_field (api_rate_limit l) @ '','' @ dump_field (api_burst_capacity l) @ '','' @
     dump_field (max_concurrent_workflows l) @ '','' @ dump_field (max_action_executions_per_workflow l) @ '','' @
     dump_field (max_concurrent_actions l)"

definition parse_limits :: "string \<Rightarrow> effective_limits option" where
  "parse_limits s =
     (case map (\<lambda>f. if f = ''null'' then None else py_int f) (split_on (CHR '','') s) of
        [a, b, c, d, e] \<Rightarrow>
          Some \<lparr>api_rate_limit = a, api_burst_capacity = b, max_concurrent_workflows = c,
                max_action_executions_per_workflow = d, max_concurrent_actions = e\<rparr>
      | _ \<Rightarrow> None)"

lemma show_int_no_comma [simp]: "CHR '','' \<notin> set (show_int i)"
  by (auto simp: show_int_def dest: show_nat_digits [THEN bspec] simp: is_digit_def)

lemma show_int_not_null [simp]: "show_int i \<noteq> ''null''"
proof
  assume eq: "show_int i = ''null''"
  have "py_int ''null'' = None" by code_simp
  with eq py_int_show_int [of i] show False by simp
qed

lemma dump_field_no_comma [simp]: "CHR '','' \<notin> set (dump_field x)"
  by (cases x) (simp_all add: dump_field_def)

lemma parse_field: "(if dump_field x = ''null'' then None else py_int (dump_field x)) = x"
  by (cases x) (simp_all add: dump_field_def)

lemma parse_dump_limits: "parse_limits (dump_limits l) = Some l"
  by (simp add: parse_limits_def dump_limits_def parse_field)

definition sample_cache :: "((string \<times> string, int) dict \<times> (string, string) dict) limits_cache" where
  "sample_cache =
     \<lparr>kv_get = (\<lambda>k r. Inr (dict_get (snd r) k)),
      kv_set = (\<lambda>k v _ r. Inr (fst r, dict_set k v (snd r))),
      kv_delete = (\<lambda>k r. Inr (fst r, dict_pop k (snd r))),
      validate_json = parse_limits, dump_json = dump_limits, cache_ttl = 30\<rparr>"

definition sample_service :: "((string \<times> string, int) dict \<times> (string, string) dict) permit_service" where
  "sample_service =
     \<lparr>svc_semaphore = \<lparr>sem_client = pair_zset, sem_ttl = 300\<rparr>, svc_cache = sample_cache,
      svc_config = sample_tier_config, svc_db = sample_db None\<rparr>"

theorem permit_outcome_correct_witness:
  "\<exists>oc r'. acquire_permit max_concurrent_workflows WORKFLOW sample_service ''o'' ''wf'' 10 ([], []) = (Inr oc, r') \<and>
     1 \<le> effective_limit oc"
proof -
  have "\<exists>oc r'. acquire_permit max_concurrent_workflows WORKFLOW sample_service ''o'' ''wf'' 10 ([], []) = (Inr oc, r')"
    by (simp add: acquire_permit_def get_effective_limits_for_org_def get_effective_limits_cached_def sample_service_def
        sample_cache_def get_effective_limits_def sample_tier_config_def sample_db_resolves normalize_concurrency_limit_def
        resolve_limit_def sample_tier_def DEFAULT_LIMITS_def Let_def split: prod.splits)
  then obtain oc r' where eq: "acquire_permit max_concurrent_workflows WORKFLOW sample_service ''o'' ''wf'' 10 ([], []) = (Inr oc, r')"
    by blast
  have "zset (sem_client (svc_semaphore sample_service))" by (simp add: sample_service_def pair_redis.zset_axioms)
  from permit_outcome_correct [OF this eq] eq show ?thesis by blast
qed

text \<open>Cached limits are the limits that were looked up. If Redis returns what was stored, and the
  JSON form of limits reads back, then after a lookup in the database that could be cached, the next
  lookup returns the same limits from the cache.\<close>

theorem limits_cache_roundtrip:
  assumes "\<forall>k v n r r'. kv_set (svc_cache svc) k v n r = Inr r' \<longrightarrow> kv_get (svc_cache svc) k r' = Inr (Some v)"
    and "\<forall>l. validate_json (svc_cache svc) (dump_json (svc_cache svc) l) = Some l"
    and "0 < cache_ttl (svc_cache svc)"
    and "get_effective_limits_for_org svc org_id r = (Inr (limits, ''db''), r')"
    and "\<forall>k v n r. \<exists>r'. kv_set (svc_cache svc) k v n r = Inr r'"
  shows "get_effective_limits_for_org svc org_id r' = (Inr (limits, ''cache''), r')"
proof -
  obtain cached r1 where c: "get_effective_limits_cached (svc_cache svc) org_id r = (cached, r1)" by fastforce
  have r': "r' = (case set_effective_limits_cached (svc_cache svc) org_id limits r1 of Inl _ \<Rightarrow> r1 | Inr r2 \<Rightarrow> r2)"
    using assms(4) c
    by (cases "get_effective_limits (svc_config svc) (svc_db svc) org_id"; cases cached)
      (auto simp: get_effective_limits_for_org_def split: option.splits)
  from assms(3,5) obtain r2 where set:
    "kv_set (svc_cache svc) (effective_limits_cache_key org_id) (dump_json (svc_cache svc) limits) (cache_ttl (svc_cache svc)) r1 = Inr r2"
    by blast
  with r' assms(3) have "r' = r2" by (simp add: set_effective_limits_cached_def)
  with set assms(1) have "kv_get (svc_cache svc) (effective_limits_cache_key org_id) r' = Inr (Some (dump_json (svc_cache svc) limits))"
    by blast
  with assms(2,3) show ?thesis
    by (simp add: get_effective_limits_for_org_def get_effective_limits_cached_def)
qed

theorem limits_cache_roundtrip_witness:
  "\<exists>limits r'. get_effective_limits_for_org sample_service ''o'' ([], []) = (Inr (limits, ''db''), r') \<and>
     get_effective_limits_for_org sample_service ''o'' r' = (Inr (limits, ''cache''), r')"
proof -
  have "\<exists>limits r'. get_effective_limits_for_org sample_service ''o'' ([], []) = (Inr (limits, ''db''), r')"
    by (simp add: get_effective_limits_for_org_def get_effective_limits_cached_def sample_service_def
        sample_cache_def get_effective_limits_def sample_tier_config_def sample_db_resolves Let_def)
  then obtain limits r' where
    eq: "get_effective_limits_for_org sample_service ''o'' ([], []) = (Inr (limits, ''db''), r')" by blast
  have "get_effective_limits_for_org sample_service ''o'' r' = (Inr (limits, ''cache''), r')"
    by (rule limits_cache_roundtrip [OF _ _ _ eq]) (simp_all add: sample_service_def sample_cache_def parse_dump_limits)
  with eq show ?thesis by blast
qed

section \<open>Waiting terminates\<close>

lemma backoff_lower:
  assumes "next_permit_backoff_seconds cfg attempt jitter = Inr d" and "4 / 5 \<le> jitter"
  shows "2 / 25 \<le> d"
proof -
  let ?b = "max (backoff_base cfg) (1 / 10)"
  have "?b * 1 \<le> ?b * 2 ^ attempt" by (rule mult_left_mono) (auto simp: max_def)
  moreover have b: "1 / 10 \<le> ?b" by simp
  ultimately have "1 / 10 \<le> ?b * 2 ^ attempt" by linarith
  moreover have "1 / 10 \<le> max (backoff_max cfg) ?b" using b by linarith
  ultimately have "1 / 10 \<le> min (?b * 2 ^ attempt) (max (backoff_max cfg) ?b)" by simp
  then have "1 / 10 * (4 / 5) \<le> min (?b * 2 ^ attempt) (max (backoff_max cfg) ?b) * jitter"
    using assms(2) by (intro mult_mono) auto
  then show ?thesis using assms(1) by (auto simp: next_permit_backoff_seconds_def Let_def split: if_splits)
qed

lemma backoff_upper:
  assumes "next_permit_backoff_seconds cfg attempt jitter = Inr d" and "0 \<le> jitter" and "jitter \<le> 6 / 5"
  shows "d \<le> max (backoff_max cfg) (max (backoff_base cfg) (1 / 10)) * (6 / 5)"
proof -
  have "min (max (backoff_base cfg) (1 / 10) * 2 ^ attempt) (max (backoff_max cfg) (max (backoff_base cfg) (1 / 10))) * jitter \<le>
      max (backoff_max cfg) (max (backoff_base cfg) (1 / 10)) * (6 / 5)"
    using assms(2,3) by (intro mult_mono) (auto simp: max_def)
  then show ?thesis using assms(1) by (auto simp: next_permit_backoff_seconds_def Let_def split: if_splits)
qed

lemma sleep_duration_eq_Inr:
  "sleep_duration cfg i j t = Inr d \<longleftrightarrow>
     (\<exists>b. next_permit_backoff_seconds cfg i j = Inr b \<and> d = min b (max_wait cfg - t))"
  by (auto simp: sleep_duration_def sbind_eq_Inr)

lemma sleep_duration_overflow: "(\<exists>e. sleep_duration cfg i j t = Inl e) \<longleftrightarrow> 1024 \<le> i"
  by (simp add: sleep_duration_def next_permit_backoff_seconds_def Let_def)

text \<open>The attempts after which the loop sleeps.\<close>

definition keeps_waiting :: "wait_config \<Rightarrow> (nat \<Rightarrow> exn + acquire_result) \<Rightarrow> (nat \<Rightarrow> rat) \<Rightarrow> nat \<Rightarrow> bool" where
  "keeps_waiting cfg ask elapsed i \<longleftrightarrow> (\<exists>r. ask i = Inr r \<and> \<not> acquired r) \<and> elapsed i < max_wait cfg \<and> i < 1024"

definition wait_outcome :: "wait_config \<Rightarrow> (nat \<Rightarrow> exn + acquire_result) \<Rightarrow> (nat \<Rightarrow> rat) \<Rightarrow> nat \<Rightarrow> wait_result \<Rightarrow> bool" where
  "wait_outcome cfg ask elapsed k res \<longleftrightarrow>
     (case res of
        PermitAcquired a \<Rightarrow> ask k = Inr a \<and> acquired a
      | PermitFailed e \<Rightarrow> ask k = Inl e
      | PermitTimeout t \<Rightarrow> t = elapsed k \<and> max_wait cfg \<le> t
      | PermitRaised e \<Rightarrow> k = 1024 \<and> elapsed k < max_wait cfg \<and> (\<exists>r. ask k = Inr r \<and> \<not> acquired r))"

lemma loop_stops:
  assumes "\<not> keeps_waiting cfg ask elapsed k" and "k \<le> 1024"
  shows "\<exists>res. acquire_permit_loop cfg ask elapsed jitter k sleeps = Some (res, sleeps) \<and> wait_outcome cfg ask elapsed k res"
proof (cases "ask k")
  case (Inl e)
  then show ?thesis by (subst acquire_permit_loop.simps) (simp add: wait_outcome_def)
next
  case (Inr r)
  show ?thesis
  proof (cases "acquired r \<or> max_wait cfg \<le> elapsed k")
    case True
    with Inr show ?thesis by (subst acquire_permit_loop.simps) (auto simp: wait_outcome_def)
  next
    case False
    with Inr assms have "k = 1024" by (auto simp: keeps_waiting_def)
    moreover from this obtain e where "sleep_duration cfg k (jitter k) (elapsed k) = Inl e"
      using sleep_duration_overflow [of cfg k] by blast
    ultimately show ?thesis using Inr False by (subst acquire_permit_loop.simps) (auto simp: wait_outcome_def)
  qed
qed

text \<open>The loop sleeps after every attempt before \<open>k\<close> and ends at \<open>k\<close>.\<close>

lemma loop_runs:
  assumes "\<forall>j. i \<le> j \<and> j < k \<longrightarrow> keeps_waiting cfg ask elapsed j" and "i \<le> k" and "\<not> keeps_waiting cfg ask elapsed k" and "k \<le> 1024"
  shows "\<exists>res ds. acquire_permit_loop cfg ask elapsed jitter i sleeps = Some (res, sleeps @ ds) \<and> wait_outcome cfg ask elapsed k res \<and>
     length ds = k - i \<and> (\<forall>d \<in> set ds. \<exists>j. sleep_duration cfg j (jitter j) (elapsed j) = Inr d)"
  using assms(1,2)
proof (induction "k - i" arbitrary: i sleeps)
  case 0
  with loop_stops [OF assms(3,4), of jitter sleeps] show ?case by auto
next
  case (Suc n)
  then have w: "keeps_waiting cfg ask elapsed i" and i: "Suc i \<le> k" by auto
  then obtain d where d: "sleep_duration cfg i (jitter i) (elapsed i) = Inr d"
    using sleep_duration_overflow [of cfg i "jitter i" "elapsed i"] by (cases "sleep_duration cfg i (jitter i) (elapsed i)") (auto simp: keeps_waiting_def)
  have "n = k - Suc i" using Suc.hyps(2) by simp
  from Suc.hyps(1) [OF this, of "sleeps @ [d]"] Suc.prems(1) i obtain res ds where
    "acquire_permit_loop cfg ask elapsed jitter (Suc i) (sleeps @ [d]) = Some (res, sleeps @ d # ds)"
    "wait_outcome cfg ask elapsed k res" "length ds = k - Suc i"
    "\<forall>d \<in> set ds. \<exists>j. sleep_duration cfg j (jitter j) (elapsed j) = Inr d" by auto
  moreover from this(1) have "acquire_permit_loop cfg ask elapsed jitter i sleeps = Some (res, sleeps @ d # ds)"
    using w d by (subst acquire_permit_loop.simps) (auto simp: keeps_waiting_def)
  ultimately show ?case using d i Suc.prems(2) by (intro exI [of _ res] exI [of _ "d # ds"]) auto
qed

lemma elapsed_progress:
  assumes "\<forall>i. 4 / 5 \<le> jitter i"
    and clock: "\<forall>i d. sleep_duration cfg i (jitter i) (elapsed i) = Inr d \<longrightarrow> elapsed i + d \<le> elapsed (Suc i)"
    and "0 \<le> elapsed 0" and "\<forall>j < i. elapsed j < max_wait cfg" and "i \<le> 1024"
  shows "min (max_wait cfg) (of_nat i * (2 / 25)) \<le> elapsed i"
  using assms(4,5)
proof (induction i)
  case 0
  then show ?case using assms(3) by simp
next
  case (Suc i)
  then have "min (max_wait cfg) (of_nat i * (2 / 25)) \<le> elapsed i" and lt: "elapsed i < max_wait cfg" by simp_all
  then have "of_nat i * (2 / 25) \<le> elapsed i" by (simp add: min_def split: if_splits)
  moreover obtain b where b: "next_permit_backoff_seconds cfg i (jitter i) = Inr b"
    using Suc.prems(2) by (simp add: next_permit_backoff_seconds_def Let_def)
  then have "elapsed i + min b (max_wait cfg - elapsed i) \<le> elapsed (Suc i)"
    using clock by (simp add: sleep_duration_eq_Inr)
  moreover have "2 / 25 \<le> b" using backoff_lower [OF b] assms(1) by blast
  ultimately show ?case by (auto simp: min_def algebra_simps split: if_splits)
qed

text \<open>C34: waiting for a permit ends. If the random factor stays in its range and every sleep takes at
  least as long as asked, the loop returns after at most \<open>max_wait / 0.08\<close> retries (rounded up) and at
  most 1024: with the permit if the activity granted it, with the activity's failure, with a timeout, and
  then only after \<open>max_wait\<close> seconds, or with the \<open>OverflowError\<close> of the backoff. The last happens exactly if
  the attempts 0 to 1024 are all refused within \<open>max_wait\<close> seconds. No sleep is longer than the largest
  backoff with its jitter.\<close>

theorem permit_wait_terminates:
  assumes "\<forall>i. 4 / 5 \<le> jitter i \<and> jitter i \<le> 6 / 5" and "0 \<le> elapsed 0"
    and "\<forall>i d. sleep_duration cfg i (jitter i) (elapsed i) = Inr d \<longrightarrow> elapsed i + d \<le> elapsed (Suc i)"
  shows "\<exists>res sleeps k. acquire_permit_loop cfg ask elapsed jitter 0 [] = Some (res, sleeps) \<and>
    k = length sleeps \<and> k \<le> nat \<lceil>max_wait cfg / (2 / 25)\<rceil> \<and> k \<le> 1024 \<and>
    (\<forall>s \<in> set sleeps. s \<le> max (backoff_max cfg) (max (backoff_base cfg) (1 / 10)) * (6 / 5)) \<and>
    wait_outcome cfg ask elapsed k res \<and>
    ((\<exists>e. res = PermitRaised e) \<longleftrightarrow> (\<forall>j \<le> 1024. (\<exists>r. ask j = Inr r \<and> \<not> acquired r) \<and> elapsed j < max_wait cfg))"
proof -
  define k where "k = (LEAST i. \<not> keeps_waiting cfg ask elapsed i)"
  have stop: "\<not> keeps_waiting cfg ask elapsed 1024" by (simp add: keeps_waiting_def)
  have k: "\<not> keeps_waiting cfg ask elapsed k" "k \<le> 1024" and before: "\<forall>j < k. keeps_waiting cfg ask elapsed j"
    unfolding k_def using LeastI [of "\<lambda>i. \<not> keeps_waiting cfg ask elapsed i", OF stop]
      Least_le [of "\<lambda>i. \<not> keeps_waiting cfg ask elapsed i", OF stop] not_less_Least by auto
  from loop_runs [where i = 0 and sleeps = "[]" and jitter = jitter, OF _ _ k] before obtain res ds where
    run: "acquire_permit_loop cfg ask elapsed jitter 0 [] = Some (res, ds)" "wait_outcome cfg ask elapsed k res" "length ds = k"
      "\<forall>d \<in> set ds. \<exists>j. sleep_duration cfg j (jitter j) (elapsed j) = Inr d" by auto
  have "k \<le> nat \<lceil>max_wait cfg / (2 / 25)\<rceil>"
  proof (rule ccontr)
    let ?N = "nat \<lceil>max_wait cfg / (2 / 25)\<rceil>"
    assume "\<not> k \<le> ?N"
    then have lt: "\<forall>j \<le> ?N. elapsed j < max_wait cfg" and N: "?N \<le> 1024" using before k(2) by (auto simp: keeps_waiting_def)
    then have "min (max_wait cfg) (of_nat ?N * (2 / 25)) \<le> elapsed ?N"
      using elapsed_progress [of jitter cfg elapsed ?N] assms by simp
    moreover have "max_wait cfg / (2 / 25) \<le> of_nat ?N" by linarith
    then have "max_wait cfg \<le> of_nat ?N * (2 / 25)" by (simp add: field_simps)
    ultimately show False using lt by (auto simp: min_def split: if_splits)
  qed
  moreover have "d \<le> max (backoff_max cfg) (max (backoff_base cfg) (1 / 10)) * (6 / 5)" if mem: "d \<in> set ds" for d
  proof -
    obtain j b where b: "next_permit_backoff_seconds cfg j (jitter j) = Inr b" and d: "d = min b (max_wait cfg - elapsed j)"
      using run(4) mem by (auto simp: sleep_duration_eq_Inr)
    have "0 \<le> jitter j" "jitter j \<le> 6 / 5" using assms(1) by (auto intro: order_trans [of 0 "4 / 5"])
    from backoff_upper [OF b this] show ?thesis unfolding d by (rule min.coboundedI1)
  qed
  moreover have "(\<exists>e. res = PermitRaised e) \<longleftrightarrow> (\<forall>j \<le> 1024. (\<exists>r. ask j = Inr r \<and> \<not> acquired r) \<and> elapsed j < max_wait cfg)"
  proof (cases res)
    case (PermitRaised e)
    with run(2) before show ?thesis by (auto simp: wait_outcome_def keeps_waiting_def le_less)
  qed (use run(2) k(2) in \<open>force simp: wait_outcome_def\<close>)+
  ultimately show ?thesis using run k(2) by (intro exI [of _ res] exI [of _ ds] exI [of _ k]) auto
qed

theorem permit_wait_terminates_witness:
  "\<exists>res sleeps. acquire_permit_loop \<lparr>backoff_base = 1, backoff_max = 30, max_wait = 2\<rparr>
     (\<lambda>_. Inr \<lparr>acquired = False, current_count = 3\<rparr>) (\<lambda>i. 4 * of_nat i) (\<lambda>_. 1) 0 [] = Some (res, sleeps) \<and> length sleeps \<le> 25"
proof -
  let ?cfg = "\<lparr>backoff_base = 1, backoff_max = 30, max_wait = 2\<rparr>"
  have jitter: "\<forall>i::nat. 4 / 5 \<le> (1::rat) \<and> (1::rat) \<le> 6 / 5" and start: "0 \<le> 4 * (of_nat 0 :: rat)" by simp_all
  have "\<forall>i d. sleep_duration ?cfg i 1 (4 * of_nat i) = Inr d \<longrightarrow> 4 * of_nat i + d \<le> 4 * (of_nat (Suc i) :: rat)"
    by (auto simp: sleep_duration_eq_Inr min_le_iff_disj)
  from permit_wait_terminates [where cfg = ?cfg and ask = "\<lambda>_. Inr \<lparr>acquired = False, current_count = 3\<rparr>", OF jitter start this]
  show ?thesis by (auto simp: nat_le_iff)
qed

text \<open>The execution limit counts exactly: with a limit of \<open>n\<close> action executions, the first \<open>n\<close>
  checks of a run pass and every later one fails.\<close>

theorem action_limit_exact:
  assumes "max_action_executions_per_workflow l = Some n"
  shows "fst (check_action_execution_limit (Some l) (((\<lambda>c. snd (check_action_execution_limit (Some l) c)) ^^ i) 0)) = Inr () \<longleftrightarrow>
    int i < n"
proof -
  have "((\<lambda>c. snd (check_action_execution_limit (Some l) c)) ^^ i) 0 = int i"
    using assms by (induction i) (simp_all add: check_action_execution_limit_def)
  then show ?thesis using assms by (simp add: check_action_execution_limit_def)
qed

theorem action_limit_exact_witness:
  "fst (check_action_execution_limit (Some (DEFAULT_LIMITS\<lparr>max_action_executions_per_workflow := Some 2\<rparr>))
     (((\<lambda>c. snd (check_action_execution_limit (Some (DEFAULT_LIMITS\<lparr>max_action_executions_per_workflow := Some 2\<rparr>)) c)) ^^ 1) 0)) = Inr ()"
  by (subst action_limit_exact [of _ 2]) simp_all

end
