(* ===== verification/Authz_Scopes.thy ===== *)
theory Authz_Scopes
  imports Py_String
begin

text \<open>
  Scope checks (\<open>tracecat/authz/controls.py\<close>): validation and matching of scope strings, the implied
  read scope, the set operations on scopes, the ceiling for grants and the enforcement functions.
  \<open>fnmatch\<close> of the standard library is modelled with all its pattern forms; its result is then
  characterised for the patterns that validated scopes can be.
\<close>

section \<open>Shell patterns\<close>

text \<open>The text of a bracket expression after \<open>[\<close> and what follows it, if it is closed.\<close>

definition bracket :: "string \<Rightarrow> (string \<times> string) option" where
  "bracket p =
     (let (neg, p1) = (case p of c # q \<Rightarrow> if c = CHR ''!'' then ([c], q) else ([], p) | [] \<Rightarrow> ([], p));
          (br, p2) = (case p1 of c # q \<Rightarrow> if c = CHR '']'' then ([c], q) else ([], p1) | [] \<Rightarrow> ([], p1))
      in case split_first (CHR '']'') p2 of
           (x, Some rest) \<Rightarrow> Some (neg @ br @ x, rest)
         | (_, None) \<Rightarrow> None)"

fun in_class :: "string \<Rightarrow> char \<Rightarrow> bool" where
  "in_class (a # CHR ''-'' # b # r) c = ((a \<le> c \<and> c \<le> b) \<or> in_class r c)"
| "in_class (a # r) c = (a = c \<or> in_class r c)"
| "in_class [] c = False"

definition match_class :: "string \<Rightarrow> char \<Rightarrow> bool" where
  "match_class stuff c = (case stuff of x # r \<Rightarrow> if x = CHR ''!'' then \<not> in_class r c else in_class stuff c | [] \<Rightarrow> False)"

lemma bracket_shorter: "bracket p = Some (stuff, rest) \<Longrightarrow> length rest < length p"
  by (auto simp: bracket_def Let_def split: prod.splits option.splits list.splits if_splits dest!: split_first_Some)

text \<open>Does the whole name match the pattern?\<close>

function fn_match :: "string \<Rightarrow> string \<Rightarrow> bool" where
  "fn_match [] s = (s = [])"
| "fn_match (x # p) s =
     (if x = CHR ''*'' then fn_match p s \<or> (case s of [] \<Rightarrow> False | _ # s' \<Rightarrow> fn_match (x # p) s')
      else
        (case s of
           [] \<Rightarrow> False
         | c # s' \<Rightarrow>
             if x = CHR ''?'' then fn_match p s'
             else if x = CHR ''['' then
               (case bracket p of
                  None \<Rightarrow> c = x \<and> fn_match p s'
                | Some (stuff, rest) \<Rightarrow> match_class stuff c \<and> fn_match rest s')
             else c = x \<and> fn_match p s'))"
  by pat_completeness auto
termination
  by (relation "measures [\<lambda>(p, s). length p, \<lambda>(p, s). length s]") (auto simp: bracket_shorter less_SucI)

declare fn_match.simps(2) [simp del]

lemma fn_match_star: "fn_match (CHR ''*'' # p) s \<longleftrightarrow> fn_match p s \<or> (case s of [] \<Rightarrow> False | _ # s' \<Rightarrow> fn_match (CHR ''*'' # p) s')"
  by (subst fn_match.simps) simp

lemma fn_match_char:
  "x \<notin> {CHR ''*'', CHR ''?'', CHR ''[''} \<Longrightarrow> fn_match (x # p) s \<longleftrightarrow> (\<exists>s'. s = x # s' \<and> fn_match p s')"
  by (subst fn_match.simps) (auto split: list.splits)

definition fnmatch :: "string \<Rightarrow> string \<Rightarrow> bool" where
  "fnmatch name pat = fn_match pat name"

section \<open>Scopes\<close>

definition scope_char :: "char \<Rightarrow> bool" where
  "scope_char c \<longleftrightarrow>
     (let n = (of_char c :: nat) in (97 \<le> n \<and> n \<le> 122) \<or> (48 \<le> n \<and> n \<le> 57)) \<or> c \<in> set '':_.*-''"

text \<open>\<open>$\<close> also matches before a newline that ends the string.\<close>

definition validate_scope_string :: "string \<Rightarrow> bool" where
  "validate_scope_string scope \<longleftrightarrow>
     (scope \<noteq> [] \<and> list_all scope_char scope) \<or>
     (scope \<noteq> [] \<and> last scope = CHR 0x0A \<and> butlast scope \<noteq> [] \<and> list_all scope_char (butlast scope))"

definition action_implies :: "string \<Rightarrow> string list" where
  "action_implies action = (if action = ''update'' then [''read''] else [])"

definition implied_scopes :: "string \<Rightarrow> string list" where
  "implied_scopes granted_scope =
     (if CHR ''*'' \<in> set granted_scope then []
      else case split_last (CHR '':'') granted_scope of
             None \<Rightarrow> []
           | Some (prefix, action) \<Rightarrow> map (\<lambda>implied. prefix @ '':'' @ implied) (action_implies action))"

definition scope_matches :: "string \<Rightarrow> string \<Rightarrow> bool" where
  "scope_matches granted_scope required_scope =
     (if granted_scope = ''*'' then True
      else if CHR ''*'' \<notin> set granted_scope then
        (if granted_scope = required_scope then True else required_scope \<in> set (implied_scopes granted_scope))
      else fnmatch required_scope granted_scope)"

definition has_scope :: "string set \<Rightarrow> string \<Rightarrow> bool" where
  "has_scope user_scopes required_scope \<longleftrightarrow> (\<exists>granted \<in> user_scopes. scope_matches granted required_scope)"

definition has_all_scopes :: "string set \<Rightarrow> string set \<Rightarrow> bool" where
  "has_all_scopes user_scopes required_scopes \<longleftrightarrow> (\<forall>scope \<in> required_scopes. has_scope user_scopes scope)"

definition has_any_scope :: "string set \<Rightarrow> string set \<Rightarrow> bool" where
  "has_any_scope user_scopes required_scopes \<longleftrightarrow> (\<exists>scope \<in> required_scopes. has_scope user_scopes scope)"

definition get_missing_scopes :: "string set \<Rightarrow> string set \<Rightarrow> string set" where
  "get_missing_scopes user_scopes required_scopes = {scope \<in> required_scopes. \<not> has_scope user_scopes scope}"

text \<open>The errors; a set turned into a list has no fixed order, so the lists are sets here.\<close>

datatype authz_error =
    ScopeDeniedError (required_scopes: "string set") (missing_scopes: "string set")
  | CannotGrant "string list"

definition ensure_can_grant_scopes :: "string set \<Rightarrow> string list \<Rightarrow> authz_error + unit" where
  "ensure_can_grant_scopes caller_scopes scope_names =
     (let denied = sort (remdups (filter (\<lambda>name. \<not> has_scope caller_scopes name) scope_names))
      in if denied \<noteq> [] then Inl (CannotGrant denied) else Inr ())"

section \<open>Enforcement\<close>

text \<open>A role as far as the checks read it: its resolved scopes, if any.\<close>

type_synonym scoped_role = "string set option"

text \<open>The role argument, or else the role of the request context.\<close>

definition check_scopes :: "scoped_role option \<Rightarrow> scoped_role option \<Rightarrow> string list \<Rightarrow> bool \<Rightarrow> authz_error + unit" where
  "check_scopes ctx_role role scopes require_all =
     (let required = set scopes
      in if required = {} then Inr ()
         else
           case (case role of Some r \<Rightarrow> Some r | None \<Rightarrow> ctx_role) of
             None \<Rightarrow> Inl (ScopeDeniedError required required)
           | Some None \<Rightarrow> Inl (ScopeDeniedError required required)
           | Some (Some user_scopes) \<Rightarrow>
               if ''*'' \<in> user_scopes then Inr ()
               else if require_all then
                 let missing = get_missing_scopes user_scopes required
                 in if missing \<noteq> {} then Inl (ScopeDeniedError required missing) else Inr ()
               else if \<not> has_any_scope user_scopes required then Inl (ScopeDeniedError required required)
               else Inr ())"

definition action_scope :: "string \<Rightarrow> string" where
  "action_scope action_key = ''action:'' @ action_key @ '':execute''"

definition require_action_scope :: "scoped_role option \<Rightarrow> string \<Rightarrow> authz_error + unit" where
  "require_action_scope ctx_role action_key =
     (case ctx_role of
        None \<Rightarrow> Inl (ScopeDeniedError {action_scope action_key} {action_scope action_key})
      | Some None \<Rightarrow> Inl (ScopeDeniedError {action_scope action_key} {action_scope action_key})
      | Some (Some user_scopes) \<Rightarrow>
          if ''*'' \<in> user_scopes then Inr ()
          else if \<not> has_scope user_scopes (action_scope action_key)
          then Inl (ScopeDeniedError {action_scope action_key} {action_scope action_key})
          else Inr ())"

text \<open>
  The wrapper of \<open>require_scope\<close>: the role of a service as first argument, else a \<open>role\<close> keyword
  argument, else the context; the call is made only if the check passes.
\<close>

definition require_scope ::
  "string list \<Rightarrow> bool \<Rightarrow> (unit \<Rightarrow> authz_error + 'a) \<Rightarrow> scoped_role option \<Rightarrow> scoped_role option \<Rightarrow> scoped_role option \<Rightarrow> authz_error + 'a" where
  "require_scope scopes require_all fn ctx_role self_role kw_role =
     (let method_role = (case self_role of None \<Rightarrow> kw_role | Some r \<Rightarrow> Some r)
      in sbind (check_scopes ctx_role method_role scopes require_all) fn)"

section \<open>Matching with wildcards\<close>

text \<open>Validated scopes have no other special character than the star.\<close>

definition star_pattern :: "string \<Rightarrow> bool" where
  "star_pattern p \<longleftrightarrow> CHR ''?'' \<notin> set p \<and> CHR ''['' \<notin> set p"

inductive glob :: "string \<Rightarrow> string \<Rightarrow> bool" where
  glob_Nil: "glob [] []"
| glob_char: "x \<noteq> CHR ''*'' \<Longrightarrow> glob p s \<Longrightarrow> glob (x # p) (x # s)"
| glob_skip: "glob p s \<Longrightarrow> glob (CHR ''*'' # p) s"
| glob_take: "glob (CHR ''*'' # p) s \<Longrightarrow> glob (CHR ''*'' # p) (c # s)"

inductive_simps glob_Nil_iff [simp]: "glob [] s"
inductive_cases glob_starE: "glob (CHR ''*'' # p) s"
inductive_cases glob_charE: "glob (x # p) s"

lemma glob_star_iff: "glob (CHR ''*'' # p) s \<longleftrightarrow> glob p s \<or> (\<exists>c s'. s = c # s' \<and> glob (CHR ''*'' # p) s')"
  by (auto elim: glob_starE intro: glob.intros)

lemma glob_char_iff: "x \<noteq> CHR ''*'' \<Longrightarrow> glob (x # p) s \<longleftrightarrow> (\<exists>s'. s = x # s' \<and> glob p s')"
  by (auto elim: glob_charE intro: glob.intros)

lemma validated_char: "validate_scope_string p \<Longrightarrow> c \<in> set p \<Longrightarrow> scope_char c \<or> c = CHR 0x0A"
  by (cases p rule: rev_cases) (auto simp: validate_scope_string_def list_all_iff)

lemma validated_star_pattern: "validate_scope_string p \<Longrightarrow> star_pattern p"
  using validated_char [of p "CHR ''?''"] validated_char [of p "CHR ''[''"]
  by (auto simp: star_pattern_def scope_char_def Let_def)

lemma fn_match_glob:
  assumes "star_pattern p"
  shows "fn_match p s \<longleftrightarrow> glob p s"
  using assms
proof (induction p s rule: fn_match.induct)
  case (2 x p s)
  then have p: "star_pattern p" "x \<noteq> CHR ''?''" "x \<noteq> CHR ''[''" by (auto simp: star_pattern_def)
  show ?case
  proof (cases "x = CHR ''*''")
    case star: True
    with "2.IH"(1) p have "fn_match p s \<longleftrightarrow> glob p s" by simp
    moreover have "fn_match (x # p) s' \<longleftrightarrow> glob (x # p) s'" if "s = c # s'" for c s'
      using "2.IH"(2) [OF star that] "2.prems" by simp
    ultimately show ?thesis
      unfolding star by (subst fn_match_star, subst glob_star_iff) (auto split: list.splits)
  next
    case False
    with p have "fn_match (x # p) s \<longleftrightarrow> (\<exists>s'. s = x # s' \<and> fn_match p s')" by (simp add: fn_match_char)
    also have "\<dots> \<longleftrightarrow> (\<exists>s'. s = x # s' \<and> glob p s')" using "2.IH"(6) p False by auto
    finally show ?thesis using False by (simp add: glob_char_iff)
  qed
qed simp

lemma glob_star_prefix: "glob (CHR ''*'' # p) s \<longleftrightarrow> (\<exists>x t. s = x @ t \<and> glob p t)"
proof (induction s)
  case Nil
  show ?case by (subst glob_star_iff) simp
next
  case (Cons c s)
  show ?case by (subst glob_star_iff) (auto simp: Cons Cons_eq_append_conv)
qed

text \<open>Matching composes: what a matched pattern matches is matched.\<close>

lemma glob_trans:
  assumes "glob g n" and "glob n r"
  shows "glob g r"
  using assms
proof (induction arbitrary: r rule: glob.induct)
  case (glob_char x p s)
  then show ?case by (auto simp: glob_char_iff)
next
  case (glob_skip p s)
  then show ?case by (blast intro: glob.glob_skip)
next
  case (glob_take p s c)
  show ?case
  proof (cases "c = CHR ''*''")
    case True
    with glob_take.prems obtain x t where "r = x @ t" "glob s t" by (auto simp: glob_star_prefix)
    with glob_take.IH show ?thesis by (auto simp: glob_star_prefix) (metis append.assoc)
  next
    case False
    with glob_take show ?thesis by (auto simp: glob_char_iff intro: glob.glob_take)
  qed
qed simp

text \<open>
  The reference: the pattern is cut at its stars, and the name is the pieces in order with any text in
  place of each star.
\<close>

definition fits :: "string list \<Rightarrow> string \<Rightarrow> bool" where
  "fits segs s \<longleftrightarrow> (\<exists>fill. length fill = length (tl segs) \<and> s = hd segs @ concat (map2 (@) fill (tl segs)))"

lemma fits_star:
  assumes "segs \<noteq> []"
  shows "fits ([] # segs) s \<longleftrightarrow> (\<exists>x t. s = x @ t \<and> fits segs t)"
proof -
  obtain y ys where segs: "segs = y # ys" using assms by (cases segs) auto
  show ?thesis
  proof
    assume "fits ([] # segs) s"
    then obtain fill where "length fill = Suc (length ys)" "s = concat (map2 (@) fill (y # ys))" by (auto simp: fits_def segs)
    then obtain x xs where "fill = x # xs" "length xs = length ys" by (cases fill) auto
    with \<open>s = _\<close> show "\<exists>x t. s = x @ t \<and> fits segs t" by (auto simp: fits_def segs)
  next
    assume "\<exists>x t. s = x @ t \<and> fits segs t"
    then obtain x xs where "s = x @ y @ concat (map2 (@) xs ys)" "length xs = length ys" by (auto simp: fits_def segs)
    then show "fits ([] # segs) s" unfolding fits_def segs by (intro exI [of _ "x # xs"]) simp
  qed
qed

lemma glob_fits: "glob p s \<longleftrightarrow> fits (split_on (CHR ''*'') p) s"
proof (induction p arbitrary: s)
  case Nil
  show ?case by (simp add: fits_def)
next
  case (Cons x p)
  show ?case
  proof (cases "x = CHR ''*''")
    case True
    then show ?thesis by (simp add: glob_star_prefix Cons fits_star)
  next
    case False
    then show ?thesis by (auto simp: glob_char_iff Cons fits_def split: list.splits)
  qed
qed

section \<open>What a granted scope satisfies\<close>

lemma implied_scopes_iff:
  assumes "CHR ''*'' \<notin> set g"
  shows "r \<in> set (implied_scopes g) \<longleftrightarrow> (\<exists>p. g = p @ '':update'' \<and> r = p @ '':read'')"
proof (cases "split_last (CHR '':'') g")
  case None
  have "g \<noteq> p @ '':update''" for p using None split_last_append [of "CHR '':''" "''update''" p] by auto
  with None assms show ?thesis by (simp add: implied_scopes_def)
next
  case (Some x)
  obtain q act where x: "x = (q, act)" by (cases x)
  from Some x split_last_Some have g: "g = q @ CHR '':'' # act" "CHR '':'' \<notin> set act" by auto
  have "(\<exists>p. g = p @ '':update'' \<and> r = p @ '':read'') \<longleftrightarrow> act = ''update'' \<and> r = q @ '':read''"
  proof
    assume "\<exists>p. g = p @ '':update'' \<and> r = p @ '':read''"
    then obtain p where p: "g = p @ CHR '':'' # ''update''" "r = p @ '':read''" by auto
    then have "split_last (CHR '':'') g = Some (p, ''update'')" by (simp only:) simp
    with Some x p(2) show "act = ''update'' \<and> r = q @ '':read''" by simp
  qed (use g in auto)
  with Some x assms show ?thesis by (auto simp: implied_scopes_def action_implies_def)
qed

lemma scope_matches_iff:
  assumes "validate_scope_string g"
  shows "scope_matches g r \<longleftrightarrow>
    (if CHR ''*'' \<in> set g then glob g r else r = g \<or> (\<exists>p. g = p @ '':update'' \<and> r = p @ '':read''))"
proof (cases "CHR ''*'' \<in> set g")
  case True
  have "glob ''*'' r" by (auto simp: glob_star_prefix)
  with True assms show ?thesis
    by (auto simp: scope_matches_def fnmatch_def fn_match_glob validated_star_pattern)
next
  case False
  then show ?thesis by (auto simp: scope_matches_def implied_scopes_iff)
qed

text \<open>C32: what a granted scope satisfies. A validated scope without a star satisfies itself and, if it is
  \<open>p:update\<close>, also \<open>p:read\<close>; a scope with stars satisfies exactly the names that consist of its pieces
  between the stars in order, with arbitrary text in place of each star.\<close>

theorem scope_matches_spec:
  assumes "validate_scope_string g"
  shows "scope_matches g r \<longleftrightarrow>
    (if CHR ''*'' \<in> set g then fits (split_on (CHR ''*'') g) r
     else r = g \<or> (\<exists>p. g = p @ '':update'' \<and> r = p @ '':read''))"
  using scope_matches_iff [OF assms] by (simp add: glob_fits)

theorem scope_matches_spec_witness:
  "scope_matches ''action:*:execute'' ''action:core.http:execute'' \<longleftrightarrow>
     fits [''action:'', '':execute''] ''action:core.http:execute''"
proof -
  have "validate_scope_string ''action:*:execute''" by code_simp
  from scope_matches_spec [OF this, of "''action:core.http:execute''"] show ?thesis by simp
qed

section \<open>The ceiling for grants\<close>

lemma ensure_can_grant_iff:
  "ensure_can_grant_scopes caller names = Inr () \<longleftrightarrow> (\<forall>n \<in> set names. has_scope caller n)"
proof -
  have "sort (remdups (filter P names)) = [] \<longleftrightarrow> (\<forall>n \<in> set names. \<not> P n)" for P
    by (metis filter_empty_conv remdups_eq_nil_iff set_empty set_sort)
  then show ?thesis by (simp add: ensure_can_grant_scopes_def Let_def)
qed

lemma matches_through:
  assumes "validate_scope_string g" and "validate_scope_string n" and "scope_matches g n" and "scope_matches n r"
  shows "scope_matches g r \<or>
    (\<exists>p. r = p @ '':read'' \<and> n = p @ '':update'' \<and> CHR ''*'' \<in> set g \<and> CHR ''*'' \<notin> set p)"
proof (cases "CHR ''*'' \<in> set g")
  case True
  then have g: "glob g n" using assms(1,3) by (simp add: scope_matches_iff)
  show ?thesis
  proof (cases "CHR ''*'' \<in> set n")
    case True
    with g assms(2,4) have "glob g r" by (auto simp: scope_matches_iff intro: glob_trans)
    with \<open>CHR ''*'' \<in> set g\<close> assms(1) show ?thesis by (simp add: scope_matches_iff)
  next
    case False
    with assms(2,4) True assms(3) show ?thesis by (auto simp: scope_matches_iff)
  qed
next
  case False
  with assms(1,3) consider "n = g" | p where "g = p @ '':update''" "n = p @ '':read''" by (auto simp: scope_matches_iff)
  then show ?thesis
  proof cases
    case 2
    with False have "CHR ''*'' \<notin> set n" by auto
    moreover have "n \<noteq> q @ '':update''" for q using 2 by auto
    ultimately have "r = n" using assms(2,4) by (auto simp: scope_matches_iff)
    with assms(3) show ?thesis by simp
  qed (use assms in simp)
qed

text \<open>C30: the ceiling for grants. If a grant of validated scopes passes the check, then everything the
  granted scopes satisfy is satisfied by the caller's scopes, with one exception: a read scope \<open>p:read\<close>
  may come from a granted \<open>p:update\<close> that only a wildcard of the caller covers.\<close>

theorem grant_ceiling:
  assumes "\<forall>g \<in> caller. validate_scope_string g" and "\<forall>n \<in> set names. validate_scope_string n"
    and "ensure_can_grant_scopes caller names = Inr ()" and "has_scope (set names) r"
  shows "has_scope caller r \<or>
    (\<exists>p g. r = p @ '':read'' \<and> p @ '':update'' \<in> set names \<and> g \<in> caller \<and> CHR ''*'' \<in> set g \<and> scope_matches g (p @ '':update''))"
proof -
  from assms(4) obtain n where n: "n \<in> set names" "scope_matches n r" by (auto simp: has_scope_def)
  with assms(3) obtain g where g: "g \<in> caller" "scope_matches g n" by (auto simp: ensure_can_grant_iff has_scope_def)
  from matches_through [OF _ _ g(2) n(2)] n g assms(1,2) show ?thesis by (auto simp: has_scope_def)
qed

theorem grant_ceiling_witness:
  "has_scope {''workflow:*''} ''workflow:run''"
proof -
  have "\<forall>g \<in> {''workflow:*''}. validate_scope_string g" "\<forall>n \<in> set [''workflow:r*'']. validate_scope_string n"
    "ensure_can_grant_scopes {''workflow:*''} [''workflow:r*''] = Inr ()" "has_scope (set [''workflow:r*'']) ''workflow:run''"
    by code_simp+
  note ceiling = grant_ceiling [OF this]
  have "\<not> ends_with '':read'' ''workflow:run''" by code_simp
  then have "''workflow:run'' \<noteq> p @ '':read''" for p unfolding ends_with_iff by blast
  with ceiling show ?thesis by blast
qed

text \<open>C33: exactly which grants exceed the caller. A grant of validated scopes that passes the check lets
  the grantee satisfy something the caller does not satisfy if and only if it contains a star-free
  \<open>p:update\<close> for which the caller does not satisfy \<open>p:read\<close>, the read scope that the matcher derives
  from it.\<close>

theorem grant_exceeds_caller_iff:
  assumes "\<forall>g \<in> caller. validate_scope_string g" and "\<forall>n \<in> set names. validate_scope_string n"
    and "ensure_can_grant_scopes caller names = Inr ()"
  shows "(\<exists>r. has_scope (set names) r \<and> \<not> has_scope caller r) \<longleftrightarrow>
    (\<exists>p. p @ '':update'' \<in> set names \<and> CHR ''*'' \<notin> set p \<and> \<not> has_scope caller (p @ '':read''))"
proof
  assume "\<exists>r. has_scope (set names) r \<and> \<not> has_scope caller r"
  then obtain r n where r: "\<not> has_scope caller r" and n: "n \<in> set names" "scope_matches n r"
    by (auto simp: has_scope_def)
  with assms(3) obtain g where g: "g \<in> caller" "scope_matches g n" by (auto simp: ensure_can_grant_iff has_scope_def)
  with r have "\<not> scope_matches g r" by (auto simp: has_scope_def)
  with matches_through [OF _ _ g(2) n(2)] n g assms(1,2) r
  show "\<exists>p. p @ '':update'' \<in> set names \<and> CHR ''*'' \<notin> set p \<and> \<not> has_scope caller (p @ '':read'')" by blast
next
  assume "\<exists>p. p @ '':update'' \<in> set names \<and> CHR ''*'' \<notin> set p \<and> \<not> has_scope caller (p @ '':read'')"
  then obtain p where p: "p @ '':update'' \<in> set names" "CHR ''*'' \<notin> set p" "\<not> has_scope caller (p @ '':read'')" by blast
  with assms(2) have "scope_matches (p @ '':update'') (p @ '':read'')" by (simp add: scope_matches_iff)
  with p show "\<exists>r. has_scope (set names) r \<and> \<not> has_scope caller r" unfolding has_scope_def by blast
qed

theorem grant_exceeds_caller_iff_witness:
  "ensure_can_grant_scopes {''*:update''} [''workflow:update''] = Inr () \<and>
   (\<exists>r. has_scope (set [''workflow:update'']) r \<and> \<not> has_scope {''*:update''} r)"
proof -
  have grant: "ensure_can_grant_scopes {''*:update''} [''workflow:update''] = Inr ()" by code_simp
  have "\<forall>g \<in> {''*:update''}. validate_scope_string g" "\<forall>n \<in> set [''workflow:update'']. validate_scope_string n"
    by code_simp+
  note iff = grant_exceeds_caller_iff [OF this grant]
  have "\<not> has_scope {''*:update''} (''workflow'' @ '':read'')" "CHR ''*'' \<notin> set ''workflow''" by code_simp+
  moreover have "''workflow'' @ '':update'' \<in> set [''workflow:update'']" by simp
  ultimately have "\<exists>r. has_scope (set [''workflow:update'']) r \<and> \<not> has_scope {''*:update''} r" unfolding iff by blast
  with grant show ?thesis ..
qed

section \<open>Enforcement is exact\<close>

text \<open>Enforcement. A check with at least one required scope passes exactly when a role is known, its
  scopes are resolved, and they contain the global star or satisfy all (or, for an alternative check,
  some) required scopes; otherwise it names as missing exactly the unsatisfied scopes (all required
  ones when there is no role or an alternative check fails).\<close>

theorem check_scopes_exact:
  assumes "scopes \<noteq> []"
  shows "check_scopes ctx_role role scopes require_all =
    (let user = (case role of None \<Rightarrow> ctx_role | Some r \<Rightarrow> Some r); S = (case user of Some (Some S) \<Rightarrow> S | _ \<Rightarrow> {});
         ok = (if require_all then has_all_scopes S (set scopes) else has_any_scope S (set scopes))
     in if ok then Inr ()
        else Inl (ScopeDeniedError (set scopes) (if require_all then get_missing_scopes S (set scopes) else set scopes)))"
proof -
  have star: "has_scope S r" if "''*'' \<in> S" for S r
    using that by (auto simp: has_scope_def scope_matches_def)
  show ?thesis
    using assms star
    by (cases role; cases ctx_role)
      (auto simp: check_scopes_def Let_def has_all_scopes_def has_any_scope_def get_missing_scopes_def has_scope_def [of "{}"]
        split: option.splits)
qed

theorem check_scopes_exact_witness:
  "check_scopes None (Some (Some {''case:update''})) [''case:read'', ''case:delete''] True =
     Inl (ScopeDeniedError {''case:read'', ''case:delete''} {''case:delete''})"
proof -
  have "\<not> has_all_scopes {''case:update''} {''case:read'', ''case:delete''}"
    "get_missing_scopes {''case:update''} {''case:read'', ''case:delete''} = {''case:delete''}" by code_simp+
  with check_scopes_exact [of "[''case:read'', ''case:delete'']" None "Some (Some {''case:update''})" True] show ?thesis
    by simp
qed

end
