(* ===== verification/Authz_Roles.thy ===== *)
theory Authz_Roles
  imports Authz_Scopes
begin

text \<open>
  The preset roles and service principals (\<open>tracecat/authz/scopes.py\<close>): their scope sets as the
  source lists them, the backfill of roles serialised before the scopes existed, and what the sets
  give together with the checks: the workspace and organisation roles are nested, and the ceiling for
  grants is exact for every preset role.
\<close>

section \<open>Scope sets\<close>

definition VIEWER_SCOPES :: "string set" where
  "VIEWER_SCOPES = set
     [''inbox:read'', ''workflow:read'', ''integration:read'', ''case:read'', ''table:read'',
      ''schedule:read'', ''agent:read'', ''secret:read'', ''tag:read'', ''variable:read'',
      ''workspace:read'', ''workspace:member:read'']"

definition EDITOR_SCOPES :: "string set" where
  "EDITOR_SCOPES = VIEWER_SCOPES \<union> set
     [''workflow:sync'', ''workspace_sync:sync'', ''workflow:create'', ''workflow:update'',
      ''workflow:execute'', ''workflow:terminate'', ''integration:create'', ''integration:update'',
      ''case:create'', ''case:update'', ''table:create'', ''table:update'', ''schedule:create'',
      ''schedule:update'', ''agent:create'', ''agent:update'', ''agent:execute'', ''secret:create'',
      ''secret:update'', ''tag:create'', ''tag:update'', ''variable:create'', ''variable:update'',
      ''action:*:execute'']"

definition ADMIN_SCOPES :: "string set" where
  "ADMIN_SCOPES = EDITOR_SCOPES \<union> set
     [''workflow:delete'', ''case:delete'', ''table:delete'', ''schedule:delete'', ''secret:delete'',
      ''tag:delete'', ''variable:delete'', ''agent:delete'', ''integration:delete'', ''workspace:update'',
      ''workspace:delete'', ''workspace:member:invite'', ''workspace:member:remove'',
      ''workspace:member:update'', ''workspace:rbac:read'', ''workspace:rbac:manage'',
      ''workspace:service_account:read'', ''workspace:service_account:create'',
      ''workspace:service_account:update'', ''workspace:service_account:disable'', ''action:*:execute'']"

definition ORG_OWNER_SCOPES :: "string set" where
  "ORG_OWNER_SCOPES = set
     [''org:read'', ''org:update'', ''org:delete'', ''org:member:read'', ''org:member:invite'',
      ''org:member:remove'', ''org:member:update'', ''org:billing:read'', ''org:billing:update'',
      ''org:owner:assign'', ''org:rbac:read'', ''org:rbac:create'', ''org:rbac:update'',
      ''org:rbac:delete'', ''org:service_account:read'', ''org:service_account:create'',
      ''org:service_account:update'', ''org:service_account:disable'', ''org:settings:read'',
      ''org:settings:update'', ''org:settings:delete'', ''org:registry:read'', ''org:registry:create'',
      ''org:registry:update'', ''org:registry:delete'', ''org:workspace:read'', ''workspace:read'',
      ''workspace:create'', ''workspace:update'', ''workspace:delete'', ''workspace:member:read'',
      ''workspace:member:invite'', ''workspace:member:remove'', ''workspace:member:update'',
      ''workspace:rbac:read'', ''workspace:rbac:manage'', ''workspace:service_account:read'',
      ''workspace:service_account:create'', ''workspace:service_account:update'',
      ''workspace:service_account:disable'', ''inbox:read'', ''workflow:read'', ''workflow:sync'',
      ''workspace_sync:sync'', ''workflow:create'', ''workflow:update'', ''workflow:delete'',
      ''workflow:execute'', ''workflow:terminate'', ''integration:read'', ''integration:create'',
      ''integration:update'', ''integration:delete'', ''case:read'', ''case:create'', ''case:update'',
      ''case:delete'', ''table:read'', ''table:create'', ''table:update'', ''table:delete'', ''tag:read'',
      ''tag:create'', ''tag:update'', ''tag:delete'', ''variable:read'', ''variable:create'',
      ''variable:update'', ''variable:delete'', ''schedule:read'', ''schedule:create'',
      ''schedule:update'', ''schedule:delete'', ''agent:read'', ''agent:create'', ''agent:update'',
      ''agent:delete'', ''agent:execute'', ''secret:read'', ''secret:create'', ''secret:update'',
      ''secret:delete'', ''org:secret:read'', ''org:secret:create'', ''org:secret:update'',
      ''org:secret:delete'', ''action:*:execute'']"

definition ORG_ADMIN_SCOPES :: "string set" where
  "ORG_ADMIN_SCOPES = set
     [''org:read'', ''org:update'', ''org:member:read'', ''org:member:invite'', ''org:member:remove'',
      ''org:member:update'', ''org:billing:read'', ''org:rbac:read'', ''org:rbac:create'',
      ''org:rbac:update'', ''org:rbac:delete'', ''org:service_account:read'',
      ''org:service_account:create'', ''org:service_account:update'', ''org:service_account:disable'',
      ''org:settings:read'', ''org:settings:update'', ''org:settings:delete'', ''org:registry:read'',
      ''org:registry:create'', ''org:registry:update'', ''org:registry:delete'', ''org:workspace:read'',
      ''workspace:read'', ''workspace:create'', ''workspace:update'', ''workspace:delete'',
      ''workspace:member:read'', ''workspace:member:invite'', ''workspace:member:remove'',
      ''workspace:member:update'', ''workspace:rbac:read'', ''workspace:rbac:manage'',
      ''workspace:service_account:read'', ''workspace:service_account:create'',
      ''workspace:service_account:update'', ''workspace:service_account:disable'', ''inbox:read'',
      ''workflow:read'', ''workflow:sync'', ''workspace_sync:sync'', ''workflow:create'',
      ''workflow:update'', ''workflow:delete'', ''workflow:execute'', ''workflow:terminate'',
      ''integration:read'', ''integration:create'', ''integration:update'', ''integration:delete'',
      ''case:read'', ''case:create'', ''case:update'', ''case:delete'', ''table:read'', ''table:create'',
      ''table:update'', ''table:delete'', ''tag:read'', ''tag:create'', ''tag:update'', ''tag:delete'',
      ''variable:read'', ''variable:create'', ''variable:update'', ''variable:delete'', ''schedule:read'',
      ''schedule:create'', ''schedule:update'', ''schedule:delete'', ''agent:read'', ''agent:create'',
      ''agent:update'', ''agent:delete'', ''agent:execute'', ''secret:read'', ''secret:create'',
      ''secret:update'', ''secret:delete'', ''org:secret:read'', ''org:secret:create'',
      ''org:secret:update'', ''org:secret:delete'', ''action:*:execute'']"

definition ORG_MEMBER_SCOPES :: "string set" where
  "ORG_MEMBER_SCOPES = set
     [''org:read'', ''org:member:read'', ''org:registry:read'', ''agent:read'', ''agent:execute'',
      ''org:secret:read'']"

definition WORKSPACE_OPERATIONAL_SCOPES :: "string set" where
  "WORKSPACE_OPERATIONAL_SCOPES = set
     [''inbox:read'', ''workflow:read'', ''workflow:sync'', ''workspace_sync:sync'', ''workflow:create'',
      ''workflow:update'', ''workflow:delete'', ''workflow:execute'', ''workflow:terminate'',
      ''integration:read'', ''integration:create'', ''integration:update'', ''integration:delete'',
      ''case:read'', ''case:create'', ''case:update'', ''case:delete'', ''table:read'', ''table:create'',
      ''table:update'', ''table:delete'', ''variable:read'', ''variable:create'', ''variable:update'',
      ''variable:delete'', ''secret:read'', ''secret:create'', ''secret:update'', ''secret:delete'',
      ''agent:read'', ''agent:create'', ''agent:update'', ''agent:delete'', ''agent:execute'',
      ''schedule:read'', ''schedule:create'', ''schedule:update'', ''schedule:delete'', ''tag:read'',
      ''tag:create'', ''tag:update'', ''tag:delete'', ''workspace:read'', ''workspace:create'',
      ''workspace:delete'', ''workspace:member:read'', ''deduplicate:create'', ''action:*:execute'',
      ''org:secret:read'']"

definition PRESET_ROLE_SCOPES :: "(string, string set) dict" where
  "PRESET_ROLE_SCOPES =
     [(''workspace-viewer'', VIEWER_SCOPES), (''workspace-editor'', EDITOR_SCOPES), (''workspace-admin'', ADMIN_SCOPES),
      (''organization-owner'', ORG_OWNER_SCOPES), (''organization-admin'', ORG_ADMIN_SCOPES),
      (''organization-member'', ORG_MEMBER_SCOPES)]"

definition internal_service_ids :: "string list" where
  "internal_service_ids =
     [''tracecat-api'', ''tracecat-bootstrap'', ''tracecat-cli'', ''tracecat-executor'', ''tracecat-agent-executor'',
      ''tracecat-case-duration-sync'', ''tracecat-case-triggers'', ''tracecat-llm-gateway'', ''tracecat-mcp'',
      ''tracecat-runner'', ''tracecat-schedule-runner'', ''tracecat-service'', ''tracecat-ui'']"

definition SERVICE_PRINCIPAL_SCOPES :: "(string, string set) dict" where
  "SERVICE_PRINCIPAL_SCOPES = map (\<lambda>service_id. (service_id, WORKSPACE_OPERATIONAL_SCOPES)) internal_service_ids"

section \<open>Legacy roles\<close>

datatype org_role = OrgMember | OrgAdmin | OrgOwner

datatype workspace_role = WorkspaceViewer | WorkspaceEditor | WorkspaceAdmin

text \<open>\<open>Role\<close>, with the fields that only roles from before the migration carry as extras.\<close>

record role =
  r_type :: string
  service_id :: string
  r_scopes :: "string set option"
  legacy_org_role :: "org_role option"
  legacy_workspace_role :: "workspace_role option"

definition LEGACY_ORG_ROLE_TO_PRESET_SLUG :: "org_role \<Rightarrow> string option" where
  "LEGACY_ORG_ROLE_TO_PRESET_SLUG r =
     (case r of OrgOwner \<Rightarrow> Some ''organization-owner'' | OrgAdmin \<Rightarrow> Some ''organization-admin''
        | OrgMember \<Rightarrow> Some ''organization-member'')"

definition LEGACY_WORKSPACE_ROLE_TO_PRESET_SLUG :: "workspace_role \<Rightarrow> string option" where
  "LEGACY_WORKSPACE_ROLE_TO_PRESET_SLUG r =
     (case r of WorkspaceAdmin \<Rightarrow> Some ''workspace-admin'' | WorkspaceEditor \<Rightarrow> Some ''workspace-editor''
        | WorkspaceViewer \<Rightarrow> Some ''workspace-viewer'')"

text \<open>The scopes of a legacy role, if it has one; the preset table has every slug above.\<close>

definition preset_scopes :: "string option \<Rightarrow> string set" where
  "preset_scopes slug = (case slug of None \<Rightarrow> {} | Some s \<Rightarrow> get_default {} PRESET_ROLE_SCOPES s)"

definition backfill_legacy_role_scopes :: "role \<Rightarrow> role" where
  "backfill_legacy_role_scopes role =
     (if (case r_scopes role of None \<Rightarrow> False | Some S \<Rightarrow> S \<noteq> {}) then role
      else
        let scopes =
          (if r_type role = ''service'' \<and> service_id role \<noteq> []
           then get_default {} SERVICE_PRINCIPAL_SCOPES (service_id role)
           else if r_type role = ''user'' then
             (case legacy_org_role role of None \<Rightarrow> {} | Some r \<Rightarrow> preset_scopes (LEGACY_ORG_ROLE_TO_PRESET_SLUG r)) \<union>
             (case legacy_workspace_role role of None \<Rightarrow> {} | Some r \<Rightarrow> preset_scopes (LEGACY_WORKSPACE_ROLE_TO_PRESET_SLUG r))
           else {})
        in if scopes = {} then role else role\<lparr>r_scopes := Some scopes\<rparr>)"

section \<open>Properties\<close>

lemma viewer_in_editor: "VIEWER_SCOPES \<subseteq> EDITOR_SCOPES"
  unfolding EDITOR_SCOPES_def by (rule Un_upper1)

lemma editor_in_admin: "EDITOR_SCOPES \<subseteq> ADMIN_SCOPES"
  unfolding ADMIN_SCOPES_def by (rule Un_upper1)

lemma admin_in_org_admin: "ADMIN_SCOPES \<subseteq> ORG_ADMIN_SCOPES"
  unfolding ADMIN_SCOPES_def EDITOR_SCOPES_def VIEWER_SCOPES_def ORG_ADMIN_SCOPES_def by simp

lemma org_admin_in_owner: "ORG_ADMIN_SCOPES \<subseteq> ORG_OWNER_SCOPES"
  unfolding ORG_ADMIN_SCOPES_def ORG_OWNER_SCOPES_def by simp

lemma org_member_in_admin: "ORG_MEMBER_SCOPES \<subseteq> ORG_ADMIN_SCOPES"
  unfolding ORG_MEMBER_SCOPES_def ORG_ADMIN_SCOPES_def by simp

lemmas preset_nested = viewer_in_editor editor_in_admin admin_in_org_admin org_admin_in_owner org_member_in_admin

lemma owner_scopes_valid: "\<forall>g \<in> ORG_OWNER_SCOPES. validate_scope_string g \<and> (CHR ''*'' \<in> set g \<longrightarrow> g = ''action:*:execute'')"
  by code_simp

lemma preset_in_owner: "(slug, S) \<in> set PRESET_ROLE_SCOPES \<Longrightarrow> S \<subseteq> ORG_OWNER_SCOPES"
  using preset_nested unfolding PRESET_ROLE_SCOPES_def by auto

lemma glob_suffix:
  assumes "glob (p @ t) s" and "CHR ''*'' \<notin> set t"
  shows "\<exists>x. s = x @ t"
  using assms(1)
proof (induction p arbitrary: s)
  case Nil
  have "s = t" using Nil assms(2) by (induction t arbitrary: s) (auto simp: glob_char_iff)
  then show ?case by simp
next
  case (Cons x p)
  show ?case
  proof (cases "x = CHR ''*''")
    case True
    with Cons obtain y s' where "s = y @ s'" "glob (p @ t) s'" by (auto simp: glob_star_prefix)
    with Cons.IH show ?thesis by (metis append.assoc)
  next
    case False
    with Cons obtain s' where "s = x # s'" "glob (p @ t) s'" by (auto simp: glob_char_iff)
    with Cons.IH show ?thesis by (metis append_Cons)
  qed
qed

lemma execute_wildcard_no_update: "\<not> scope_matches ''action:*:execute'' (p @ '':update'')"
proof
  assume m: "scope_matches ''action:*:execute'' (p @ '':update'')"
  have "validate_scope_string ''action:*:execute''" by code_simp
  with m have "glob (''action:*'' @ '':execute'') (p @ '':update'')" by (simp add: scope_matches_iff)
  then obtain x where "p @ '':update'' = x @ '':execute''" using glob_suffix by fastforce
  then have "rev (p @ '':update'') = rev (x @ '':execute'')" by (rule arg_cong)
  then show False by simp
qed

text \<open>C31: the preset roles. Viewer, editor and admin of a workspace, then admin and owner of the
  organisation, hold ever larger scope sets, so whatever one satisfies the next satisfies; and for every
  preset role the ceiling is exact: a grant of validated scopes that the check lets a holder make never
  satisfies a scope that the holder does not satisfy.\<close>

theorem preset_roles_safe:
  "VIEWER_SCOPES \<subseteq> EDITOR_SCOPES \<and> EDITOR_SCOPES \<subseteq> ADMIN_SCOPES \<and> ADMIN_SCOPES \<subseteq> ORG_ADMIN_SCOPES \<and>
   ORG_ADMIN_SCOPES \<subseteq> ORG_OWNER_SCOPES \<and>
   (\<forall>slug S names r. (slug, S) \<in> set PRESET_ROLE_SCOPES \<longrightarrow> (\<forall>n \<in> set names. validate_scope_string n) \<longrightarrow>
      ensure_can_grant_scopes S names = Inr () \<longrightarrow> has_scope (set names) r \<longrightarrow> has_scope S r)"
proof -
  have "has_scope S r" if S: "(slug, S) \<in> set PRESET_ROLE_SCOPES" and names: "\<forall>n \<in> set names. validate_scope_string n"
    and ok: "ensure_can_grant_scopes S names = Inr ()" "has_scope (set names) r" for slug S names r
  proof -
    note sub = preset_in_owner [OF S]
    from ok(2) obtain n where n: "n \<in> set names" "scope_matches n r" by (auto simp: has_scope_def)
    with ok(1) obtain g where g: "g \<in> S" "scope_matches g n" by (auto simp: ensure_can_grant_iff has_scope_def)
    with sub owner_scopes_valid have v: "validate_scope_string g" "CHR ''*'' \<in> set g \<longrightarrow> g = ''action:*:execute''" by blast+
    have "n \<noteq> p @ '':update''" if "CHR ''*'' \<in> set g" for p
      using that v(2) g(2) execute_wildcard_no_update by blast
    with matches_through [OF v(1) _ g(2) n(2)] names n(1) have "scope_matches g r" by blast
    with g(1) show ?thesis by (auto simp: has_scope_def)
  qed
  with preset_nested show ?thesis by blast
qed

theorem preset_roles_safe_witness:
  "has_scope EDITOR_SCOPES ''workflow:read''"
proof -
  have "''workflow:update'' \<in> EDITOR_SCOPES" by (simp add: EDITOR_SCOPES_def)
  then have "ensure_can_grant_scopes EDITOR_SCOPES [''workflow:update''] = Inr ()"
    by (auto simp: ensure_can_grant_iff has_scope_def scope_matches_def)
  moreover have "validate_scope_string ''workflow:update''" "has_scope (set [''workflow:update'']) ''workflow:read''" by code_simp+
  moreover have "(''workspace-editor'', EDITOR_SCOPES) \<in> set PRESET_ROLE_SCOPES" by (simp add: PRESET_ROLE_SCOPES_def)
  ultimately show ?thesis using preset_roles_safe by (metis empty_iff list.set(1) list.set(2) singletonD)
qed

text \<open>Backfilling keeps the scopes a role has, and a second backfill changes nothing.\<close>

lemma backfill_idempotent: "backfill_legacy_role_scopes (backfill_legacy_role_scopes role) = backfill_legacy_role_scopes role"
  by (auto simp: backfill_legacy_role_scopes_def Let_def split: if_splits)

lemma backfill_keeps_scopes: "r_scopes role = Some S \<Longrightarrow> S \<noteq> {} \<Longrightarrow> backfill_legacy_role_scopes role = role"
  by (simp add: backfill_legacy_role_scopes_def)

end
