(* ===== verification/Storage_Blob.thy ===== *)
theory Storage_Blob
  imports Dsl_Values "HOL-Library.Monad_Syntax"
begin

text \<open>
  The lower half of object storage: which storage errors are worth a retry, the retry loop, the
  byte-aware memory cache and the cached download (\<open>tracecat/storage/utils.py\<close>), with the
  uploads, downloads and bucket checks they call (\<open>tracecat/storage/blob.py\<close>). S3, the
  \<open>TTLCache\<close> of cachetools, orjson and SHA-256 are not part of the repository: they are the fields
  of \<open>storage_env\<close>, over a world whose evolution (time, evictions, faults) they decide, and the
  locale \<open>blob_world\<close> states the behaviour the code relies on.
\<close>

section \<open>Computations on the world\<close>

text \<open>
  An exception object links to its cause, its context and, for a group, its members; objects are
  named by their identity in a heap. A fault is a raised exception with that heap.
\<close>

record exc_node =
  is_http_client_error :: bool
  exceptions :: "nat list"
  cause :: "nat option"
  context_exc :: "nat option"

record fault =
  raised :: exn
  fault_code :: "string option"
  exc_heap :: "(nat, exc_node) dict"
  exc_root :: nat

definition plain_fault :: "exn \<Rightarrow> fault" where
  "plain_fault e =
     \<lparr>raised = e, fault_code = None,
      exc_heap = [(0, \<lparr>is_http_client_error = False, exceptions = [], cause = None, context_exc = None\<rparr>)],
      exc_root = 0\<rparr>"

text \<open>\<open>raise e from f\<close> inside the handler of \<open>f\<close>.\<close>

definition raise_from :: "exn \<Rightarrow> fault \<Rightarrow> fault" where
  "raise_from e f =
     (let i = Suc (foldr max (map fst (exc_heap f)) 0)
      in \<lparr>raised = e, fault_code = None,
          exc_heap = (i, \<lparr>is_http_client_error = False, exceptions = [], cause = Some (exc_root f),
                          context_exc = Some (exc_root f)\<rparr>) # exc_heap f,
          exc_root = i\<rparr>)"

type_synonym ('w, 'a) io = "'w \<Rightarrow> (fault + 'a) \<times> 'w"

definition io_return :: "'a \<Rightarrow> ('w, 'a) io" where
  "io_return a = (\<lambda>w. (Inr a, w))"

definition io_raise :: "exn \<Rightarrow> ('w, 'a) io" where
  "io_raise e = (\<lambda>w. (Inl (plain_fault e), w))"

definition io_bind :: "('w, 'a) io \<Rightarrow> ('a \<Rightarrow> ('w, 'b) io) \<Rightarrow> ('w, 'b) io" where
  "io_bind m f = (\<lambda>w. case m w of (Inl e, w') \<Rightarrow> (Inl e, w') | (Inr a, w') \<Rightarrow> f a w')"

definition io_lift :: "exn + 'a \<Rightarrow> ('w, 'a) io" where
  "io_lift r = (case r of Inl e \<Rightarrow> io_raise e | Inr a \<Rightarrow> io_return a)"

text \<open>A \<open>for\<close> loop that collects the results of its awaited calls.\<close>

fun io_map :: "('a \<Rightarrow> ('w, 'b) io) \<Rightarrow> 'a list \<Rightarrow> ('w, 'b list) io" where
  "io_map f [] = io_return []"
| "io_map f (x # xs) = io_bind (f x) (\<lambda>y. io_bind (io_map f xs) (\<lambda>ys. io_return (y # ys)))"

named_theorems io_simps \<open>evaluation of world computations\<close>

lemma io_return_apply [io_simps]: "io_return a w = (Inr a, w)"
  by (simp add: io_return_def)

lemma io_raise_apply [io_simps]: "io_raise e w = (Inl (plain_fault e), w)"
  by (simp add: io_raise_def)

lemma io_lift_simps [simp]: "io_lift (Inr a) = io_return a" "io_lift (Inl e) = io_raise e"
  by (simp_all add: io_lift_def)

lemma io_bind_return [simp]: "io_bind (io_return a) f = f a"
  by (simp add: io_bind_def io_return_def fun_eq_iff)

lemma io_bind_assoc: "io_bind (io_bind m f) g = io_bind m (\<lambda>a. io_bind (f a) g)"
  by (auto simp: io_bind_def fun_eq_iff split: prod.split sum.split)

lemma io_bind_Inr: "m w = (Inr a, w') \<Longrightarrow> io_bind m f w = f a w'"
  by (simp add: io_bind_def)

lemma io_bind_Inl: "m w = (Inl e, w') \<Longrightarrow> io_bind m f w = (Inl e, w')"
  by (simp add: io_bind_def)

lemma io_bind_eq_Inr:
  "io_bind m f w = (Inr b, w'') \<longleftrightarrow> (\<exists>a w'. m w = (Inr a, w') \<and> f a w' = (Inr b, w''))"
  by (auto simp: io_bind_def split: prod.splits sum.splits)

lemma io_return_eq_Inr: "io_return a w = (Inr b, w') \<longleftrightarrow> b = a \<and> w' = w"
  by (auto simp: io_simps)

lemma io_lift_eq_Inr: "io_lift r w = (Inr a, w') \<longleftrightarrow> r = Inr a \<and> w' = w"
  by (cases r) (auto simp: io_simps)

lemma io_map_snoc: "io_map f (xs @ [x]) = io_bind (io_map f xs) (\<lambda>ys. io_bind (f x) (\<lambda>y. io_return (ys @ [y])))"
  by (induction xs) (simp_all add: io_bind_assoc)

section \<open>Which errors are retried\<close>

text \<open>
  The stack is written with its top first: after \<open>stack.extend(exceptions)\<close> and the two appends the
  context is on top, then the cause, then the group's members from the last one on.
\<close>

lemma unseen_less:
  "i \<notin> seen \<Longrightarrow> dict_get h i = Some nd \<Longrightarrow>
     card (fst ` set h - insert i seen) < card (fst ` set h - seen)"
  using dict_get_in_keys [of h i nd] by (intro psubset_card_mono) auto

lemma unseen_same: "dict_get h i = None \<Longrightarrow> fst ` set h - insert i seen = fst ` set h - seen"
  by (auto simp: map_of_eq_None_iff)

function transport_walk :: "(nat, exc_node) dict \<Rightarrow> nat option list \<Rightarrow> nat set \<Rightarrow> bool" where
  "transport_walk h [] seen = False"
| "transport_walk h (None # stack) seen = transport_walk h stack seen"
| "transport_walk h (Some i # stack) seen =
     (if i \<in> seen then transport_walk h stack seen
      else case dict_get h i of
             None \<Rightarrow> transport_walk h stack (insert i seen)
           | Some nd \<Rightarrow>
               if is_http_client_error nd then True
               else transport_walk h
                      (context_exc nd # cause nd # rev (map Some (exceptions nd)) @ stack) (insert i seen))"
  by pat_completeness auto
termination
proof (relation "measures [\<lambda>(h, stack, seen). card (set (dict_keys h) - seen), \<lambda>(h, stack, seen). length stack]")
  show "((h, stack, insert i seen), h, Some i # stack, seen)
      \<in> measures [\<lambda>(h, stack, seen). card (set (dict_keys h) - seen), \<lambda>(h, stack, seen). length stack]"
    if "dict_get h i = None" for h :: "(nat, exc_node) dict" and stack i seen
    using unseen_same [OF that] by simp
qed (simp_all add: unseen_less)

lemmas [simp del] = transport_walk.simps

definition is_retryable_storage_transport_error :: "fault \<Rightarrow> bool" where
  "is_retryable_storage_transport_error f = transport_walk (exc_heap f) [Some (exc_root f)] {}"

text \<open>The links of the exception objects.\<close>

definition exc_links :: "(nat, exc_node) dict \<Rightarrow> (nat \<times> nat) set" where
  "exc_links h = {(i, j). \<exists>nd. dict_get h i = Some nd \<and>
     (j \<in> set (exceptions nd) \<or> cause nd = Some j \<or> context_exc nd = Some j)}"

definition http_node :: "(nat, exc_node) dict \<Rightarrow> nat \<Rightarrow> bool" where
  "http_node h i = (case dict_get h i of None \<Rightarrow> False | Some nd \<Rightarrow> is_http_client_error nd)"

definition walk_inv :: "(nat, exc_node) dict \<Rightarrow> nat option list \<Rightarrow> nat set \<Rightarrow> bool" where
  "walk_inv h stack seen \<longleftrightarrow>
     (\<forall>i \<in> seen. \<not> http_node h i \<and> exc_links h `` {i} \<subseteq> seen \<union> {j. Some j \<in> set stack})"

lemma walk_inv_escapes:
  assumes "walk_inv h stack seen" and "(i, j) \<in> (exc_links h)\<^sup>*" and "http_node h j"
    and "i \<in> seen \<or> Some i \<in> set stack"
  shows "\<exists>k. Some k \<in> set stack \<and> k \<notin> seen \<and> (k, j) \<in> (exc_links h)\<^sup>*"
  using assms(2,4)
proof (induction rule: converse_rtrancl_induct)
  case base
  with assms(1,3) show ?case by (auto simp: walk_inv_def)
next
  case (step i k)
  show ?case
  proof (cases "i \<in> seen")
    case True
    with assms(1) step.hyps(1) have "k \<in> seen \<or> Some k \<in> set stack" by (auto simp: walk_inv_def)
    then show ?thesis by (rule step.IH)
  next
    case False
    with step.prems step.hyps show ?thesis by (meson converse_rtrancl_into_rtrancl)
  qed
qed

lemma walk_push:
  assumes inv: "walk_inv h stack' (insert i seen)"
    and stack': "{j. Some j \<in> set stack'} = exc_links h `` {i} \<union> {j. Some j \<in> set stack}"
  shows "(\<exists>a j. Some a \<in> set stack' \<and> (a, j) \<in> (exc_links h)\<^sup>* \<and> http_node h j) \<longleftrightarrow>
     (\<exists>a j. Some a \<in> set (Some i # stack) \<and> (a, j) \<in> (exc_links h)\<^sup>* \<and> http_node h j)" (is "?L = ?R")
proof
  assume ?L
  then obtain a j where a: "Some a \<in> set stack'" "(a, j) \<in> (exc_links h)\<^sup>*" "http_node h j" by blast
  with stack' have "(i, a) \<in> exc_links h \<or> Some a \<in> set stack" by blast
  with a show ?R by (auto intro: converse_rtrancl_into_rtrancl)
next
  assume ?R
  then obtain a j where a: "Some a \<in> set (Some i # stack)" "(a, j) \<in> (exc_links h)\<^sup>*" "http_node h j"
    by blast
  with stack' have "a \<in> insert i seen \<or> Some a \<in> set stack'" by auto
  with walk_inv_escapes [OF inv a(2,3)] a show ?L by blast
qed

lemma walk_dead_end:
  "dict_get h i = None \<Longrightarrow> (i, j) \<in> (exc_links h)\<^sup>* \<Longrightarrow> \<not> http_node h j"
  by (erule converse_rtranclE) (simp_all add: exc_links_def http_node_def)

lemma transport_walk_spec:
  assumes "walk_inv h stack seen"
  shows "transport_walk h stack seen \<longleftrightarrow>
     (\<exists>i j. Some i \<in> set stack \<and> (i, j) \<in> (exc_links h)\<^sup>* \<and> http_node h j)"
  using assms
proof (induction h stack seen rule: transport_walk.induct)
  case (1 h seen)
  then show ?case by (simp add: transport_walk.simps)
next
  case (2 h stack seen)
  then show ?case by (simp add: transport_walk.simps walk_inv_def)
next
  case (3 h i stack seen)
  consider "i \<in> seen" | "i \<notin> seen" "dict_get h i = None"
    | nd where "i \<notin> seen" "dict_get h i = Some nd" "is_http_client_error nd"
    | nd where "i \<notin> seen" "dict_get h i = Some nd" "\<not> is_http_client_error nd"
    by fastforce
  then show ?case
  proof cases
    case 1
    then have inv: "walk_inv h stack seen" using "3.prems" by (auto simp: walk_inv_def)
    from walk_inv_escapes [OF inv, of i] 1
    have "(\<exists>a j. Some a \<in> set (Some i # stack) \<and> (a, j) \<in> (exc_links h)\<^sup>* \<and> http_node h j) \<longleftrightarrow>
          (\<exists>a j. Some a \<in> set stack \<and> (a, j) \<in> (exc_links h)\<^sup>* \<and> http_node h j)"
      by auto
    with "3.IH"(1) [OF 1 inv] 1 show ?thesis by (simp add: transport_walk.simps)
  next
    case 2
    have inv: "walk_inv h stack (insert i seen)"
      using "3.prems" 2 by (auto simp: walk_inv_def http_node_def exc_links_def)
    with "3.IH"(2) [OF 2 inv] 2 walk_dead_end [OF 2(2)] show ?thesis
      by (auto simp: transport_walk.simps)
  next
    case 3
    then have "http_node h i" by (simp add: http_node_def)
    with 3 show ?thesis by (auto simp: transport_walk.simps intro!: exI [of _ i])
  next
    case 4
    let ?stack = "context_exc nd # cause nd # rev (map Some (exceptions nd)) @ stack"
    have links: "{j. Some j \<in> set ?stack} = exc_links h `` {i} \<union> {j. Some j \<in> set stack}"
      using 4 by (auto simp: exc_links_def)
    have inv: "walk_inv h ?stack (insert i seen)"
      using "3.prems" 4 links by (auto simp: walk_inv_def http_node_def)
    from walk_push [OF inv links] "3.IH"(3) [OF 4 inv] 4 show ?thesis
      by (simp add: transport_walk.simps)
  qed
qed

text \<open>Which storage errors are retried. The walk over an exception, its causes, contexts and group
  members, which may form cycles, always ends, and answers true exactly when some exception that these
  links reach from the raised one is an \<open>HTTPClientError\<close>.\<close>

theorem retryable_errors_exact:
  "is_retryable_storage_transport_error f \<longleftrightarrow>
     (\<exists>j. (exc_root f, j) \<in> (exc_links (exc_heap f))\<^sup>* \<and> http_node (exc_heap f) j)"
  unfolding is_retryable_storage_transport_error_def
  by (subst transport_walk_spec) (auto simp: walk_inv_def)

section \<open>The services the storage code calls\<close>

type_synonym bytes = string

record 'w storage_env =
  s3_head_bucket :: "string \<Rightarrow> ('w, unit) io"
  s3_create_bucket :: "string \<Rightarrow> ('w, unit) io"
  s3_put_object :: "string \<Rightarrow> string \<Rightarrow> bytes \<Rightarrow> ('w, unit) io"
  s3_get_object :: "string \<Rightarrow> string \<Rightarrow> ('w, bytes) io"
  ttl_expire :: "'w \<Rightarrow> 'w"
  ttl_get :: "string \<Rightarrow> 'w \<Rightarrow> bytes option \<times> 'w"
  ttl_setitem :: "string \<Rightarrow> bytes \<Rightarrow> 'w \<Rightarrow> (exn + unit) \<times> 'w"
  asyncio_sleep :: "rat \<Rightarrow> 'w \<Rightarrow> 'w"
  clock_now :: "'w \<Rightarrow> int"
  sha256_hex :: "bytes \<Rightarrow> string"
  orjson_dumps :: "pyval \<Rightarrow> exn + bytes"
  orjson_loads :: "bytes \<Rightarrow> exn + pyval"
  iso_format :: "int \<Rightarrow> string"
  pydantic_datetime :: "pyval \<Rightarrow> int option"
  pydantic_int :: "pyval \<Rightarrow> int option"
  externalization_enabled :: bool
  threshold_bytes :: int
  collection_chunk_size :: int
  workflow_bucket :: string

section \<open>Uploads, downloads and buckets\<close>

definition ensure_bucket_exists :: "'w storage_env \<Rightarrow> string \<Rightarrow> ('w, unit) io" where
  "ensure_bucket_exists env b w =
     (case s3_head_bucket env b w of
        (Inl f, w') \<Rightarrow>
          (if fault_code f = Some ''404'' then s3_create_bucket env b w' else (Inl f, w'))
      | (Inr u, w') \<Rightarrow> (Inr u, w'))"

definition upload_file :: "'w storage_env \<Rightarrow> bytes \<Rightarrow> string \<Rightarrow> string \<Rightarrow> ('w, unit) io" where
  "upload_file env c k b = s3_put_object env b k c"

definition download_file :: "'w storage_env \<Rightarrow> string \<Rightarrow> string \<Rightarrow> ('w, bytes) io" where
  "download_file env k b w =
     (case s3_get_object env b k w of
        (Inl f, w') \<Rightarrow>
          (Inl (if fault_code f = Some ''NoSuchKey'' then raise_from (PyError ''FileNotFoundError'' []) f else f), w')
      | (Inr c, w') \<Rightarrow> (Inr c, w'))"

definition serialize_object :: "'w storage_env \<Rightarrow> pyval \<Rightarrow> exn + bytes" where
  "serialize_object env v = orjson_dumps env v"

definition deserialize_object :: "'w storage_env \<Rightarrow> bytes \<Rightarrow> exn + pyval" where
  "deserialize_object env c = orjson_loads env c"

definition compute_sha256 :: "'w storage_env \<Rightarrow> bytes \<Rightarrow> string" where
  "compute_sha256 env c = sha256_hex env c"

section \<open>Retries\<close>

definition STORAGE_TRANSPORT_RETRY_ATTEMPTS :: nat where
  "STORAGE_TRANSPORT_RETRY_ATTEMPTS = 3"

definition STORAGE_TRANSPORT_RETRY_BASE_DELAY_SECONDS :: rat where
  "STORAGE_TRANSPORT_RETRY_BASE_DELAY_SECONDS = 1 / 4"

text \<open>The loop body from the given attempt on, with that many attempts left.\<close>

fun retry_attempts :: "'w storage_env \<Rightarrow> ('w, 'a) io \<Rightarrow> nat \<Rightarrow> nat \<Rightarrow> ('w, 'a) io" where
  "retry_attempts env fn attempt 0 w = io_raise (RuntimeError ''unreachable'') w"
| "retry_attempts env fn attempt (Suc left) w =
     (case fn w of
        (Inr a, w') \<Rightarrow> (Inr a, w')
      | (Inl f, w') \<Rightarrow>
          if raised f = CancelledError \<or> left = 0 \<or> \<not> is_retryable_storage_transport_error f then (Inl f, w')
          else retry_attempts env fn (Suc attempt) left
                 (asyncio_sleep env (STORAGE_TRANSPORT_RETRY_BASE_DELAY_SECONDS * 2 ^ (attempt - 1)) w'))"

definition retry_storage_transport_error :: "'w storage_env \<Rightarrow> ('w, 'a) io \<Rightarrow> ('w, 'a) io" where
  "retry_storage_transport_error env fn =
     retry_attempts env fn 1 (max 1 STORAGE_TRANSPORT_RETRY_ATTEMPTS)"

section \<open>The blob cache\<close>

definition MAX_CACHEABLE_BLOB_SIZE :: nat where
  "MAX_CACHEABLE_BLOB_SIZE = 50 * 1024 * 1024"

definition BLOB_CACHE_MAX_BYTES :: nat where
  "BLOB_CACHE_MAX_BYTES = 500 * 1024 * 1024"

definition blob_cache_get :: "'w storage_env \<Rightarrow> string \<Rightarrow> 'w \<Rightarrow> bytes option \<times> 'w" where
  "blob_cache_get env k w = ttl_get env k (ttl_expire env w)"

definition blob_cache_set :: "'w storage_env \<Rightarrow> string \<Rightarrow> bytes \<Rightarrow> 'w \<Rightarrow> (fault + unit) \<times> 'w" where
  "blob_cache_set env k v w =
     (let w' = ttl_expire env w
      in if BLOB_CACHE_MAX_BYTES < length v then (Inr (), w')
         else case ttl_setitem env k v w' of
                (Inr _, w'') \<Rightarrow> (Inr (), w'')
              | (Inl e, w'') \<Rightarrow>
                  if exn_class e = ''ValueError'' then (Inr (), w'') else (Inl (plain_fault e), w''))"

definition cached_blob_download :: "'w storage_env \<Rightarrow> string \<Rightarrow> string \<Rightarrow> string \<Rightarrow> ('w, bytes) io" where
  "cached_blob_download env sha b k w =
     (case blob_cache_get env sha w of
        (Some c, w1) \<Rightarrow> (Inr c, w1)
      | (None, w1) \<Rightarrow>
          io_bind (retry_storage_transport_error env (download_file env k b)) (\<lambda>c.
            if length c \<le> MAX_CACHEABLE_BLOB_SIZE
            then io_bind (blob_cache_set env sha c) (\<lambda>_. io_return c)
            else io_return c) w1)"

section \<open>What the code relies on\<close>

text \<open>
  \<open>content\<close> is what the buckets hold and \<open>cached\<close> what the memory cache holds. Time may evict cache
  entries at any call, an upload that succeeds is visible, a download returns what is stored or
  fails, and nothing else writes to the buckets while the code runs. JSON that is written can be
  read back.
\<close>

fun json_value :: "pyval \<Rightarrow> bool" where
  "json_value (VList vs) = list_all json_value vs"
| "json_value (VDict d) = (distinct (dict_keys d) \<and> list_all (\<lambda>(k, v). json_value v) d)"
| "json_value (VStored _) = False"
| "json_value _ = True"

text \<open>A step that writes nothing: the buckets are the same and the cache can only have shrunk.\<close>

definition untouched :: "('w \<Rightarrow> string \<times> string \<Rightarrow> bytes option) \<Rightarrow> ('w \<Rightarrow> string \<Rightarrow> bytes option) \<Rightarrow> 'w \<Rightarrow> 'w \<Rightarrow> bool" where
  "untouched content cached w w' \<longleftrightarrow> content w' = content w \<and> cached w' \<subseteq>\<^sub>m cached w"

lemma untouched_refl [simp]: "untouched content cached w w"
  by (simp add: untouched_def)

lemma untouched_trans [trans]: "untouched content cached w w' \<Longrightarrow> untouched content cached w' w'' \<Longrightarrow> untouched content cached w w''"
  by (auto simp: untouched_def intro: map_le_trans)

lemma untouched_content: "untouched content cached w w' \<Longrightarrow> content w' = content w"
  by (simp add: untouched_def)

lemma untouched_cached: "untouched content cached w w' \<Longrightarrow> cached w' k = Some c \<Longrightarrow> cached w k = Some c"
  by (auto simp: untouched_def map_le_def dom_def)

locale blob_world =
  fixes env :: "'w storage_env"
    and content :: "'w \<Rightarrow> string \<times> string \<Rightarrow> bytes option"
    and cached :: "'w \<Rightarrow> string \<Rightarrow> bytes option"
  assumes head_untouched: "untouched content cached w (snd (s3_head_bucket env b w))"
    and create_untouched: "untouched content cached w (snd (s3_create_bucket env b w))"
    and put_object: "s3_put_object env b k c w = (Inr u, w') \<Longrightarrow>
      content w' = (content w)((b, k) \<mapsto> c) \<and> cached w' \<subseteq>\<^sub>m cached w"
    and get_untouched: "untouched content cached w (snd (s3_get_object env b k w))"
    and get_object: "s3_get_object env b k w = (Inr c, w') \<Longrightarrow> content w (b, k) = Some c"
    and sleep_untouched: "untouched content cached w (asyncio_sleep env d w)"
    and expire_untouched: "untouched content cached w (ttl_expire env w)"
    and ttl_get_untouched: "untouched content cached w (snd (ttl_get env k w))"
    and ttl_get_hit: "ttl_get env k w = (Some c, w') \<Longrightarrow> cached w k = Some c"
    and ttl_set_content: "content (snd (ttl_setitem env k c w)) = content w"
    and ttl_set_cached: "cached (snd (ttl_setitem env k c w)) k' = Some c' \<Longrightarrow>
      k' = k \<and> c' = c \<or> cached w k' = Some c'"
    and ttl_set_error: "ttl_setitem env k c w = (Inl e, w') \<Longrightarrow> exn_class e = ''ValueError''"
    and json_roundtrip: "json_value v \<Longrightarrow> orjson_dumps env v = Inr c \<Longrightarrow> orjson_loads env c = Inr v"
    and datetime_roundtrip: "pydantic_datetime env (VStr (iso_format env t)) = Some t"
    and int_accepted: "pydantic_int env (VInt i) = Some i"
begin

lemma ensure_bucket_untouched: "untouched content cached w (snd (ensure_bucket_exists env b w))"
  using head_untouched [of w b] create_untouched [of "snd (s3_head_bucket env b w)" b]
  by (auto simp: ensure_bucket_exists_def split: prod.splits sum.splits intro: untouched_trans)

lemma download_untouched: "untouched content cached w (snd (download_file env k b w))"
  using get_untouched [of w b k] by (auto simp: download_file_def split: prod.splits sum.splits)

lemma download_content: "download_file env k b w = (Inr c, w') \<Longrightarrow> content w (b, k) = Some c"
  using get_object [of b k w] by (auto simp: download_file_def split: prod.splits sum.splits)

lemma retry_attempts_untouched:
  assumes "\<And>w. untouched content cached w (snd (fn w))"
  shows "untouched content cached w (snd (retry_attempts env fn attempt n w))"
proof (induction n arbitrary: attempt w)
  case (Suc n)
  obtain r w1 where f: "fn w = (r, w1)" by fastforce
  with assms [of w] have w1: "untouched content cached w w1" by simp
  let ?w2 = "asyncio_sleep env (STORAGE_TRANSPORT_RETRY_BASE_DELAY_SECONDS * 2 ^ (attempt - 1)) w1"
  have "untouched content cached w ?w2" using w1 sleep_untouched by (rule untouched_trans)
  then have "untouched content cached w (snd (retry_attempts env fn (Suc attempt) n ?w2))"
    using Suc.IH by (rule untouched_trans)
  with f w1 show ?case by (simp split: sum.split)
qed (simp add: io_simps)

lemma retry_attempts_result:
  assumes "\<And>w. untouched content cached w (snd (fn w))"
    and "\<And>w c w'. fn w = (Inr c, w') \<Longrightarrow> content w bk = Some c"
    and "retry_attempts env fn attempt n w = (Inr c, w')"
  shows "content w bk = Some c"
  using assms(3)
proof (induction n arbitrary: attempt w)
  case (Suc n)
  obtain r w1 where f: "fn w = (r, w1)" by fastforce
  let ?w2 = "asyncio_sleep env (STORAGE_TRANSPORT_RETRY_BASE_DELAY_SECONDS * 2 ^ (attempt - 1)) w1"
  have "content ?w2 = content w"
    using assms(1) [of w] f sleep_untouched [of w1] by (auto simp: untouched_def)
  with Suc.IH [of "Suc attempt" ?w2] Suc.prems f assms(2) [of w c w1] show ?case
    by (auto split: sum.splits if_splits)
qed (simp add: io_simps)

lemma cache_get_untouched: "untouched content cached w (snd (blob_cache_get env k w))"
  unfolding blob_cache_get_def using expire_untouched ttl_get_untouched by (rule untouched_trans)

lemma cache_get_hit: "blob_cache_get env k w = (Some c, w') \<Longrightarrow> cached w k = Some c"
  unfolding blob_cache_get_def using untouched_cached [OF expire_untouched] ttl_get_hit by blast

lemma cache_set_content: "content (snd (blob_cache_set env k c w)) = content w"
  using ttl_set_content [of k c "ttl_expire env w"] untouched_content [OF expire_untouched [of w]]
  by (auto simp: blob_cache_set_def Let_def split: prod.splits sum.splits)

lemma cache_set_cached:
  "cached (snd (blob_cache_set env k c w)) k' = Some c' \<Longrightarrow> k' = k \<and> c' = c \<or> cached w k' = Some c'"
  using ttl_set_cached [of k c "ttl_expire env w" k' c'] untouched_cached [OF expire_untouched, of w k' c']
  by (auto simp: blob_cache_set_def Let_def split: prod.splits sum.splits if_splits)

lemma cache_set_returns: "fst (blob_cache_set env k c w) = Inr ()"
  using ttl_set_error [of k c "ttl_expire env w"]
  by (auto simp: blob_cache_set_def Let_def split: prod.splits sum.splits)

end

section \<open>Downloads that succeed\<close>

text \<open>
  Within the given number of attempts a download succeeds, and every attempt before that fails in
  transport.
\<close>

fun recovers :: "'w storage_env \<Rightarrow> string \<Rightarrow> string \<Rightarrow> nat \<Rightarrow> nat \<Rightarrow> 'w \<Rightarrow> bool" where
  "recovers env b k attempt 0 w = False"
| "recovers env b k attempt (Suc left) w =
     (case s3_get_object env b k w of
        (Inr c, w') \<Rightarrow> True
      | (Inl f, w') \<Rightarrow>
          fault_code f = None \<and> raised f \<noteq> CancelledError \<and> is_retryable_storage_transport_error f \<and>
          recovers env b k (Suc attempt) left
            (asyncio_sleep env (STORAGE_TRANSPORT_RETRY_BASE_DELAY_SECONDS * 2 ^ (attempt - 1)) w'))"

text \<open>
  The blobs have different hashes, and under the hash of a blob the cache holds only that blob.
\<close>

definition coherent ::
  "'w storage_env \<Rightarrow> ('w \<Rightarrow> string \<times> string \<Rightarrow> bytes option) \<Rightarrow> ('w \<Rightarrow> string \<Rightarrow> bytes option) \<Rightarrow> 'w \<Rightarrow> bool"
where
  "coherent env content cached w \<longleftrightarrow>
     inj_on (sha256_hex env) (ran (content w)) \<and>
     (\<forall>c \<in> ran (content w). \<forall>c'. cached w (sha256_hex env c) = Some c' \<longrightarrow> c' = c)"

lemma coherent_untouched: "coherent env content cached w \<Longrightarrow> untouched content cached w w' \<Longrightarrow> coherent env content cached w'"
  unfolding coherent_def using untouched_cached [of content cached w w'] by (metis untouched_content)

locale reliable_world = blob_world +
  assumes recovers: "content w (b, k) \<noteq> None \<Longrightarrow> recovers env b k 1 STORAGE_TRANSPORT_RETRY_ATTEMPTS w"
begin

lemma retry_download_attempts:
  "recovers env b k attempt n w \<Longrightarrow> \<exists>c w'. retry_attempts env (download_file env k b) attempt n w = (Inr c, w')"
proof (induction n arbitrary: attempt w)
  case (Suc n)
  obtain r w1 where g: "s3_get_object env b k w = (r, w1)" by fastforce
  show ?case
  proof (cases r)
    case (Inl f)
    with Suc.prems g have f: "fault_code f = None" "raised f \<noteq> CancelledError" "is_retryable_storage_transport_error f"
      and rest: "recovers env b k (Suc attempt) n
        (asyncio_sleep env (STORAGE_TRANSPORT_RETRY_BASE_DELAY_SECONDS * 2 ^ (attempt - 1)) w1)"
      by simp_all
    from rest have "n \<noteq> 0" by (cases n) simp_all
    with Suc.IH [OF rest] f g Inl show ?thesis by (simp add: download_file_def)
  next
    case (Inr c)
    with g show ?thesis by (simp add: download_file_def)
  qed
qed simp

lemma retry_download:
  assumes "content w (b, k) = Some c"
  obtains w' where "retry_storage_transport_error env (download_file env k b) w = (Inr c, w')"
    and "untouched content cached w w'"
proof -
  have "recovers env b k 1 STORAGE_TRANSPORT_RETRY_ATTEMPTS w"
    using recovers [of w b k] assms by simp
  from retry_download_attempts [OF this] obtain c' w' where
    r: "retry_attempts env (download_file env k b) 1 STORAGE_TRANSPORT_RETRY_ATTEMPTS w = (Inr c', w')" by blast
  with retry_attempts_result [OF download_untouched download_content r] assms have "c' = c" by simp
  moreover have "untouched content cached w w'"
    using retry_attempts_untouched [where fn = "download_file env k b" and w = w, OF download_untouched] r by (metis snd_conv)
  ultimately show ?thesis
    using that r by (simp add: retry_storage_transport_error_def STORAGE_TRANSPORT_RETRY_ATTEMPTS_def)
qed

lemma coherent_cache_set:
  assumes "coherent env content cached w" and "content w bk = Some c"
  shows "coherent env content cached (snd (blob_cache_set env (sha256_hex env c) c w))"
proof -
  have "c \<in> ran (content w)" using assms(2) by (rule ranI)
  with assms(1) show ?thesis
    unfolding coherent_def cache_set_content
    using cache_set_cached [of "sha256_hex env c" c w] by (metis inj_on_eq_iff)
qed

lemma cached_download:
  assumes coh: "coherent env content cached w" and c: "content w (b, k) = Some c"
  obtains w' where "cached_blob_download env (sha256_hex env c) b k w = (Inr c, w')"
    and "content w' = content w" and "coherent env content cached w'"
proof -
  obtain r w1 where g: "blob_cache_get env (sha256_hex env c) w = (r, w1)" by fastforce
  with cache_get_untouched [of w "sha256_hex env c"] have w1: "untouched content cached w w1" by simp
  note w1' = untouched_content [OF w1] coherent_untouched [OF coh w1]
  show ?thesis
  proof (cases r)
    case (Some c')
    with g have "cached w (sha256_hex env c) = Some c'" by (auto intro: cache_get_hit)
    with coh ranI [of "content w", OF c] have "c' = c" by (simp add: coherent_def)
    with that [of w1] g Some w1' show ?thesis by (simp add: cached_blob_download_def)
  next
    case None
    from c w1' have "content w1 (b, k) = Some c" by simp
    then obtain w2 where r: "retry_storage_transport_error env (download_file env k b) w1 = (Inr c, w2)"
      and w2: "untouched content cached w1 w2" by (rule retry_download)
    have w2': "content w2 = content w" "coherent env content cached w2"
      using untouched_content [OF w2] coherent_untouched [OF w1'(2) w2] w1' by simp_all
    obtain w3 where s: "blob_cache_set env (sha256_hex env c) c w2 = (Inr (), w3)"
      using cache_set_returns [of "sha256_hex env c" c w2] by (metis prod.collapse)
    have "content w3 = content w" "coherent env content cached w3"
      using cache_set_content [of "sha256_hex env c" c w2] coherent_cache_set [OF w2'(2), of "(b, k)" c] s w2' c
      by simp_all
    with that [of w2] that [of w3] w2' g None r s show ?thesis
      by (cases "length c \<le> MAX_CACHEABLE_BLOB_SIZE") (simp_all add: cached_blob_download_def io_bind_Inr io_simps)
  qed
qed

end

end
