(* ===== verification/Storage_Collection.thy ===== *)
theory Storage_Collection
  imports Storage_Blob
begin

text \<open>
  Stored objects and chunked collections: the wire form of references, handles, manifests and chunks
  (\<open>tracecat/storage/object.py\<close>, \<open>tracecat/storage/collection.py\<close>), writing a collection as chunks
  and a manifest, reading pages and items back, and the two storage backends
  (\<open>tracecat/storage/backends/inline.py\<close>, \<open>backends/s3.py\<close>). Elements of a collection may be
  handles of further collections, so retrieval carries a bound on that nesting.
\<close>

section \<open>Wire forms\<close>

definition opt_int :: "int option \<Rightarrow> pyval" where
  "opt_int x = (case x of None \<Rightarrow> VNone | Some i \<Rightarrow> VInt i)"

definition kind_value :: "element_kind \<Rightarrow> string" where
  "kind_value k = (case k of KindValue \<Rightarrow> ''value'' | KindStoredObject \<Rightarrow> ''stored_object'')"

text \<open>\<open>model_dump\<close>; a timestamp is shown in the form orjson gives it.\<close>

definition dump_ref :: "'w storage_env \<Rightarrow> object_ref \<Rightarrow> pyval" where
  "dump_ref env r =
     VDict [(''backend'', VStr (backend r)), (''bucket'', VStr (bucket r)), (''key'', VStr (object_key r)),
            (''size_bytes'', VInt (size_bytes r)), (''sha256'', VStr (sha256 r)),
            (''content_type'', VStr (content_type r)), (''encoding'', VStr (object_encoding r)),
            (''created_at'', VStr (iso_format env (created_at r)))]"

fun dump_value :: "'w storage_env \<Rightarrow> pyval \<Rightarrow> pyval"
  and dump_stored :: "'w storage_env \<Rightarrow> stored_object \<Rightarrow> pyval"
where
  "dump_value env (VList vs) = VList (map (dump_value env) vs)"
| "dump_value env (VDict d) = VDict (map (\<lambda>(k, v). (k, dump_value env v)) d)"
| "dump_value env (VStored obj) = dump_stored env obj"
| "dump_value env v = v"
| "dump_stored env (InlineObject v tn) =
     VDict [(''typename'', opt_str tn), (''type'', VStr ''inline''), (''data'', dump_value env v)]"
| "dump_stored env (ExternalObject r tn) =
     VDict [(''typename'', opt_str tn), (''type'', VStr ''external''), (''ref'', dump_ref env r)]"
| "dump_stored env (CollectionObject m n cs ek sv ix tn) =
     VDict [(''typename'', opt_str tn), (''type'', VStr ''collection''), (''manifest_ref'', dump_ref env m),
            (''count'', VInt n), (''chunk_size'', VInt cs), (''element_kind'', VStr (kind_value ek)),
            (''schema_version'', VInt sv), (''index'', opt_int ix)]"

text \<open>
  \<open>model_validate\<close>: unknown keys are ignored, fields with a default may be missing, \<open>None\<close> is a
  \<open>ValidationError\<close>. \<open>now\<close> is the default of \<open>created_at\<close>.
\<close>

definition str_field :: "(string, pyval) dict \<Rightarrow> string \<Rightarrow> string option" where
  "str_field d k = (case dict_get d k of Some (VStr s) \<Rightarrow> Some s | _ \<Rightarrow> None)"

definition str_default :: "string \<Rightarrow> (string, pyval) dict \<Rightarrow> string \<Rightarrow> string option" where
  "str_default s d k = (if dict_get d k = None then Some s else str_field d k)"

definition int_field :: "'w storage_env \<Rightarrow> (string, pyval) dict \<Rightarrow> string \<Rightarrow> int option" where
  "int_field env d k = Option.bind (dict_get d k) (pydantic_int env)"

definition int_default :: "'w storage_env \<Rightarrow> int \<Rightarrow> (string, pyval) dict \<Rightarrow> string \<Rightarrow> int option" where
  "int_default env i d k = (if dict_get d k = None then Some i else int_field env d k)"

definition opt_str_field :: "(string, pyval) dict \<Rightarrow> string \<Rightarrow> string option option" where
  "opt_str_field d k =
     (case dict_get d k of
        None \<Rightarrow> Some None
      | Some VNone \<Rightarrow> Some None
      | Some _ \<Rightarrow> map_option Some (str_field d k))"

definition opt_int_field :: "'w storage_env \<Rightarrow> (string, pyval) dict \<Rightarrow> string \<Rightarrow> int option option" where
  "opt_int_field env d k =
     (case dict_get d k of
        None \<Rightarrow> Some None
      | Some VNone \<Rightarrow> Some None
      | Some _ \<Rightarrow> map_option Some (int_field env d k))"

definition kind_field :: "(string, pyval) dict \<Rightarrow> string \<Rightarrow> element_kind option" where
  "kind_field d k =
     (case str_field d k of
        None \<Rightarrow> None
      | Some s \<Rightarrow> if s = ''value'' then Some KindValue
                  else if s = ''stored_object'' then Some KindStoredObject else None)"

definition literal :: "string list \<Rightarrow> string option \<Rightarrow> string option" where
  "literal allowed x = Option.bind x (\<lambda>s. if s \<in> set allowed then Some s else None)"

definition validate_ref :: "'w storage_env \<Rightarrow> int \<Rightarrow> pyval \<Rightarrow> object_ref option" where
  "validate_ref env now v =
     (case v of
        VDict d \<Rightarrow> do {
          be \<leftarrow> literal [''s3''] (str_default ''s3'' d ''backend'');
          b \<leftarrow> str_field d ''bucket'';
          k \<leftarrow> str_field d ''key'';
          n \<leftarrow> int_field env d ''size_bytes'';
          h \<leftarrow> str_field d ''sha256'';
          ct \<leftarrow> str_default ''application/json'' d ''content_type'';
          en \<leftarrow> literal [''json'', ''json+zstd'', ''json+gzip''] (str_default ''json'' d ''encoding'');
          t \<leftarrow> (case dict_get d ''created_at'' of None \<Rightarrow> Some now | Some c \<Rightarrow> pydantic_datetime env c);
          Some \<lparr>backend = be, bucket = b, object_key = k, size_bytes = n, sha256 = h, content_type = ct,
                object_encoding = en, created_at = t\<rparr> }
      | _ \<Rightarrow> None)"

text \<open>\<open>StoredObjectValidator.validate_python\<close>: the \<open>type\<close> key selects the class.\<close>

definition validate_stored_object :: "'w storage_env \<Rightarrow> int \<Rightarrow> pyval \<Rightarrow> stored_object option" where
  "validate_stored_object env now v =
     (case v of
        VStored obj \<Rightarrow> Some obj
      | VDict d \<Rightarrow>
          (if dict_get d ''type'' = Some (VStr ''inline'') then do {
             tn \<leftarrow> opt_str_field d ''typename'';
             x \<leftarrow> dict_get d ''data'';
             Some (new_inline x tn) }
           else if dict_get d ''type'' = Some (VStr ''external'') then do {
             tn \<leftarrow> opt_str_field d ''typename'';
             rv \<leftarrow> dict_get d ''ref'';
             r \<leftarrow> validate_ref env now rv;
             Some (ExternalObject r tn) }
           else if dict_get d ''type'' = Some (VStr ''collection'') then do {
             tn \<leftarrow> opt_str_field d ''typename'';
             mv \<leftarrow> dict_get d ''manifest_ref'';
             m \<leftarrow> validate_ref env now mv;
             n \<leftarrow> int_field env d ''count'';
             cs \<leftarrow> int_field env d ''chunk_size'';
             ek \<leftarrow> kind_field d ''element_kind'';
             sv \<leftarrow> int_default env 1 d ''schema_version'';
             ix \<leftarrow> opt_int_field env d ''index'';
             Some (collection_set_typename (CollectionObject m n cs ek sv ix tn)) }
           else None)
      | _ \<Rightarrow> None)"

record manifest =
  mf_version :: int
  mf_count :: int
  mf_chunk_size :: int
  mf_kind :: element_kind
  mf_chunks :: "object_ref list"

record chunk =
  ck_version :: int
  ck_start :: int
  ck_items :: "pyval list"

definition dump_manifest :: "'w storage_env \<Rightarrow> manifest \<Rightarrow> pyval" where
  "dump_manifest env m =
     VDict [(''kind'', VStr ''tracecat.collection_manifest''), (''version'', VInt (mf_version m)),
            (''count'', VInt (mf_count m)), (''chunk_size'', VInt (mf_chunk_size m)),
            (''element_kind'', VStr (kind_value (mf_kind m))),
            (''chunks'', VList (map (dump_ref env) (mf_chunks m)))]"

definition dump_chunk :: "'w storage_env \<Rightarrow> chunk \<Rightarrow> pyval" where
  "dump_chunk env c =
     VDict [(''kind'', VStr ''tracecat.collection_chunk''), (''version'', VInt (ck_version c)),
            (''start'', VInt (ck_start c)), (''items'', VList (map (dump_value env) (ck_items c)))]"

definition validate_manifest :: "'w storage_env \<Rightarrow> int \<Rightarrow> pyval \<Rightarrow> manifest option" where
  "validate_manifest env now v =
     (case v of
        VDict d \<Rightarrow> do {
          _ \<leftarrow> literal [''tracecat.collection_manifest'']
                (str_default ''tracecat.collection_manifest'' d ''kind'');
          ver \<leftarrow> int_default env 1 d ''version'';
          n \<leftarrow> int_field env d ''count'';
          cs \<leftarrow> int_field env d ''chunk_size'';
          ek \<leftarrow> kind_field d ''element_kind'';
          chs \<leftarrow> (case dict_get d ''chunks'' of
                   Some (VList rs) \<Rightarrow> those (map (validate_ref env now) rs) | _ \<Rightarrow> None);
          Some \<lparr>mf_version = ver, mf_count = n, mf_chunk_size = cs, mf_kind = ek, mf_chunks = chs\<rparr> }
      | _ \<Rightarrow> None)"

definition validate_chunk :: "'w storage_env \<Rightarrow> pyval \<Rightarrow> chunk option" where
  "validate_chunk env v =
     (case v of
        VDict d \<Rightarrow> do {
          _ \<leftarrow> literal [''tracecat.collection_chunk''] (str_default ''tracecat.collection_chunk'' d ''kind'');
          ver \<leftarrow> int_default env 1 d ''version'';
          st \<leftarrow> int_field env d ''start'';
          xs \<leftarrow> (case dict_get d ''items'' of Some (VList xs) \<Rightarrow> Some xs | _ \<Rightarrow> None);
          Some \<lparr>ck_version = ver, ck_start = st, ck_items = xs\<rparr> }
      | _ \<Rightarrow> None)"

definition validated :: "'a option \<Rightarrow> ('w, 'a) io" where
  "validated x = (case x of None \<Rightarrow> io_raise (ValidationError ''validation error'') | Some a \<Rightarrow> io_return a)"

definition stored_of :: "'w storage_env \<Rightarrow> pyval \<Rightarrow> ('w, stored_object) io" where
  "stored_of env v w = validated (validate_stored_object env (clock_now env w) v) w"

section \<open>Writing a collection\<close>

text \<open>\<open>xs[a:b]\<close>.\<close>

definition slice_bound :: "nat \<Rightarrow> int \<Rightarrow> nat" where
  "slice_bound n i = (if i < 0 then nat (max 0 (int n + i)) else min n (nat i))"

definition py_slice :: "'a list \<Rightarrow> int \<Rightarrow> int \<Rightarrow> 'a list" where
  "py_slice xs a b =
     (let i = slice_bound (length xs) a; j = slice_bound (length xs) b in take (j - i) (drop i xs))"

definition chunk_key :: "string \<Rightarrow> nat \<Rightarrow> string" where
  "chunk_key prefix i = prefix @ ''/chunks/'' @ show_nat i @ ''.json''"

definition manifest_key :: "string \<Rightarrow> string" where
  "manifest_key prefix = prefix @ ''/manifest.json''"

definition new_ref :: "'w storage_env \<Rightarrow> string \<Rightarrow> string \<Rightarrow> bytes \<Rightarrow> 'w \<Rightarrow> object_ref" where
  "new_ref env b k c w =
     \<lparr>backend = ''s3'', bucket = b, object_key = k, size_bytes = int (length c),
      sha256 = compute_sha256 env c, content_type = ''application/json'', object_encoding = ''json'',
      created_at = clock_now env w\<rparr>"

text \<open>Serialise a value, upload it and reference it: the tail both the chunks and the manifest share.\<close>

definition upload_json :: "'w storage_env \<Rightarrow> string \<Rightarrow> string \<Rightarrow> pyval \<Rightarrow> ('w, object_ref) io" where
  "upload_json env b k v =
     io_bind (io_lift (serialize_object env v)) (\<lambda>c.
     io_bind (upload_file env c k b) (\<lambda>_ w.
       (Inr (new_ref env b k c w), w)))"

definition store_chunk ::
  "'w storage_env \<Rightarrow> string \<Rightarrow> string \<Rightarrow> pyval list \<Rightarrow> int \<Rightarrow> nat \<Rightarrow> ('w, object_ref) io"
where
  "store_chunk env b prefix items cs i =
     (let start = int i * cs; end = min (start + cs) (int (length items))
      in upload_json env b (chunk_key prefix i)
           (dump_chunk env \<lparr>ck_version = 1, ck_start = start, ck_items = py_slice items start end\<rparr>))"

text \<open>\<open>math.ceil(count / chunk_size)\<close>, with exact division.\<close>

definition num_chunks :: "int \<Rightarrow> int \<Rightarrow> exn + nat" where
  "num_chunks count cs =
     (if 0 < count
      then if cs = 0 then Inl (PyError ''ZeroDivisionError'' ''division by zero'')
           else Inr (nat (- ((- count) div cs)))
      else Inr 1)"

definition int_or :: "int option \<Rightarrow> int \<Rightarrow> int" where
  "int_or x d = (case x of None \<Rightarrow> d | Some i \<Rightarrow> if i = 0 then d else i)"

definition store_collection ::
  "'w storage_env \<Rightarrow> string \<Rightarrow> pyval list \<Rightarrow> element_kind \<Rightarrow> int option \<Rightarrow> string option \<Rightarrow> ('w, stored_object) io"
where
  "store_collection env prefix items ek csize bkt =
     (let cs = int_or csize (collection_chunk_size env);
          b = (case bkt of None \<Rightarrow> workflow_bucket env | Some s \<Rightarrow> if s = [] then workflow_bucket env else s);
          count = int (length items)
      in io_bind (io_lift (num_chunks count cs)) (\<lambda>n.
         io_bind (ensure_bucket_exists env b) (\<lambda>_.
         io_bind (io_map (store_chunk env b prefix items cs) [0..<n]) (\<lambda>refs.
         io_bind (upload_json env b (manifest_key prefix)
                   (dump_manifest env \<lparr>mf_version = 1, mf_count = count, mf_chunk_size = cs, mf_kind = ek,
                      mf_chunks = refs\<rparr>)) (\<lambda>mref.
           io_return (CollectionObject mref count cs ek 1 None (Some ''list'')))))))"

section \<open>Reading a collection\<close>

definition verified_download :: "'w storage_env \<Rightarrow> string \<Rightarrow> object_ref \<Rightarrow> ('w, pyval) io" where
  "verified_download env what r =
     io_bind (cached_blob_download env (sha256 r) (bucket r) (object_key r)) (\<lambda>c.
       if compute_sha256 env c \<noteq> sha256 r
       then io_raise (ValueError (what @ '': expected '' @ sha256 r @ '', got '' @ compute_sha256 env c))
       else io_lift (deserialize_object env c))"

definition fetch_manifest :: "'w storage_env \<Rightarrow> object_ref \<Rightarrow> ('w, manifest) io" where
  "fetch_manifest env r =
     io_bind (verified_download env ''Manifest integrity check failed'' r) (\<lambda>v w.
       validated (validate_manifest env (clock_now env w) v) w)"

definition fetch_chunk :: "'w storage_env \<Rightarrow> object_ref \<Rightarrow> ('w, chunk) io" where
  "fetch_chunk env r =
     io_bind (verified_download env ''Chunk integrity check failed'' r) (\<lambda>v. validated (validate_chunk env v))"

definition fetch_chunk_item :: "'w storage_env \<Rightarrow> object_ref \<Rightarrow> int \<Rightarrow> ('w, pyval) io" where
  "fetch_chunk_item env r i =
     io_bind (fetch_chunk env r) (\<lambda>c.
       if i < 0 \<or> int (length (ck_items c)) \<le> i
       then io_raise (IndexError (''Chunk index '' @ show_int i @ '' out of range for chunk with '' @
              show_int (int (length (ck_items c))) @ '' items''))
       else io_return (ck_items c ! nat i))"

text \<open>\<open>manifest.chunks[i]\<close>.\<close>

definition chunk_ref :: "manifest \<Rightarrow> int \<Rightarrow> ('w, object_ref) io" where
  "chunk_ref m i =
     (case py_nth (mf_chunks m) i of
        None \<Rightarrow> io_raise (IndexError ''list index out of range'') | Some r \<Rightarrow> io_return r)"

definition page_chunk ::
  "'w storage_env \<Rightarrow> manifest \<Rightarrow> int \<Rightarrow> int \<Rightarrow> int \<Rightarrow> int \<Rightarrow> ('w, pyval list) io"
where
  "page_chunk env m cs offset end i =
     io_bind (chunk_ref m i) (\<lambda>r.
     io_bind (fetch_chunk env r) (\<lambda>c.
       let chunk_start = i * cs;
           local_start = max 0 (offset - chunk_start);
           local_end = min (int (length (ck_items c))) (end - chunk_start)
       in io_return (py_slice (ck_items c) local_start local_end)))"

definition get_collection_page ::
  "'w storage_env \<Rightarrow> stored_object \<Rightarrow> int \<Rightarrow> int option \<Rightarrow> ('w, pyval list) io"
where
  "get_collection_page env coll offset limit =
     (case coll of
        CollectionObject mref count cs ek sv ix tn \<Rightarrow>
          if offset < 0 then io_raise (ValueError (''offset must be >= 0, got '' @ show_int offset))
          else if count \<le> offset then io_return []
          else if limit = Some 0 then io_return []
          else
            let end = min (offset + (case limit of None \<Rightarrow> count - offset | Some l \<Rightarrow> l)) count
            in io_bind (fetch_manifest env mref) (\<lambda>m.
                 if cs = 0 then io_raise (PyError ''ZeroDivisionError'' ''integer division or modulo by zero'')
                 else io_bind (io_map (page_chunk env m cs offset end) [offset div cs..(end - 1) div cs])
                        (\<lambda>pages. io_return (concat pages)))
      | _ \<Rightarrow> io_raise (PyError ''AttributeError'' ''count''))"

definition get_collection_item ::
  "'w storage_env \<Rightarrow> (stored_object \<Rightarrow> ('w, pyval) io) \<Rightarrow> stored_object \<Rightarrow> int \<Rightarrow> ('w, pyval) io"
where
  "get_collection_item env retrieve coll i =
     (case coll of
        CollectionObject mref count cs ek sv ix tn \<Rightarrow>
          let j = (if i < 0 then count + i else i)
          in if j < 0 \<or> count \<le> j
             then io_raise (IndexError (''Collection index '' @ show_int j @ '' out of range [0, '' @
                    show_int count @ '')''))
             else io_bind (fetch_manifest env mref) (\<lambda>m.
                    if cs = 0 then io_raise (PyError ''ZeroDivisionError'' ''integer division or modulo by zero'')
                    else io_bind (chunk_ref m (j div cs)) (\<lambda>r.
                         io_bind (fetch_chunk_item env r (j mod cs)) (\<lambda>v.
                           if ek = KindValue then io_return v
                           else io_bind (stored_of env v) retrieve)))
      | _ \<Rightarrow> io_raise (PyError ''AttributeError'' ''count''))"

definition materialize_collection_values ::
  "'w storage_env \<Rightarrow> (stored_object \<Rightarrow> ('w, pyval) io) \<Rightarrow> stored_object \<Rightarrow> int \<Rightarrow> int option \<Rightarrow> ('w, pyval list) io"
where
  "materialize_collection_values env retrieve coll offset limit =
     io_bind (get_collection_page env coll offset limit) (\<lambda>items.
       if (case coll of CollectionObject _ _ _ ek _ _ _ \<Rightarrow> ek = KindValue | _ \<Rightarrow> False) then io_return items
       else io_map (\<lambda>v. io_bind (stored_of env v) retrieve) items)"

section \<open>Backends\<close>

text \<open>The S3 backend; an externalised object is read from the bucket its own reference names.\<close>

definition s3_store :: "'w storage_env \<Rightarrow> string \<Rightarrow> int \<Rightarrow> string \<Rightarrow> pyval \<Rightarrow> ('w, stored_object) io" where
  "s3_store env b threshold k v =
     io_bind (io_lift (serialize_object env v)) (\<lambda>c.
       if int (length c) \<le> threshold then io_return (new_inline v None)
       else io_bind (ensure_bucket_exists env b) (\<lambda>_.
            io_bind (upload_file env c k b) (\<lambda>_ w.
              (Inr (ExternalObject (new_ref env b k c w) (Some (type_name v))), w))))"

definition s3_retrieve ::
  "'w storage_env \<Rightarrow> (stored_object \<Rightarrow> ('w, pyval) io) \<Rightarrow> stored_object \<Rightarrow> ('w, pyval) io"
where
  "s3_retrieve env retrieve obj =
     (case obj of
        InlineObject v _ \<Rightarrow> io_return v
      | ExternalObject r _ \<Rightarrow>
          if backend r \<noteq> ''s3''
          then io_raise (ValueError (''S3ObjectStorage cannot retrieve from backend: '' @ backend r))
          else verified_download env (''Integrity check failed for '' @ object_key r) r
      | CollectionObject _ _ _ _ _ ix _ \<Rightarrow>
          (case ix of
             Some i \<Rightarrow> get_collection_item env retrieve obj i
           | None \<Rightarrow> io_bind (materialize_collection_values env retrieve obj 0 None) (\<lambda>vs. io_return (VList vs))))"

text \<open>The backend of a reference is S3 or an error; the bound counts nested collections.\<close>

fun retrieve_stored_object :: "'w storage_env \<Rightarrow> nat \<Rightarrow> stored_object \<Rightarrow> ('w, pyval) io" where
  "retrieve_stored_object env depth (InlineObject v tn) = io_return v"
| "retrieve_stored_object env 0 obj = io_raise NonTermination"
| "retrieve_stored_object env (Suc depth) obj =
     (let r = (case obj of ExternalObject r _ \<Rightarrow> r | CollectionObject m _ _ _ _ _ _ \<Rightarrow> m)
      in if backend r = ''s3'' then s3_retrieve env (retrieve_stored_object env depth) obj
         else io_raise (ValueError (''Unsupported object storage backend: '' @ backend r)))"

definition inline_store :: "string \<Rightarrow> pyval \<Rightarrow> ('w, stored_object) io" where
  "inline_store k v = io_return (new_inline v None)"

definition inline_retrieve :: "stored_object \<Rightarrow> ('w, pyval) io" where
  "inline_retrieve obj =
     (case obj of
        InlineObject v _ \<Rightarrow> io_return v
      | _ \<Rightarrow> io_raise (PyError ''NotImplementedError'' (''InlineObjectStorage does not support '' @ stored_type obj
               @ '' references. This ref was created by a different storage backend.'')))"

text \<open>The configured backend, \<open>get_object_storage()\<close>.\<close>

definition storage_store :: "'w storage_env \<Rightarrow> string \<Rightarrow> pyval \<Rightarrow> ('w, stored_object) io" where
  "storage_store env k v =
     (if externalization_enabled env then s3_store env (workflow_bucket env) (threshold_bytes env) k v
      else inline_store k v)"

definition storage_retrieve :: "'w storage_env \<Rightarrow> nat \<Rightarrow> stored_object \<Rightarrow> ('w, pyval) io" where
  "storage_retrieve env depth obj =
     (if externalization_enabled env then s3_retrieve env (retrieve_stored_object env depth) obj
      else inline_retrieve obj)"

section \<open>Computations that return under an invariant\<close>

definition yields :: "('w \<Rightarrow> bool) \<Rightarrow> ('w, 'a) io \<Rightarrow> 'a \<Rightarrow> bool" where
  "yields I m a \<longleftrightarrow> (\<forall>w. I w \<longrightarrow> (\<exists>w'. m w = (Inr a, w') \<and> I w'))"

named_theorems yields_intros \<open>rules for computations that return under an invariant\<close>

lemma yieldsE:
  assumes "yields I m a" and "I w"
  obtains w' where "m w = (Inr a, w')" and "I w'"
  using assms by (auto simp: yields_def)

lemma yields_return [simp, yields_intros]: "yields I (io_return a) a"
  by (simp add: yields_def io_simps)

lemma yields_bind [yields_intros]: "yields I m a \<Longrightarrow> yields I (f a) b \<Longrightarrow> yields I (io_bind m f) b"
  unfolding yields_def by (metis io_bind_Inr)

lemma yields_bind2:
  "yields I (io_bind m f) a \<Longrightarrow> yields I (g a) b \<Longrightarrow> yields I (io_bind m (\<lambda>x. io_bind (f x) g)) b"
  unfolding io_bind_assoc [symmetric] by (rule yields_bind)

lemma yields_map2: "list_all2 (\<lambda>x y. yields I (f x) y) xs ys \<Longrightarrow> yields I (io_map f xs) ys"
  by (induction rule: list_all2_induct) (auto intro!: yields_bind)

lemma yields_map [yields_intros]:
  "(\<And>x. x \<in> set xs \<Longrightarrow> yields I (f x) (g x)) \<Longrightarrow> yields I (io_map f xs) (map g xs)"
  by (induction xs) (auto intro!: yields_bind)

section \<open>What is held in the buckets\<close>

abbreviation settled ::
  "'w storage_env \<Rightarrow> ('w \<Rightarrow> string \<times> string \<Rightarrow> bytes option) \<Rightarrow> ('w \<Rightarrow> string \<Rightarrow> bytes option) \<Rightarrow>
   (string \<times> string \<Rightarrow> bytes option) \<Rightarrow> 'w \<Rightarrow> bool"
where
  "settled env content cached C w \<equiv> content w = C \<and> coherent env content cached w"

definition wf_ref :: "object_ref \<Rightarrow> bool" where
  "wf_ref r \<longleftrightarrow> backend r = ''s3'' \<and> object_encoding r \<in> {''json'', ''json+zstd'', ''json+gzip''}"

text \<open>The reference names a blob with the recorded hash whose JSON is the value.\<close>

definition held :: "'w storage_env \<Rightarrow> (string \<times> string \<Rightarrow> bytes option) \<Rightarrow> object_ref \<Rightarrow> pyval \<Rightarrow> bool" where
  "held env C r v \<longleftrightarrow> wf_ref r \<and>
     (\<exists>c. C (bucket r, object_key r) = Some c \<and> sha256 r = sha256_hex env c \<and> orjson_loads env c = Inr v)"

lemma held_cong:
  "C (bucket r, object_key r) = C' (bucket r, object_key r) \<Longrightarrow> held env C r v \<longleftrightarrow> held env C' r v"
  by (simp add: held_def)

lemma json_dump_value: "json_value v \<Longrightarrow> dump_value env v = v"
proof (induction v rule: json_value.induct)
  case (1 vs)
  then show ?case by (auto simp: list_all_iff intro: map_idI)
next
  case (2 d)
  then show ?case by (auto simp: list_all_iff split_beta intro!: map_idI)
qed simp_all

lemma json_dump_values: "list_all json_value vs \<Longrightarrow> map (dump_value env) vs = vs"
  by (auto simp: list_all_iff intro!: map_idI json_dump_value)

lemma json_opt [simp]: "json_value (opt_str x)" "json_value (opt_int i)"
  by (cases x; simp add: opt_str_def) (cases i; simp add: opt_int_def)

lemma json_dump_ref [simp]: "json_value (dump_ref env r)"
  by (simp add: dump_ref_def)

lemma json_dump_manifest: "json_value (dump_manifest env m)"
  by (simp add: dump_manifest_def list_all_iff)

lemma json_dump_chunk: "list_all json_value (ck_items c) \<Longrightarrow> json_value (dump_chunk env c)"
  by (simp add: dump_chunk_def json_dump_values)

lemma kind_field_value: "dict_get d k = Some (VStr (kind_value ek)) \<Longrightarrow> kind_field d k = Some ek"
  by (cases ek) (simp_all add: kind_field_def str_field_def kind_value_def)

lemmas field_defs = str_field_def str_default_def int_field_def int_default_def opt_str_field_def
  opt_int_field_def literal_def

context blob_world
begin

lemma validate_dump_ref: "wf_ref r \<Longrightarrow> validate_ref env now (dump_ref env r) = Some r"
  by (auto simp: validate_ref_def dump_ref_def field_defs wf_ref_def int_accepted datetime_roundtrip)

lemma validate_dump_refs:
  "\<forall>r \<in> set rs. wf_ref r \<Longrightarrow> those (map (\<lambda>r. validate_ref env now (dump_ref env r)) rs) = Some rs"
  by (induction rs) (simp_all add: validate_dump_ref)

lemma validate_dump_manifest:
  "\<forall>r \<in> set (mf_chunks m). wf_ref r \<Longrightarrow> validate_manifest env now (dump_manifest env m) = Some m"
  by (simp add: validate_manifest_def dump_manifest_def field_defs int_accepted kind_field_value comp_def
      validate_dump_refs)

lemma validate_dump_chunk:
  "list_all json_value (ck_items c) \<Longrightarrow> validate_chunk env (dump_chunk env c) = Some c"
  by (simp add: validate_chunk_def dump_chunk_def field_defs int_accepted json_dump_values)


text \<open>Handles as the validators leave them: the type name is set, inline data is JSON.\<close>

lemma validate_dump_inline:
  "json_value v \<Longrightarrow> validate_stored_object env now (dump_stored env (new_inline v tn)) = Some (new_inline v tn)"
  by (simp add: validate_stored_object_def new_inline_def field_defs opt_str_def json_dump_value)

lemma validate_dump_external:
  "wf_ref r \<Longrightarrow> validate_stored_object env now (dump_stored env (ExternalObject r (Some tn))) = Some (ExternalObject r (Some tn))"
  by (simp add: validate_stored_object_def field_defs opt_str_def validate_dump_ref)

lemma validate_dump_collection:
  "wf_ref m \<Longrightarrow> validate_stored_object env now (dump_stored env (CollectionObject m n cs ek sv ix (Some tn))) =
     Some (CollectionObject m n cs ek sv ix (Some tn))"
  by (cases ix) (simp_all add: validate_stored_object_def field_defs opt_str_def opt_int_def validate_dump_ref
      int_accepted kind_field_value collection_set_typename_def)

end

section \<open>Slices\<close>

definition segment :: "'a list \<Rightarrow> nat \<Rightarrow> nat \<Rightarrow> 'a list" where
  "segment xs a b = take (b - a) (drop a xs)"

lemma segment_empty [simp]: "b \<le> a \<Longrightarrow> segment xs a b = []"
  by (simp add: segment_def)

lemma length_segment [simp]: "length (segment xs a b) = min (b - a) (length xs - a)"
  by (simp add: segment_def)

lemma segment_append: "a \<le> b \<Longrightarrow> b \<le> c \<Longrightarrow> segment xs a b @ segment xs b c = segment xs a c"
  using take_add [of "b - a" "c - b" "drop a xs"] by (simp add: segment_def)

lemma segment_seg: "segment (segment xs a b) p q = segment xs (a + p) (min b (a + q))"
proof -
  have "min (q - p) (b - a - p) = min b (a + q) - (a + p)" by simp
  then show ?thesis by (simp add: segment_def drop_take add.commute)
qed

lemma segment_all [simp]: "length xs \<le> b \<Longrightarrow> segment xs 0 b = xs"
  by (simp add: segment_def)

lemma nth_segment: "i < b - a \<Longrightarrow> a + i < length xs \<Longrightarrow> segment xs a b ! i = xs ! (a + i)"
  by (simp add: segment_def)

lemma py_slice_segment: "0 \<le> a \<Longrightarrow> 0 \<le> b \<Longrightarrow> py_slice xs a b = segment xs (nat a) (nat b)"
  by (auto simp: py_slice_def slice_bound_def segment_def Let_def min_def)

lemma segment_min_length: "segment xs a (min b (length xs)) = segment xs a b"
  by (simp add: segment_def min_def)

text \<open>The pages of consecutive chunks join to the slice.\<close>

lemma concat_chunk_segs:
  assumes "0 < K" and "a < length xs" and "\<forall>i < m. (a div K + i) * K < b"
  shows "concat (map (\<lambda>i. segment xs (max a (i * K)) (min b (Suc i * K))) [a div K..<a div K + m]) =
     segment xs a (if m = 0 then a else min b ((a div K + m) * K))"
  using assms(3)
proof (induction m)
  case step: (Suc m)
  let ?s = "a div K"
  have IH: "concat (map (\<lambda>i. segment xs (max a (i * K)) (min b (Suc i * K))) [?s..<?s + m]) =
     segment xs a (if m = 0 then a else min b ((?s + m) * K))" using step by simp
  have lo: "?s * K \<le> a" by simp
  have hi: "a < Suc ?s * K" using assms(1) by (simp add: dividend_less_div_times)
  show ?case
  proof (cases "m = 0")
    case True
    with lo show ?thesis by (simp add: max_absorb1)
  next
    case False
    then have "Suc ?s * K \<le> (?s + m) * K" by (intro mult_le_mono1) simp
    with hi have "a \<le> (?s + m) * K" by simp
    moreover have "(?s + m) * K < b" using step.prems by simp
    ultimately show ?thesis using IH False by (simp add: max_absorb2 min_absorb2 segment_append)
  qed
qed simp

lemma map_int_upt: "map int [a..<b] = [int a..int b - 1]"
  by (induction b) (auto simp: upto_rec2)

lemma concat_chunk_segs_upto:
  assumes "0 < K" and "a < length xs"
  shows "concat (map (\<lambda>i. segment xs (max a (nat i * K)) (min b (Suc (nat i) * K)))
       [int a div int K..(int b - 1) div int K]) = segment xs a b"
proof (cases "b \<le> a")
  case True
  then show ?thesis by (auto simp: min_def max_def)
next
  case False
  let ?s = "a div K" and ?t = "(b - 1) div K"
  have t: "(int b - 1) div int K = int ?t" using False by (simp add: zdiv_int of_nat_diff)
  have st: "?s \<le> ?t" using False by (intro div_le_mono) simp
  have "?t * K \<le> b - 1" by simp
  then have "?t * K < b" using False by linarith
  then have lt: "\<forall>i < Suc ?t - ?s. (?s + i) * K < b"
    using st by (metis Nat.add_diff_assoc add.commute le_SucI le_less_trans less_Suc_eq_le less_diff_conv mult_le_mono1)
  have up: "min b (Suc ?t * K) = b"
    using False assms(1) dividend_less_div_times [of K "b - 1"] by simp
  have "[int a div int K..int ?t] = map int [?s..<Suc ?t]"
    unfolding map_int_upt by (simp add: zdiv_int)
  with concat_chunk_segs [OF assms lt] st up show ?thesis
    unfolding t by (simp add: comp_def)
qed

lemma le_div_mult: "i \<le> x div c \<Longrightarrow> 0 < c \<Longrightarrow> i * c \<le> x" for c :: int
  using mult_right_mono [of i "x div c" c] pos_mod_sign [of c x] minus_mod_eq_div_mult [of x c] by linarith

lemma concat_chunk_segs_int:
  assumes "0 < cs" and "0 \<le> off" and "off < int (length xs)"
  shows "concat (map (\<lambda>i. segment xs (max (nat off) (nat i * nat cs)) (min (nat e) (Suc (nat i) * nat cs)))
       [off div cs..(e - 1) div cs]) = segment xs (nat off) (nat e)"
proof (cases "0 \<le> e")
  case True
  have "0 < nat cs" "nat off < length xs" using assms by auto
  from concat_chunk_segs_upto [OF this, of "nat e"] True assms show ?thesis by simp
next
  case False
  then have "(e - 1) div cs < 0" using assms(1) by (simp add: pos_imp_zdiv_neg_iff)
  moreover have "0 \<le> off div cs" using assms by (simp add: pos_imp_zdiv_nonneg_iff)
  ultimately show ?thesis using False by simp
qed

section \<open>Reading back\<close>

definition chunk_of :: "pyval list \<Rightarrow> int \<Rightarrow> nat \<Rightarrow> chunk" where
  "chunk_of items cs i =
     \<lparr>ck_version = 1, ck_start = int i * cs,
      ck_items = py_slice items (int i * cs) (min (int i * cs + cs) (int (length items)))\<rparr>"

text \<open>A collection handle whose manifest and chunks are in the buckets.\<close>

definition collection_held ::
  "'w storage_env \<Rightarrow> (string \<times> string \<Rightarrow> bytes option) \<Rightarrow> stored_object \<Rightarrow> element_kind \<Rightarrow> pyval list \<Rightarrow> bool"
where
  "collection_held env C coll ek items \<longleftrightarrow>
     (\<exists>mref cs ix refs. coll = CollectionObject mref (int (length items)) cs ek 1 ix (Some ''list'') \<and> 0 < cs \<and>
        int (length items) \<le> int (length refs) * cs \<and>
        held env C mref (dump_manifest env \<lparr>mf_version = 1, mf_count = int (length items), mf_chunk_size = cs,
          mf_kind = ek, mf_chunks = refs\<rparr>) \<and>
        (\<forall>i < length refs. held env C (refs ! i) (dump_chunk env (chunk_of items cs i))) \<and>
        list_all json_value items)"

lemma chunk_items_segment:
  "0 < cs \<Longrightarrow> ck_items (chunk_of items cs i) = segment items (i * nat cs) (Suc i * nat cs)"
proof -
  assume "0 < cs"
  then obtain K where K: "cs = int K" by (metis nonneg_int_cases order_less_imp_le)
  have "min (int i * int K + int K) (int (length items)) = int (min (Suc i * K) (length items))"
    by (simp add: algebra_simps of_nat_min)
  then show ?thesis
    by (simp add: K chunk_of_def py_slice_segment segment_min_length flip: of_nat_mult)
qed

lemma chunk_items_json: "list_all json_value items \<Longrightarrow> 0 < cs \<Longrightarrow> list_all json_value (ck_items (chunk_of items cs i))"
  by (auto simp: chunk_items_segment segment_def list_all_iff dest!: in_set_takeD in_set_dropD)

lemma local_slice:
  assumes "int p < e" and "0 \<le> off"
  shows "py_slice (segment xs p q) (max 0 (off - int p)) (min (int (length (segment xs p q))) (e - int p)) =
     segment xs (max (nat off) p) (min (nat e) q)"
proof -
  obtain a b where ab: "off = int a" "e = int b" "p < b"
    using assms by (metis nonneg_int_cases of_nat_0_le_iff of_nat_less_iff order_le_less_trans order_less_imp_le)
  have bounds: "nat (max 0 (int a - int p)) = a - p"
    "nat (min (int (length (segment xs p q))) (int b - int p)) = min (b - p) (length (segment xs p q))"
    using ab(3) by arith+
  have nonneg: "0 \<le> max 0 (int a - int p)" "0 \<le> min (int (length (segment xs p q))) (int b - int p)"
    using ab(3) by simp_all
  have "py_slice (segment xs p q) (max 0 (off - int p)) (min (int (length (segment xs p q))) (e - int p)) =
     segment (segment xs p q) (a - p) (b - p)"
    unfolding ab(1,2) py_slice_segment [OF nonneg] bounds segment_min_length ..
  with ab(3) show ?thesis by (simp add: ab(1,2) segment_seg max_def min_def)
qed

text \<open>What a page is: the elements from the offset on, at most \<open>limit\<close> of them.\<close>

definition page_of :: "'a list \<Rightarrow> int \<Rightarrow> int option \<Rightarrow> 'a list" where
  "page_of xs offset limit =
     (case limit of None \<Rightarrow> drop (nat offset) xs | Some l \<Rightarrow> take (nat l) (drop (nat offset) xs))"

lemma page_of_rel: "list_all2 P xs ys \<Longrightarrow> list_all2 P (page_of xs off limit) (page_of ys off limit)"
  by (auto simp: page_of_def intro: list_all2_takeI list_all2_dropI split: option.split)

lemma page_of_segment:
  assumes "0 \<le> off" and "off < int (length xs)"
    and "e = min (off + (case limit of None \<Rightarrow> int (length xs) - off | Some l \<Rightarrow> l)) (int (length xs))"
  shows "segment xs (nat off) (nat e) = page_of xs off limit"
proof (cases limit)
  case None
  with assms show ?thesis by (simp add: page_of_def segment_def nat_diff_distrib)
next
  case (Some l)
  have "nat e - nat off = min (nat l) (length xs - nat off)" using assms Some by auto
  then have "segment xs (nat off) (nat e) = take (min (nat l) (length (drop (nat off) xs))) (drop (nat off) xs)"
    by (simp add: segment_def)
  with Some show ?thesis by (simp add: page_of_def min_def)
qed

text \<open>A handle of a single value, and an element of a collection with the value it stands for.\<close>

definition handle_held :: "'w storage_env \<Rightarrow> (string \<times> string \<Rightarrow> bytes option) \<Rightarrow> stored_object \<Rightarrow> pyval \<Rightarrow> bool" where
  "handle_held env C obj v \<longleftrightarrow>
     obj = new_inline v None \<and> json_value v \<or>
     (\<exists>r tn. obj = ExternalObject r (Some tn) \<and> held env C r v)"

definition element_held :: "'w storage_env \<Rightarrow> (string \<times> string \<Rightarrow> bytes option) \<Rightarrow> element_kind \<Rightarrow> pyval \<Rightarrow> pyval \<Rightarrow> bool" where
  "element_held env C ek item v \<longleftrightarrow>
     (case ek of
        KindValue \<Rightarrow> item = v
      | KindStoredObject \<Rightarrow> \<exists>obj. item = dump_stored env obj \<and> handle_held env C obj v)"

lemma element_held_value: "element_held env C KindValue = (=)"
  by (simp add: fun_eq_iff element_held_def)

lemma held_mono: "held env C r v \<Longrightarrow> C \<subseteq>\<^sub>m C' \<Longrightarrow> held env C' r v"
  by (force simp: held_def map_le_def dom_def)

lemma collection_held_mono: "collection_held env C coll ek items \<Longrightarrow> C \<subseteq>\<^sub>m C' \<Longrightarrow> collection_held env C' coll ek items"
  unfolding collection_held_def by (elim exE conjE, intro exI conjI) (auto intro: held_mono)

lemma element_held_mono: "element_held env C ek item v \<Longrightarrow> C \<subseteq>\<^sub>m C' \<Longrightarrow> element_held env C' ek item v"
  unfolding element_held_def handle_held_def by (cases ek) (auto intro: held_mono)

lemma page_of_all [simp]: "page_of xs 0 None = xs"
  by (simp add: page_of_def)

context reliable_world
begin

lemma yields_verified_download [yields_intros]:
  assumes "held env C r v"
  shows "yields (settled env content cached C) (verified_download env what r) v"
  unfolding yields_def
proof (intro allI impI)
  fix w assume w: "settled env content cached C w"
  from assms obtain c where c: "C (bucket r, object_key r) = Some c" "sha256 r = sha256_hex env c"
    "orjson_loads env c = Inr v" by (auto simp: held_def)
  with w obtain w' where "cached_blob_download env (sha256_hex env c) (bucket r) (object_key r) w = (Inr c, w')"
    and "content w' = content w" and "coherent env content cached w'" using cached_download [of w] by metis
  with w c show "\<exists>w'. verified_download env what r w = (Inr v, w') \<and> settled env content cached C w'"
    by (simp add: verified_download_def io_bind_Inr compute_sha256_def deserialize_object_def io_simps)
qed

lemma yields_fetch_manifest [yields_intros]:
  assumes "held env C r (dump_manifest env m)" and "\<forall>r \<in> set (mf_chunks m). wf_ref r"
  shows "yields (settled env content cached C) (fetch_manifest env r) m"
  unfolding fetch_manifest_def
  by (rule yields_bind, rule yields_verified_download, rule assms(1))
     (simp add: yields_def validated_def validate_dump_manifest assms(2) io_simps)

lemma yields_fetch_chunk [yields_intros]:
  assumes "held env C r (dump_chunk env c)" and "list_all json_value (ck_items c)"
  shows "yields (settled env content cached C) (fetch_chunk env r) c"
  unfolding fetch_chunk_def
  by (rule yields_bind, rule yields_verified_download, rule assms(1))
     (simp add: validated_def validate_dump_chunk assms(2))


lemma yields_page_chunk:
  assumes "\<forall>i < length (mf_chunks m). held env C (mf_chunks m ! i) (dump_chunk env (chunk_of items cs i))"
    and "list_all json_value items" and "0 < cs" and "int (length items) \<le> int (length (mf_chunks m)) * cs"
    and "0 \<le> i" and "i * cs < e" and "e \<le> int (length items)" and "0 \<le> off"
  shows "yields (settled env content cached C) (page_chunk env m cs off e i)
     (segment items (max (nat off) (nat i * nat cs)) (min (nat e) (Suc (nat i) * nat cs)))"
proof -
  obtain j K where j: "i = int j" and K: "cs = int K" "0 < K"
    using assms by (metis nonneg_int_cases order_less_imp_le of_nat_0_less_iff)
  have "i * cs < int (length (mf_chunks m)) * cs" using assms by linarith
  then have len: "j < length (mf_chunks m)" using \<open>0 < cs\<close> j by simp
  let ?c = "chunk_of items cs j" and ?r = "mf_chunks m ! j"
  have ref: "chunk_ref m i = io_return ?r"
    using len j by (simp add: chunk_ref_def py_nth_def)
  have fetch: "yields (settled env content cached C) (fetch_chunk env ?r) ?c"
    using assms len by (intro yields_fetch_chunk chunk_items_json) auto
  have items: "ck_items ?c = segment items (j * K) (Suc j * K)" using chunk_items_segment [OF \<open>0 < cs\<close>] K by simp
  have "py_slice (ck_items ?c) (max 0 (off - i * cs)) (min (int (length (ck_items ?c))) (e - i * cs)) =
    segment items (max (nat off) (nat i * nat cs)) (min (nat e) (Suc (nat i) * nat cs))"
    unfolding items using local_slice [of "j * K" e off items "Suc j * K"] assms j K by simp
  then show ?thesis
    unfolding page_chunk_def Let_def ref io_bind_return by (intro yields_bind [OF fetch]) simp
qed


lemma collection_heldE:
  assumes "collection_held env C coll ek items"
  obtains mref cs ix m where
    "coll = CollectionObject mref (int (length items)) cs ek 1 ix (Some ''list'')" and "0 < cs"
    and "int (length items) \<le> int (length (mf_chunks m)) * cs"
    and "\<forall>i < length (mf_chunks m). held env C (mf_chunks m ! i) (dump_chunk env (chunk_of items cs i))"
    and "list_all json_value items"
    and "yields (settled env content cached C) (fetch_manifest env mref) m"
proof -
  from assms obtain mref cs ix refs where
    c: "coll = CollectionObject mref (int (length items)) cs ek 1 ix (Some ''list'')" "0 < cs"
      "int (length items) \<le> int (length refs) * cs"
      "held env C mref (dump_manifest env \<lparr>mf_version = 1, mf_count = int (length items), mf_chunk_size = cs,
         mf_kind = ek, mf_chunks = refs\<rparr>)"
      "\<forall>i < length refs. held env C (refs ! i) (dump_chunk env (chunk_of items cs i))"
      "list_all json_value items"
    by (auto simp: collection_held_def)
  then have "\<forall>r \<in> set refs. wf_ref r" by (auto simp: held_def in_set_conv_nth)
  with c that show ?thesis by (metis (no_types, lifting) manifest.select_convs(5) yields_fetch_manifest)
qed

lemma yields_page [yields_intros]:
  assumes held: "collection_held env C coll ek items" and off: "0 \<le> off"
  shows "yields (settled env content cached C) (get_collection_page env coll off limit) (page_of items off limit)"
proof -
  from held obtain mref cs ix m where
    coll: "coll = CollectionObject mref (int (length items)) cs ek 1 ix (Some ''list'')" and cs: "0 < cs"
    and cover: "int (length items) \<le> int (length (mf_chunks m)) * cs"
    and chunks: "\<forall>i < length (mf_chunks m). held env C (mf_chunks m ! i) (dump_chunk env (chunk_of items cs i))"
    and json: "list_all json_value items"
    and fetch: "yields (settled env content cached C) (fetch_manifest env mref) m"
    by (rule collection_heldE)
  consider "int (length items) \<le> off" | "limit = Some 0" | "off < int (length items)" "limit \<noteq> Some 0" by linarith
  then show ?thesis
  proof cases
    case 3
    let ?e = "min (off + (case limit of None \<Rightarrow> int (length items) - off | Some l \<Rightarrow> l)) (int (length items))"
    let ?page = "\<lambda>i. segment items (max (nat off) (nat i * nat cs)) (min (nat ?e) (Suc (nat i) * nat cs))"
    let ?idx = "[off div cs..(?e - 1) div cs]"
    have idx: "0 \<le> i \<and> i * cs < ?e" if "i \<in> set ?idx" for i
    proof -
      from that have "off div cs \<le> i" "i \<le> (?e - 1) div cs" by auto
      moreover have "0 \<le> off div cs" using off cs by (simp add: pos_imp_zdiv_nonneg_iff)
      moreover have "i * cs \<le> ?e - 1" using \<open>i \<le> (?e - 1) div cs\<close> cs by (intro le_div_mult)
      ultimately show ?thesis by linarith
    qed
    have "yields (settled env content cached C) (io_map (page_chunk env m cs off ?e) ?idx) (map ?page ?idx)"
      by (rule yields_map, rule yields_page_chunk [OF chunks json cs cover]) (use idx off in auto)
    moreover have "concat (map ?page ?idx) = page_of items off limit"
      using concat_chunk_segs_int [OF cs off 3(1), of ?e] page_of_segment [OF off 3(1) refl, of limit] by simp
    ultimately show ?thesis
      using 3 off cs
      by (auto simp: coll get_collection_page_def Let_def intro!: yields_bind [OF fetch] yields_bind)
  qed (use off in \<open>auto simp: coll get_collection_page_def page_of_def split: option.split\<close>)
qed


lemma yields_chunk_item:
  assumes chunks: "\<forall>i < length (mf_chunks m). held env C (mf_chunks m ! i) (dump_chunk env (chunk_of items cs i))"
    and cover: "int (length items) \<le> int (length (mf_chunks m)) * cs" and cs: "0 < cs"
    and json: "list_all json_value items" and j: "j < length items"
  shows "yields (settled env content cached C)
     (io_bind (chunk_ref m (int j div cs)) (\<lambda>r. fetch_chunk_item env r (int j mod cs))) (items ! j)"
proof -
  obtain K where K: "cs = int K" "0 < K" using cs by (metis nonneg_int_cases of_nat_0_less_iff order_less_imp_le)
  let ?i = "j div K" and ?l = "j mod K"
  have "?i * K \<le> j" by simp
  with j cover K have "?i * K < length (mf_chunks m) * K"
    by (metis le_less_trans less_le_trans of_nat_le_iff of_nat_mult)
  then have i: "?i < length (mf_chunks m)" by simp
  let ?r = "mf_chunks m ! ?i" and ?c = "chunk_of items cs ?i"
  have ref: "chunk_ref m (int j div cs) = io_return ?r"
    using i by (simp add: chunk_ref_def py_nth_def K flip: zdiv_int)
  have items: "ck_items ?c = segment items (?i * K) (Suc ?i * K)" using chunk_items_segment [OF cs] K by simp
  have jl: "?i * K + ?l = j" "?l < K" using K by simp_all
  then have "?l < length items - ?i * K" using j by linarith
  with jl have "?l < length (ck_items ?c)" unfolding items by simp
  moreover have "ck_items ?c ! ?l = items ! j"
    using jl j unfolding items by (subst nth_segment) simp_all
  moreover have "int j mod cs = int ?l" using K by (simp add: zmod_int)
  moreover have "yields (settled env content cached C) (fetch_chunk env ?r) ?c"
    using chunks i json cs by (intro yields_fetch_chunk chunk_items_json) auto
  ultimately show ?thesis
    unfolding ref io_bind_return fetch_chunk_item_def by (auto intro!: yields_bind)
qed

lemma yields_handle:
  "handle_held env C obj v \<Longrightarrow> yields (settled env content cached C) (retrieve_stored_object env (Suc d) obj) v"
  by (auto simp: handle_held_def new_inline_def s3_retrieve_def held_def wf_ref_def
      intro!: yields_verified_download)

lemma yields_element:
  assumes "element_held env C KindStoredObject item v"
  shows "yields (settled env content cached C)
     (io_bind (stored_of env item) (retrieve_stored_object env (Suc d))) v"
proof -
  from assms obtain obj where item: "item = dump_stored env obj" and obj: "handle_held env C obj v"
    by (auto simp: element_held_def)
  have "validate_stored_object env now item = Some obj" for now
    using obj unfolding item handle_held_def held_def by (metis validate_dump_inline validate_dump_external)
  then have "yields (settled env content cached C) (stored_of env item) obj"
    by (simp add: yields_def stored_of_def validated_def io_simps)
  then show ?thesis using yields_handle [OF obj] by (rule yields_bind)
qed


lemma yields_item:
  assumes held: "collection_held env C coll ek items"
    and j: "norm_index (length items) i = Some j" and elem: "element_held env C ek (items ! j) v"
  shows "yields (settled env content cached C) (get_collection_item env (retrieve_stored_object env (Suc d)) coll i) v"
proof -
  from held obtain mref cs ix m where
    coll: "coll = CollectionObject mref (int (length items)) cs ek 1 ix (Some ''list'')" and cs: "0 < cs"
    and cover: "int (length items) \<le> int (length (mf_chunks m)) * cs"
    and chunks: "\<forall>i < length (mf_chunks m). held env C (mf_chunks m ! i) (dump_chunk env (chunk_of items cs i))"
    and json: "list_all json_value items"
    and fetch: "yields (settled env content cached C) (fetch_manifest env mref) m"
    by (rule collection_heldE)
  have idx: "(if i < 0 then int (length items) + i else i) = int j" and jl: "j < length items"
    using j by (auto simp: norm_index_def Let_def split: if_splits)
  have item: "yields (settled env content cached C)
      (io_bind (chunk_ref m (int j div cs)) (\<lambda>r. fetch_chunk_item env r (int j mod cs))) (items ! j)"
    using chunks cover cs json jl by (rule yields_chunk_item)
  let ?tail = "\<lambda>v. if ek = KindValue then io_return v else io_bind (stored_of env v) (retrieve_stored_object env (Suc d))"
  have "get_collection_item env (retrieve_stored_object env (Suc d)) coll i = io_bind (fetch_manifest env mref) (\<lambda>m.
      io_bind (chunk_ref m (int j div cs)) (\<lambda>r. io_bind (fetch_chunk_item env r (int j mod cs)) ?tail))"
    using idx jl cs by (simp add: coll get_collection_item_def Let_def)
  moreover have "yields (settled env content cached C) (?tail (items ! j)) v"
    using elem yields_element [of C "items ! j" v d] by (cases ek) (simp_all add: element_held_def)
  then have "yields (settled env content cached C)
      (io_bind (chunk_ref m (int j div cs)) (\<lambda>r. io_bind (fetch_chunk_item env r (int j mod cs)) ?tail)) v"
    by (rule yields_bind2 [OF item])
  ultimately show ?thesis using yields_bind [OF fetch] by simp
qed

lemma yields_materialize:
  assumes held: "collection_held env C coll ek items" and off: "0 \<le> off"
    and elems: "list_all2 (element_held env C ek) items vs"
  shows "yields (settled env content cached C)
     (materialize_collection_values env (retrieve_stored_object env (Suc d)) coll off limit) (page_of vs off limit)"
proof (cases ek)
  case KindValue
  with elems have "vs = items" using list_all2_eq by (metis element_held_value)
  moreover from held KindValue have "(case coll of CollectionObject _ _ _ ek _ _ _ \<Rightarrow> ek = KindValue | _ \<Rightarrow> False)"
    by (auto simp: collection_held_def)
  ultimately show ?thesis
    unfolding materialize_collection_values_def by (auto intro!: yields_bind [OF yields_page [OF held off]])
next
  case KindStoredObject
  with held have "\<not> (case coll of CollectionObject _ _ _ ek _ _ _ \<Rightarrow> ek = KindValue | _ \<Rightarrow> False)"
    by (auto simp: collection_held_def)
  moreover have "yields (settled env content cached C)
      (io_map (\<lambda>v. io_bind (stored_of env v) (retrieve_stored_object env (Suc d))) (page_of items off limit))
      (page_of vs off limit)"
    by (rule yields_map2, rule list_all2_mono [OF page_of_rel [OF elems]])
       (use KindStoredObject in \<open>auto intro: yields_element\<close>)
  ultimately show ?thesis
    unfolding materialize_collection_values_def by (auto intro!: yields_bind [OF yields_page [OF held off]])
qed


lemma yields_collection:
  assumes "collection_held env C coll ek items" and "list_all2 (element_held env C ek) items vs"
    and "coll = CollectionObject m n cs ek 1 None (Some ''list'')"
  shows "yields (settled env content cached C) (retrieve_stored_object env (Suc (Suc d)) coll) (VList vs)"
    and "yields (settled env content cached C) (s3_retrieve env (retrieve_stored_object env (Suc d)) coll) (VList vs)"
proof -
  have "backend m = ''s3''"
    using assms(1,3) by (auto simp: collection_held_def held_def wf_ref_def)
  moreover show "yields (settled env content cached C) (s3_retrieve env (retrieve_stored_object env (Suc d)) coll) (VList vs)"
    using yields_materialize [OF assms(1) order_refl assms(2), of d None] assms(3)
    by (auto simp: s3_retrieve_def intro!: yields_bind)
  ultimately show "yields (settled env content cached C) (retrieve_stored_object env (Suc (Suc d)) coll) (VList vs)"
    using assms(3) by simp
qed

end

section \<open>Writing\<close>

lemma chunk_key_inj: "chunk_key prefix i = chunk_key prefix j \<longleftrightarrow> i = j"
  by (simp add: chunk_key_def)

lemma chunk_key_manifest: "chunk_key prefix i \<noteq> manifest_key prefix"
  by (simp add: chunk_key_def manifest_key_def)

lemma num_chunks_cover:
  assumes "num_chunks n cs = Inr m" and "0 \<le> n" and "0 < cs"
  shows "n \<le> int m * cs"
proof (cases "0 < n")
  case True
  with assms(1,3) have m: "m = nat (- (- n div cs))" by (simp add: num_chunks_def)
  have "(- n div cs) * cs \<le> - n" using assms(3) by (intro le_div_mult) simp_all
  then have "n \<le> - (- n div cs) * cs" by simp
  also have "\<dots> \<le> int (nat (- (- n div cs))) * cs" using assms(3) by (intro mult_right_mono) simp_all
  finally show ?thesis unfolding m .
qed (use assms in \<open>simp add: num_chunks_def\<close>)

text \<open>The keys a stored collection occupies.\<close>

definition collection_keys :: "string \<Rightarrow> string set" where
  "collection_keys prefix = insert (manifest_key prefix) (range (chunk_key prefix))"

context blob_world
begin

lemma upload_json_held:
  assumes "upload_json env b k v w = (Inr r, w')" and "json_value v"
  obtains c where "content w' = (content w)((b, k) \<mapsto> c)" and "cached w' \<subseteq>\<^sub>m cached w"
    and "held env (content w') r v" and "bucket r = b" and "object_key r = k"
proof -
  from assms(1) obtain c where c: "orjson_dumps env v = Inr c" "s3_put_object env b k c w = (Inr (), w')"
    and r: "r = new_ref env b k c w'"
    by (auto simp: upload_json_def io_bind_eq_Inr io_lift_eq_Inr serialize_object_def upload_file_def)
  from put_object [OF c(2)] have "content w' = (content w)((b, k) \<mapsto> c)" "cached w' \<subseteq>\<^sub>m cached w" by simp_all
  with json_roundtrip [OF assms(2) c(1)] r that show ?thesis
    by (auto simp: held_def new_ref_def wf_ref_def compute_sha256_def)
qed

lemma store_chunks_held:
  assumes "io_map (store_chunk env b prefix items cs) [0..<n] w = (Inr refs, w')"
    and "list_all json_value items" and "0 < cs"
  shows "length refs = n \<and>
     (\<forall>i < n. held env (content w') (refs ! i) (dump_chunk env (chunk_of items cs i)) \<and>
              bucket (refs ! i) = b \<and> object_key (refs ! i) = chunk_key prefix i) \<and>
     (\<forall>bk. snd bk \<notin> range (chunk_key prefix) \<longrightarrow> content w' bk = content w bk) \<and> cached w' \<subseteq>\<^sub>m cached w"
  using assms(1)
proof (induction n arbitrary: refs w')
  case 0
  then show ?case by (simp add: io_simps)
next
  case (Suc n)
  from Suc.prems obtain refs1 w1 r where
    pre: "io_map (store_chunk env b prefix items cs) [0..<n] w = (Inr refs1, w1)"
    and last: "store_chunk env b prefix items cs n w1 = (Inr r, w')" and refs: "refs = refs1 @ [r]"
    by (auto simp: io_map_snoc io_bind_eq_Inr io_simps)
  have "upload_json env b (chunk_key prefix n) (dump_chunk env (chunk_of items cs n)) w1 = (Inr r, w')"
    using last by (simp add: store_chunk_def chunk_of_def Let_def)
  then obtain c where w': "content w' = (content w1)((b, chunk_key prefix n) \<mapsto> c)"
    and cache: "cached w' \<subseteq>\<^sub>m cached w1" and r: "held env (content w') r (dump_chunk env (chunk_of items cs n))" "bucket r = b" "object_key r = chunk_key prefix n"
    using chunk_items_json [OF assms(2,3)] by (elim upload_json_held) (auto intro: json_dump_chunk)
  note IH = Suc.IH [OF pre]
  have keep: "held env (content w') (refs1 ! i) v \<longleftrightarrow> held env (content w1) (refs1 ! i) v" if "i < n" for i v
    using IH that w' by (intro held_cong) (simp add: chunk_key_inj)
  have "held env (content w') (refs ! i) (dump_chunk env (chunk_of items cs i)) \<and>
      bucket (refs ! i) = b \<and> object_key (refs ! i) = chunk_key prefix i" if "i < Suc n" for i
    using that IH keep r by (cases "i = n") (simp_all add: refs nth_append)
  moreover have "content w' bk = content w bk" if "snd bk \<notin> range (chunk_key prefix)" for bk
    using that IH unfolding w' by (cases bk) auto
  moreover have "cached w' \<subseteq>\<^sub>m cached w" using IH cache by (blast intro: map_le_trans)
  ultimately show ?case using IH refs by simp
qed

lemma store_collection_held:
  assumes "store_collection env prefix items ek csize bkt w = (Inr coll, w')"
    and "list_all json_value items" and "0 < int_or csize (collection_chunk_size env)"
  shows "collection_held env (content w') coll ek items"
    and "snd bk \<notin> collection_keys prefix \<Longrightarrow> content w' bk = content w bk"
    and "cached w' \<subseteq>\<^sub>m cached w"
    and "\<exists>m n cs. coll = CollectionObject m n cs ek 1 None (Some ''list'')"
proof -
  define cs where "cs = int_or csize (collection_chunk_size env)"
  define b where "b = (case bkt of None \<Rightarrow> workflow_bucket env | Some s \<Rightarrow> if s = [] then workflow_bucket env else s)"
  let ?mf = "\<lambda>refs. \<lparr>mf_version = 1, mf_count = int (length items), mf_chunk_size = cs, mf_kind = ek, mf_chunks = refs\<rparr>"
  from assms(1) obtain n w1 refs w2 mref where n: "num_chunks (int (length items)) cs = Inr n"
    and bucket: "ensure_bucket_exists env b w = (Inr (), w1)"
    and chunks: "io_map (store_chunk env b prefix items cs) [0..<n] w1 = (Inr refs, w2)"
    and mf: "upload_json env b (manifest_key prefix) (dump_manifest env (?mf refs)) w2 = (Inr mref, w')"
    and coll: "coll = CollectionObject mref (int (length items)) cs ek 1 None (Some ''list'')"
    by (auto simp: store_collection_def Let_def io_bind_eq_Inr io_lift_eq_Inr io_simps cs_def b_def)
  have w1: "content w1 = content w" "cached w1 \<subseteq>\<^sub>m cached w"
    using ensure_bucket_untouched [of w b] bucket by (simp_all add: untouched_def)
  have cs: "0 < cs" using assms(3) by (simp add: cs_def)
  note st = store_chunks_held [OF chunks assms(2) cs]
  from mf json_dump_manifest obtain c where w': "content w' = (content w2)((b, manifest_key prefix) \<mapsto> c)"
    and cache: "cached w' \<subseteq>\<^sub>m cached w2" and mref: "held env (content w') mref (dump_manifest env (?mf refs))" by (rule upload_json_held)
  have "held env (content w') (refs ! i) v \<longleftrightarrow> held env (content w2) (refs ! i) v" if "i < n" for i v
    using st that w' by (intro held_cong) (simp add: chunk_key_manifest)
  with st mref coll cs assms(2) num_chunks_cover [OF n _ cs] show "collection_held env (content w') coll ek items"
    by (auto simp: collection_held_def)
  show "snd bk \<notin> collection_keys prefix \<Longrightarrow> content w' bk = content w bk"
    using st w' w1 by (cases bk) (auto simp: collection_keys_def)
  show "cached w' \<subseteq>\<^sub>m cached w" using st w1 cache by (blast intro: map_le_trans)
  show "\<exists>m n cs. coll = CollectionObject m n cs ek 1 None (Some ''list'')" using coll by blast
qed

end

end
