(* ===== verification/Storage_Memory.thy ===== *)
theory Storage_Memory
  imports Storage_Collection
begin

text \<open>
  A concrete storage world, on which the laws of \<open>blob_world\<close> and \<open>reliable_world\<close> hold: buckets and
  cache as association lists, a prefix code for JSON values in the place of orjson, and downloads of
  which only every third attempt gets through.
\<close>

section \<open>A code for JSON values\<close>

definition enc_list :: "('a \<Rightarrow> string) \<Rightarrow> 'a list \<Rightarrow> string" where
  "enc_list e xs = concat (map (\<lambda>x. CHR ''1'' # e x) xs) @ ''0''"

lemma enc_list_cong [fundef_cong]:
  "xs = ys \<Longrightarrow> (\<And>x. x \<in> set ys \<Longrightarrow> e x = e' x) \<Longrightarrow> enc_list e xs = enc_list e' ys"
  by (auto simp: enc_list_def intro!: arg_cong [of _ _ concat])

fun dec_list :: "nat \<Rightarrow> (string \<Rightarrow> ('a \<times> string) option) \<Rightarrow> string \<Rightarrow> ('a list \<times> string) option" where
  "dec_list (Suc n) p (c # s) =
     (if c = CHR ''1''
      then do { (x, s') \<leftarrow> p s; (xs, s'') \<leftarrow> dec_list n p s'; Some (x # xs, s'') }
      else if c = CHR ''0'' then Some ([], s) else None)"
| "dec_list _ _ _ = None"

definition enc_char :: "char \<Rightarrow> string" where
  "enc_char c = [c]"

definition dec_char :: "string \<Rightarrow> (char \<times> string) option" where
  "dec_char s = (case s of [] \<Rightarrow> None | c # s' \<Rightarrow> Some (c, s'))"

fun encodable :: "pyval \<Rightarrow> bool" where
  "encodable (VList vs) = list_all encodable vs"
| "encodable (VDict d) = list_all (\<lambda>(k, v). encodable v) d"
| "encodable (VFloat _) = False"
| "encodable (VStored _) = False"
| "encodable _ = True"

fun enc :: "pyval \<Rightarrow> string" where
  "enc VNone = ''n''"
| "enc (VBool b) = (if b then ''t'' else ''f'')"
| "enc (VInt i) = (if i < 0 then ''-'' else ''+'') @ enc_list (\<lambda>_. []) (replicate (nat \<bar>i\<bar>) ())"
| "enc (VStr s) = ''s'' @ enc_list enc_char s"
| "enc (VList vs) = ''l'' @ enc_list enc vs"
| "enc (VDict d) = ''d'' @ enc_list (\<lambda>(k, v). enc_list enc_char k @ enc v) d"
| "enc _ = []"

fun dec :: "nat \<Rightarrow> string \<Rightarrow> (pyval \<times> string) option" where
  "dec (Suc n) (c # s) =
     (if c = CHR ''n'' then Some (VNone, s)
      else if c = CHR ''t'' then Some (VBool True, s)
      else if c = CHR ''f'' then Some (VBool False, s)
      else if c = CHR ''-'' then do { (xs, s') \<leftarrow> dec_list (Suc n) (\<lambda>s. Some ((), s)) s; Some (VInt (- int (length xs)), s') }
      else if c = CHR ''+'' then do { (xs, s') \<leftarrow> dec_list (Suc n) (\<lambda>s. Some ((), s)) s; Some (VInt (int (length xs)), s') }
      else if c = CHR ''s'' then do { (xs, s') \<leftarrow> dec_list (Suc n) dec_char s; Some (VStr xs, s') }
      else if c = CHR ''l'' then do { (vs, s') \<leftarrow> dec_list (Suc n) (dec n) s; Some (VList vs, s') }
      else if c = CHR ''d''
      then do { (d, s') \<leftarrow> dec_list (Suc n) (\<lambda>s. do {
                  (k, s1) \<leftarrow> dec_list (Suc n) dec_char s; (v, s2) \<leftarrow> dec n s1; Some ((k, v), s2) }) s;
                Some (VDict d, s') }
      else None)"
| "dec _ _ = None"

lemma dec_enc_list:
  assumes "\<And>x r. x \<in> set xs \<Longrightarrow> p (e x @ r) = Some (x, r)" and "length xs < n"
  shows "dec_list n p (enc_list e xs @ r) = Some (xs, r)"
  using assms
proof (induction xs arbitrary: n)
  case Nil
  then show ?case by (cases n) (simp_all add: enc_list_def)
next
  case (Cons x xs)
  then obtain m where "n = Suc m" "length xs < m" by (cases n) (auto split: if_splits)
  with Cons.IH [of m] Cons.prems(1) show ?case by (simp add: enc_list_def)
qed

lemma length_enc_list: "x \<in> set xs \<Longrightarrow> length (e x) < length (enc_list e xs)" "length xs < length (enc_list e xs)"
  by (induction xs) (auto simp: enc_list_def)

lemma dec_enc: "encodable v \<Longrightarrow> length (enc v) \<le> n \<Longrightarrow> dec n (enc v @ r) = Some (v, r)"
proof (induction v arbitrary: n r rule: enc.induct)
  case (3 i)
  then obtain m where n: "n = Suc m" by (cases n) (auto split: if_splits)
  have "dec_list n (\<lambda>s. Some ((), s)) (enc_list (\<lambda>_. []) (replicate (nat \<bar>i\<bar>) ()) @ r) = Some (replicate (nat \<bar>i\<bar>) (), r)"
    using 3 length_enc_list(2) [of "replicate (nat \<bar>i\<bar>) ()" "\<lambda>_. []"] by (intro dec_enc_list) auto
  then show ?case by (cases "i < 0") (simp_all add: n)
next
  case (4 s)
  then obtain m where n: "n = Suc m" by (cases n) (auto split: if_splits)
  have "dec_list n dec_char (enc_list enc_char s @ r) = Some (s, r)"
    using 4 length_enc_list(2) [of s enc_char] by (intro dec_enc_list) (auto simp: dec_char_def enc_char_def)
  then show ?case by (simp add: n)
next
  case (5 vs)
  then obtain m where n: "n = Suc m" by (cases n) (auto split: if_splits)
  have "dec_list n (dec m) (enc_list enc vs @ r) = Some (vs, r)"
  proof (rule dec_enc_list)
    show "dec m (enc x @ r) = Some (x, r)" if "x \<in> set vs" for x r
      using 5 that n length_enc_list(1) [of x vs enc] by (intro "5.IH") (auto simp: list_all_iff)
    show "length vs < n" using "5.prems" length_enc_list(2) [of vs enc] by simp
  qed
  then show ?case by (simp add: n)
next
  case (6 d)
  then obtain m where n: "n = Suc m" by (cases n) (auto split: if_splits)
  let ?e = "\<lambda>(k, v). enc_list enc_char k @ enc v"
  let ?p = "\<lambda>s. do { (k, s1) \<leftarrow> dec_list (Suc m) dec_char s; (v, s2) \<leftarrow> dec m s1; Some ((k, v), s2) }"
  have "dec_list n ?p (enc_list ?e d @ r) = Some (d, r)"
  proof (rule dec_enc_list)
    show "?p (?e x @ r) = Some (x, r)" if x: "x \<in> set d" for x r
    proof -
      obtain k v where kv: "x = (k, v)" by fastforce
      have len: "length (enc_list enc_char k) + length (enc v) \<le> m"
        using 6 x kv n length_enc_list(1) [of x d ?e] by simp
      have "dec_list (Suc m) dec_char (enc_list enc_char k @ enc v @ r) = Some (k, enc v @ r)"
        using len length_enc_list(2) [of k enc_char] by (intro dec_enc_list) (auto simp: dec_char_def enc_char_def)
      moreover have "dec m (enc v @ r) = Some (v, r)"
        using "6.prems" x kv len by (intro "6.IH" [OF x]) (auto simp: list_all_iff)
      ultimately show ?thesis by (simp add: kv)
    qed
    show "length d < n" using "6.prems" length_enc_list(2) [of d ?e] by simp
  qed
  then show ?case by (simp add: n)
qed (auto simp: Suc_le_eq gr0_conv_Suc)


section \<open>The world\<close>

record mem_world =
  mem_blobs :: "(string \<times> string, bytes) dict"
  mem_cache :: "(string, bytes) dict"
  mem_gets :: nat

definition connect_timeout :: fault where
  "connect_timeout =
     \<lparr>raised = PyError ''ConnectTimeoutError'' [], fault_code = None,
      exc_heap = [(0, \<lparr>is_http_client_error = True, exceptions = [], cause = None, context_exc = None\<rparr>)],
      exc_root = 0\<rparr>"

definition no_such_key :: fault where
  "no_such_key = (plain_fault (PyError ''ClientError'' ''NoSuchKey''))\<lparr>fault_code := Some ''NoSuchKey''\<rparr>"

definition mem_get :: "string \<Rightarrow> string \<Rightarrow> (mem_world, bytes) io" where
  "mem_get b k w =
     (if mem_gets w mod 3 = 2
      then (case dict_get (mem_blobs w) (b, k) of None \<Rightarrow> Inl no_such_key | Some c \<Rightarrow> Inr c)
      else Inl connect_timeout,
      w\<lparr>mem_gets := Suc (mem_gets w)\<rparr>)"

definition mem_env :: "mem_world storage_env" where
  "mem_env =
     \<lparr>s3_head_bucket = (\<lambda>b. io_return ()), s3_create_bucket = (\<lambda>b. io_return ()),
      s3_put_object = (\<lambda>b k c w. (Inr (), w\<lparr>mem_blobs := dict_set (b, k) c (mem_blobs w)\<rparr>)),
      s3_get_object = mem_get,
      ttl_expire = (\<lambda>w. w), ttl_get = (\<lambda>k w. (dict_get (mem_cache w) k, w)),
      ttl_setitem = (\<lambda>k c w. (Inr (), w\<lparr>mem_cache := dict_set k c (mem_cache w)\<rparr>)),
      asyncio_sleep = (\<lambda>d w. w), clock_now = (\<lambda>w. int (mem_gets w)), sha256_hex = (\<lambda>c. c),
      orjson_dumps = (\<lambda>v. if encodable v then Inr (enc v) else Inl (TypeError ''Type is not JSON serializable'')),
      orjson_loads = (\<lambda>c. case dec (length c) c of
         Some (v, []) \<Rightarrow> Inr v | _ \<Rightarrow> Inl (PyError ''JSONDecodeError'' [])),
      iso_format = show_int,
      pydantic_datetime = (\<lambda>v. case v of VStr s \<Rightarrow> py_int s | _ \<Rightarrow> None),
      pydantic_int = (\<lambda>v. case v of VInt i \<Rightarrow> Some i | _ \<Rightarrow> None),
      externalization_enabled = True, threshold_bytes = 4, collection_chunk_size = 2, workflow_bucket = ''wf''\<rparr>"

abbreviation mem_content :: "mem_world \<Rightarrow> string \<times> string \<Rightarrow> bytes option" where
  "mem_content w \<equiv> dict_get (mem_blobs w)"

abbreviation mem_cached :: "mem_world \<Rightarrow> string \<Rightarrow> bytes option" where
  "mem_cached w \<equiv> dict_get (mem_cache w)"

lemma connect_timeout_simps [simp]:
  "is_retryable_storage_transport_error connect_timeout" "fault_code connect_timeout = None"
  "raised connect_timeout \<noteq> CancelledError"
  by (simp_all add: is_retryable_storage_transport_error_def connect_timeout_def transport_walk.simps)

lemma mem_env_simps [simp]:
  "s3_get_object mem_env = mem_get"
  "s3_put_object mem_env b k c w = (Inr (), w\<lparr>mem_blobs := dict_set (b, k) c (mem_blobs w)\<rparr>)"
  "asyncio_sleep mem_env d w = w"
  "orjson_dumps mem_env v = (if encodable v then Inr (enc v) else Inl (TypeError ''Type is not JSON serializable''))"
  "orjson_loads mem_env c = (case dec (length c) c of Some (v, []) \<Rightarrow> Inr v | _ \<Rightarrow> Inl (PyError ''JSONDecodeError'' []))"
  by (simp_all add: mem_env_def)

lemma mem_recovers:
  assumes "mem_content w (b, k) \<noteq> None"
  shows "recovers mem_env b k 1 STORAGE_TRANSPORT_RETRY_ATTEMPTS w"
proof -
  have "mem_gets w mod 3 = 0 \<or> mem_gets w mod 3 = 1 \<or> mem_gets w mod 3 = 2" by linarith
  moreover have three: "STORAGE_TRANSPORT_RETRY_ATTEMPTS = Suc (Suc (Suc 0))"
    by (simp add: STORAGE_TRANSPORT_RETRY_ATTEMPTS_def)
  ultimately show ?thesis
    using assms unfolding three by (auto simp: mem_get_def mod_Suc dvd_imp_mod_0)
qed

lemma mem_json: "encodable v \<Longrightarrow> orjson_loads mem_env (enc v) = Inr v"
  using dec_enc [of v "length (enc v)" "[]"] by simp

interpretation mem: reliable_world mem_env mem_content mem_cached
proof
  show "orjson_loads mem_env c = Inr v" if "json_value v" "orjson_dumps mem_env v = Inr c" for v c
    using that mem_json [of v] by (simp split: if_splits)
  show "recovers mem_env b k 1 STORAGE_TRANSPORT_RETRY_ATTEMPTS w" if "mem_content w (b, k) \<noteq> None" for w b k
    using that by (rule mem_recovers)
qed (auto simp: mem_env_def mem_get_def untouched_def io_simps split: if_splits option.splits)

text \<open>In this world a write goes through as soon as the value can be encoded.\<close>

definition goes_through :: "('w, 'a) io \<Rightarrow> bool" where
  "goes_through m \<longleftrightarrow> (\<forall>w. \<exists>a w'. m w = (Inr a, w'))"

lemma goes_through_simps [simp]: "goes_through (io_return a)"
  by (simp add: goes_through_def io_simps)

lemma goes_through_bind: "goes_through m \<Longrightarrow> (\<And>a. goes_through (f a)) \<Longrightarrow> goes_through (io_bind m f)"
  unfolding goes_through_def by (metis io_bind_Inr)

lemma goes_through_map: "(\<And>x. x \<in> set xs \<Longrightarrow> goes_through (f x)) \<Longrightarrow> goes_through (io_map f xs)"
  by (induction xs) (auto intro!: goes_through_bind)

lemma encodable_dump_ref [simp]: "encodable (dump_ref env r)"
  by (simp add: dump_ref_def)

lemma mem_upload: "encodable v \<Longrightarrow> goes_through (upload_json mem_env b k v)"
  by (simp add: goes_through_def upload_json_def serialize_object_def upload_file_def io_bind_def io_simps)

lemma mem_ensure_bucket: "goes_through (ensure_bucket_exists mem_env b)"
  by (simp add: goes_through_def ensure_bucket_exists_def mem_env_def io_simps)

lemma mem_store_collection:
  assumes "list_all json_value items" and "list_all encodable items" and "0 < int_or csize 2"
  shows "goes_through (store_collection mem_env prefix items ek csize bkt)"
proof -
  let ?cs = "int_or csize 2"
  have "encodable (dump_chunk mem_env \<lparr>ck_version = 1, ck_start = a, ck_items = py_slice items p q\<rparr>)" for a p q
  proof -
    have "\<forall>v \<in> set (py_slice items p q). dump_value mem_env v = v \<and> encodable v"
      using assms(1,2) by (auto simp: py_slice_def Let_def list_all_iff json_dump_value dest!: in_set_takeD in_set_dropD)
    then show ?thesis by (simp add: dump_chunk_def list_all_iff)
  qed
  then have chunk: "goes_through (store_chunk mem_env b prefix items ?cs i)" for b i
    by (simp add: store_chunk_def Let_def mem_upload)
  have manifest: "encodable (dump_manifest mem_env m)" for m by (simp add: dump_manifest_def list_all_iff)
  obtain n where "num_chunks (int (length items)) ?cs = Inr n"
    using assms(3) by (cases "items = []") (auto simp: num_chunks_def)
  moreover have "collection_chunk_size mem_env = 2" by (simp add: mem_env_def)
  ultimately show ?thesis
    unfolding store_collection_def Let_def
    by (auto intro!: goes_through_bind goes_through_map mem_ensure_bucket chunk mem_upload manifest)
qed

definition mem_empty :: mem_world where
  "mem_empty = \<lparr>mem_blobs = [], mem_cache = [], mem_gets = 0\<rparr>"

text \<open>Here the hash is the identity, so a cache that is empty is coherent.\<close>

lemma mem_coherent: "mem_cached w \<subseteq>\<^sub>m mem_cached mem_empty \<Longrightarrow> coherent mem_env mem_content mem_cached w"
  by (auto simp: coherent_def map_le_def mem_empty_def mem_env_def dom_def inj_on_def)

section \<open>A stored collection reads back\<close>

text \<open>C13: a stored collection reads back. If \<open>store_collection\<close> returns a handle, then later, as long as
  the blobs are kept and the cache is coherent, and although downloads may fail in transport up to
  twice in a row: every page is the slice of the original items, whatever the chunk boundaries, every
  valid index (also negative) gives its item, any other index is an \<open>IndexError\<close>, and retrieving the handle
  gives the whole list.\<close>

theorem collection_roundtrip:
  assumes world: "reliable_world env content cached"
    and store: "store_collection env prefix items KindValue csize bkt w = (Inr coll, w1)"
    and json: "list_all json_value items" and cs: "0 < int_or csize (collection_chunk_size env)"
    and later: "content w1 \<subseteq>\<^sub>m content w2" "coherent env content cached w2"
  shows "(0 \<le> offset \<longrightarrow> (\<exists>w3. get_collection_page env coll offset limit w2 = (Inr (page_of items offset limit), w3))) \<and>
     (case norm_index (length items) i of
        Some j \<Rightarrow> \<exists>w3. get_collection_item env (retrieve_stored_object env 1) coll i w2 = (Inr (items ! j), w3)
      | None \<Rightarrow> \<exists>f. get_collection_item env (retrieve_stored_object env 1) coll i w2 = (Inl f, w2) \<and>
                    exn_class (raised f) = ''IndexError'') \<and>
     (\<exists>w3. retrieve_stored_object env 2 coll w2 = (Inr (VList items), w3))"
proof -
  note st = blob_world.store_collection_held [OF reliable_world.axioms(1) [OF world] store json cs]
  from st(4) obtain m n k where shape: "coll = CollectionObject m n k KindValue 1 None (Some ''list'')" by blast
  have held: "collection_held env (content w2) coll KindValue items"
    using st(1) later(1) by (rule collection_held_mono)
  have elems: "list_all2 (element_held env (content w2) KindValue) items items"
    by (simp add: element_held_value list.rel_eq)
  have w2: "settled env content cached (content w2) w2" using later(2) by simp
  have page: "\<exists>w3. get_collection_page env coll offset limit w2 = (Inr (page_of items offset limit), w3)" if "0 \<le> offset"
    using yieldsE [OF reliable_world.yields_page [OF world held that] w2] by metis
  have all: "\<exists>w3. retrieve_stored_object env 2 coll w2 = (Inr (VList items), w3)"
    using yieldsE [OF reliable_world.yields_collection(1) [OF world held elems shape, of 0] w2]
    by (metis numeral_2_eq_2)
  have item: "\<exists>w3. get_collection_item env (retrieve_stored_object env 1) coll i w2 = (Inr (items ! j), w3)"
    if "norm_index (length items) i = Some j" for j
    using yieldsE [OF reliable_world.yields_item [OF world held that, of "items ! j" 0] w2] by (metis One_nat_def element_held_value)
  have bad: "\<exists>f. get_collection_item env (retrieve_stored_object env 1) coll i w2 = (Inl f, w2) \<and>
      exn_class (raised f) = ''IndexError''" if "norm_index (length items) i = None"
  proof -
    have "n = int (length items)" using held shape by (auto simp: collection_held_def)
    with that show ?thesis
      by (auto simp: shape get_collection_item_def norm_index_def Let_def io_simps plain_fault_def split: if_splits)
  qed
  from page all item bad show ?thesis by (simp split: option.split)
qed

theorem collection_roundtrip_witness:
  "\<exists>coll w1 w3. store_collection mem_env ''p'' [VInt 1, VStr ''ab'', VNone] KindValue None None mem_empty = (Inr coll, w1) \<and>
     get_collection_page mem_env coll 1 (Some 1) w1 = (Inr [VStr ''ab''], w3)"
proof -
  let ?items = "[VInt 1, VStr ''ab'', VNone]"
  obtain coll w1 where st: "store_collection mem_env ''p'' ?items KindValue None None mem_empty = (Inr coll, w1)"
    using mem_store_collection [of ?items None "''p''" KindValue None]
    by (simp add: goes_through_def int_or_def) blast
  have cs: "0 < int_or None (collection_chunk_size mem_env)" by (simp add: int_or_def mem_env_def)
  have "mem_cached w1 \<subseteq>\<^sub>m mem_cached mem_empty" using st cs by (intro mem.store_collection_held(3)) auto
  then have "coherent mem_env mem_content mem_cached w1" by (rule mem_coherent)
  with collection_roundtrip [OF mem.reliable_world_axioms st _ cs, of w1 1 "Some 1" 0] st show ?thesis
    by (auto simp: page_of_def)
qed

end
