(* ===== verification/Activities.thy ===== *)
theory Activities
  imports Storage_Memory Dsl_Graph
begin

text \<open>
  The activities through which a workflow reaches its data (\<open>tracecat/dsl/action.py\<close>): reading task
  results and whole contexts, evaluating a scatter's collection, finalising a gather and combining
  child results. The expression evaluator is a parameter: a function of the templated object and the
  materialised context.
\<close>

section \<open>Reading contexts\<close>

definition materialize_task_result :: "'w storage_env \<Rightarrow> nat \<Rightarrow> task_result \<Rightarrow> ('w, pyval) io" where
  "materialize_task_result env depth tr =
     io_bind
       (case tr_result tr of
          InlineObject v _ \<Rightarrow>
            (case (tr_collection_index tr, v) of
               (Some i, VList xs) \<Rightarrow>
                 (case py_nth xs i of
                    None \<Rightarrow> io_raise (IndexError ''list index out of range'') | Some x \<Rightarrow> io_return x)
             | _ \<Rightarrow> io_return v)
        | ExternalObject _ _ \<Rightarrow> storage_retrieve env depth (tr_result tr)
        | CollectionObject _ _ _ _ _ _ _ \<Rightarrow>
            (case tr_collection_index tr of
               Some i \<Rightarrow> storage_retrieve env depth (collection_item (tr_result tr) i)
             | None \<Rightarrow>
                 io_bind (materialize_collection_values env (retrieve_stored_object env depth) (tr_result tr) 0 None)
                   (\<lambda>vs. io_return (VList vs))))
       (\<lambda>raw. io_return (VDict
          [(''result'', raw), (''result_typename'', VStr (tr_typename tr)), (''error'', tr_error tr),
           (''error_typename'', opt_str (tr_error_typename tr)), (''interaction'', tr_interaction tr),
           (''interaction_id'', opt_str (tr_interaction_id tr)),
           (''interaction_type'', opt_str (tr_interaction_type tr))]))"

text \<open>
  \<open>asyncio.gather\<close> over the reads, in the order they are started. A failed read becomes an
  \<open>ApplicationError\<close> with its \<open>non_retryable\<close> flag; cancellation is not an \<open>Exception\<close> and passes.
\<close>

datatype materialize_failure = MaterializeError (non_retryable: bool) fault | MaterializeCancelled fault

definition materialize_context ::
  "'w storage_env \<Rightarrow> nat \<Rightarrow> exec_context \<Rightarrow> 'w \<Rightarrow> (materialize_failure + (string, pyval) dict) \<times> 'w"
where
  "materialize_context env depth ctx w =
     (let actions = ctx_actions ctx;
          trigger = (case ctx_trigger ctx of Some t \<Rightarrow> if py_bool (VStored t) then Some t else None | None \<Rightarrow> None);
          reads = io_bind (io_map (\<lambda>(r, tr). materialize_task_result env depth tr) actions) (\<lambda>results.
                  io_bind (case trigger of
                             None \<Rightarrow> io_return None
                           | Some t \<Rightarrow> io_bind (retrieve_stored_object env depth t) (\<lambda>v. io_return (Some v))) (\<lambda>tv.
                    io_return (results, tv)))
      in case reads w of
           (Inl f, w') \<Rightarrow>
             (Inl (if raised f = CancelledError then MaterializeCancelled f
                   else MaterializeError (\<not> is_retryable_storage_transport_error f) f), w')
         | (Inr (results, tv), w') \<Rightarrow>
             (Inr ((if actions = [] then [] else [(''ACTIONS'', VDict (zip (map fst actions) results))]) @
                   (case tv of None \<Rightarrow> [] | Some v \<Rightarrow> [(''TRIGGER'', v)]) @
                   concat (map (\<lambda>k. case dict_get (ctx_rest ctx) k of
                                      None \<Rightarrow> []
                                    | Some v \<Rightarrow> if py_bool v then [(k, v)] else [])
                     [''ENV'', ''SECRETS'', ''VARS'', ''var''])), w'))"

text \<open>An activity that first materialises its operand.\<close>

definition with_materialized ::
  "'w storage_env \<Rightarrow> nat \<Rightarrow> exec_context \<Rightarrow> ((string, pyval) dict \<Rightarrow> ('w, 'a) io) \<Rightarrow>
   'w \<Rightarrow> (materialize_failure + (fault + 'a)) \<times> 'w"
where
  "with_materialized env depth operand k w =
     (case materialize_context env depth operand w of
        (Inl e, w') \<Rightarrow> (Inl e, w')
      | (Inr materialized, w') \<Rightarrow> map_prod Inr id (k materialized w'))"

section \<open>Error records among values\<close>

definition ExprContext_values :: "string list" where
  "ExprContext_values =
     [''ACTIONS'', ''SECRETS'', ''VARS'', ''FN'', ''ENV'', ''TRIGGER'', ''var'', ''inputs'', ''steps'']"

lemma dict_child_size [termination_simp]:
  "dict_get d k = Some (VList xs) \<Longrightarrow> x \<in> set xs \<Longrightarrow> size x < Suc (size_list (\<lambda>p. Suc (size (snd p))) d)"
proof -
  assume d: "dict_get d k = Some (VList xs)" and x: "x \<in> set xs"
  have "size x \<le> size_list size xs" using x by (rule size_list_estimation') simp
  moreover have "Suc (size (VList xs)) \<le> size_list (\<lambda>p. Suc (size (snd p))) d"
    using map_of_SomeD [OF d] by (rule size_list_estimation') simp
  ultimately show ?thesis by simp
qed

text \<open>\<open>ActionErrorInfoAdapter.validate_python\<close> (\<open>None\<close> is a \<open>ValidationError\<close>); children are kept in dumped form.\<close>

fun as_error_info :: "'w storage_env \<Rightarrow> pyval \<Rightarrow> action_error_info option" where
  "as_error_info env (VDict d) = do {
     r \<leftarrow> str_field d ''ref'';
     m \<leftarrow> str_field d ''message'';
     t \<leftarrow> str_field d ''type'';
     c \<leftarrow> literal ExprContext_values (str_default ''ACTIONS'' d ''expr_context'');
     a \<leftarrow> int_default env 1 d ''attempt'';
     ch \<leftarrow> (case dict_get d ''children'' of
             None \<Rightarrow> Some VNone
           | Some VNone \<Rightarrow> Some VNone
           | Some (VList xs) \<Rightarrow> do {
               infos \<leftarrow> those (map (as_error_info env) xs); Some (VList (map dump_error_info infos)) }
           | _ \<Rightarrow> None);
     Some \<lparr>err_ref = VStr r, err_message = VStr m, err_type = VStr t, err_context = VStr c,
           err_attempt = VInt a, err_stream = get_default (VStr root_stream) d ''stream_id'', err_children = ch\<rparr> }"
| "as_error_info env _ = None"

definition is_error_info :: "'w storage_env \<Rightarrow> pyval \<Rightarrow> bool" where
  "is_error_info env v = (case v of VDict d \<Rightarrow> as_error_info env v \<noteq> None | _ \<Rightarrow> False)"

fun partition_errors :: "'w storage_env \<Rightarrow> pyval list \<Rightarrow> pyval list \<times> action_error_info list" where
  "partition_errors env [] = ([], [])"
| "partition_errors env (v # vs) =
     (let (results, errors) = partition_errors env vs
      in case as_error_info env v of
           Some info \<Rightarrow> (results, info # errors)
         | None \<Rightarrow> (v # results, errors))"

section \<open>Storing collections\<close>

definition store_collection_as_refs :: "'w storage_env \<Rightarrow> string \<Rightarrow> pyval list \<Rightarrow> ('w, stored_object) io" where
  "store_collection_as_refs env prefix items =
     io_bind (io_map (\<lambda>(i, item).
         io_bind (storage_store env (collection_item_key prefix (int i)) item) (\<lambda>st.
           io_return (dump_stored env st))) (enumerate 0 items)) (\<lambda>refs.
       store_collection env prefix refs KindStoredObject None None)"

definition store_list :: "'w storage_env \<Rightarrow> string \<Rightarrow> pyval list \<Rightarrow> ('w, stored_object) io" where
  "store_list env key items =
     (if externalization_enabled env then store_collection_as_refs env key items
      else io_return (InlineObject (VList items) (Some ''list'')))"

definition synchronize_collection_object_activity ::
  "'w storage_env \<Rightarrow> nat \<Rightarrow> stored_object list \<Rightarrow> string \<Rightarrow> ('w, stored_object) io"
where
  "synchronize_collection_object_activity env depth collection key =
     (if externalization_enabled env
      then io_bind (io_map (\<lambda>(i, obj).
               io_bind (storage_retrieve env depth obj) (\<lambda>v.
               io_bind (storage_store env (collection_item_key key (int i)) v) (\<lambda>st.
                 io_return (dump_stored env st)))) (enumerate 0 collection)) (\<lambda>refs.
             store_collection env key refs KindStoredObject None None)
      else io_bind (io_map (storage_retrieve env depth) collection) (\<lambda>values.
             io_return (InlineObject (VList values) (Some ''list''))))"

definition finalize_gather_activity ::
  "'w storage_env \<Rightarrow> nat \<Rightarrow> stored_object list \<Rightarrow> string \<Rightarrow> bool \<Rightarrow> error_strategy \<Rightarrow>
   ('w, stored_object \<times> action_error_info list) io"
where
  "finalize_gather_activity env depth collection key drop_nulls strategy =
     io_bind (io_map (storage_retrieve env depth) collection) (\<lambda>values.
       let values = (if drop_nulls then filter (\<lambda>v. v \<noteq> VNone) values else values);
           (results, errors) =
             (case strategy of
                PARTITION \<Rightarrow> partition_errors env values
              | DROP \<Rightarrow> (filter (\<lambda>v. \<not> is_error_info env v) values, [])
              | INCLUDE \<Rightarrow> (values, [])
              | RAISE \<Rightarrow> partition_errors env values)
       in io_bind (store_list env key results) (\<lambda>stored. io_return (stored, errors)))"

text \<open>\<open>is_iterable\<close> with its default, and \<open>list(...)\<close> of what it accepts (a model iterates its fields).\<close>

definition is_iterable :: "pyval \<Rightarrow> bool" where
  "is_iterable v = (case v of VList _ \<Rightarrow> True | VStored _ \<Rightarrow> True | _ \<Rightarrow> False)"

definition py_list :: "'w storage_env \<Rightarrow> pyval \<Rightarrow> pyval list" where
  "py_list env v =
     (case v of
        VList xs \<Rightarrow> xs
      | VStored obj \<Rightarrow> (case dump_stored env obj of VDict d \<Rightarrow> map (\<lambda>(k, x). VList [VStr k, x]) d | _ \<Rightarrow> [])
      | _ \<Rightarrow> [])"

text \<open>\<open>_evaluate_scatter_input\<close>; the message of the error is abbreviated.\<close>

definition evaluate_scatter_input ::
  "'w storage_env \<Rightarrow> nat \<Rightarrow> (pyval \<Rightarrow> (string, pyval) dict \<Rightarrow> exn + pyval) \<Rightarrow> pyval \<Rightarrow> exec_context \<Rightarrow> string \<Rightarrow>
   'w \<Rightarrow> (materialize_failure + (fault + stored_object)) \<times> 'w"
where
  "evaluate_scatter_input env depth eval_obj collection operand key =
     with_materialized env depth operand (\<lambda>materialized.
       io_bind (io_lift (eval_obj collection materialized)) (\<lambda>v.
         if v = VNone then store_list env key []
         else if \<not> is_iterable v
         then io_raise (application_error (''Scatter collection is not iterable: '' @ type_name v) [])
         else store_list env key (py_list env v)))"

section \<open>Further activities\<close>

text \<open>The three no-op activities read the task's own entry.\<close>

definition noop_action_activity :: "exec_context \<Rightarrow> string \<Rightarrow> task_result option" where
  "noop_action_activity ctx r = dict_get (ctx_actions ctx) r"

definition store_workflow_payload_activity :: "'w storage_env \<Rightarrow> string \<Rightarrow> pyval \<Rightarrow> ('w, stored_object) io" where
  "store_workflow_payload_activity env key data = storage_store env key data"

definition resolve_to_inline :: "'w storage_env \<Rightarrow> nat \<Rightarrow> stored_object \<Rightarrow> ('w, stored_object) io" where
  "resolve_to_inline env depth obj =
     (case obj of
        InlineObject _ _ \<Rightarrow> io_return obj
      | _ \<Rightarrow> io_bind (retrieve_stored_object env depth obj) (\<lambda>v. io_return (new_inline v None)))"

text \<open>\<open>evaluate_single_expression_activity\<close>; \<open>eval_template\<close> is \<open>TemplateExpression(...).result()\<close>.\<close>

definition evaluate_single_expression_activity ::
  "'w storage_env \<Rightarrow> nat \<Rightarrow> (string \<Rightarrow> (string, pyval) dict \<Rightarrow> exn + pyval) \<Rightarrow> string \<Rightarrow> exec_context \<Rightarrow>
   'w \<Rightarrow> (materialize_failure + (fault + pyval)) \<times> 'w"
where
  "evaluate_single_expression_activity env depth eval_template expression operand =
     with_materialized env depth operand (\<lambda>materialized.
       if py_strip expression = []
       then io_raise (PyError ''TracecatExpressionError'' ''Expression cannot be empty'')
       else io_lift (eval_template (py_strip expression) materialized))"

text \<open>\<open>evaluate_templated_object_activity\<close> and \<open>resolve_return_expression_activity\<close>.\<close>

definition evaluate_templated_object_activity ::
  "'w storage_env \<Rightarrow> nat \<Rightarrow> (pyval \<Rightarrow> (string, pyval) dict \<Rightarrow> exn + pyval) \<Rightarrow> pyval \<Rightarrow> exec_context \<Rightarrow> string \<Rightarrow>
   'w \<Rightarrow> (materialize_failure + (fault + stored_object)) \<times> 'w"
where
  "evaluate_templated_object_activity env depth eval_obj obj operand key =
     with_materialized env depth operand (\<lambda>materialized.
       io_bind (io_lift (eval_obj obj materialized)) (storage_store env key))"

definition strip_string_values :: "(string, pyval) dict \<Rightarrow> (string, pyval) dict" where
  "strip_string_values d = map (\<lambda>(k, v). (k, case v of VStr s \<Rightarrow> VStr (py_strip s) | _ \<Rightarrow> v)) d"

definition is_template_only :: "string \<Rightarrow> bool" where
  "is_template_only s \<longleftrightarrow> starts_with ''${{'' s \<and> ends_with ''}}'' s"

definition resolve_environment ::
  "(string \<Rightarrow> (string, pyval) dict \<Rightarrow> exn + pyval) \<Rightarrow> string option \<Rightarrow> string \<Rightarrow> (string, pyval) dict \<Rightarrow> exn + pyval"
where
  "resolve_environment eval_template task_environment default_environment materialized =
     (case task_environment of
        None \<Rightarrow> Inr (VStr default_environment)
      | Some e \<Rightarrow>
          let env = py_strip e
          in if is_template_only env then eval_template env materialized else Inr (VStr env))"

text \<open>
  \<open>normalize_trigger_inputs_activity\<close>: every \<open>Exception\<close> becomes an \<open>ApplicationError\<close>;
  \<open>norm_inputs\<close> is \<open>normalize_trigger_inputs\<close> for the workflow's schema.
\<close>

definition normalize_trigger_inputs_activity ::
  "'w storage_env \<Rightarrow> nat \<Rightarrow> (pyval \<Rightarrow> exn + pyval) \<Rightarrow> stored_object option \<Rightarrow> string \<Rightarrow> ('w, stored_object) io"
where
  "normalize_trigger_inputs_activity env depth norm_inputs trigger_inputs key w =
     (case io_bind (case trigger_inputs of None \<Rightarrow> io_return (VDict []) | Some obj \<Rightarrow> storage_retrieve env depth obj) (\<lambda>v.
           io_bind (io_lift (norm_inputs v)) (storage_store env key)) w of
        (Inr st, w') \<Rightarrow> (Inr st, w')
      | (Inl f, w') \<Rightarrow>
          (Inl (if raised f = CancelledError then f
                else raise_from (application_error
                       (if exn_class (raised f) = ''ValidationError'' then ''Failed to validate trigger inputs''
                        else ''Unexpected error when normalizing trigger inputs'') []) f), w'))"

section \<open>What is stored can be read\<close>

lemma partition_errors_spec:
  "partition_errors env vs = (filter (\<lambda>v. as_error_info env v = None) vs, List.map_filter (as_error_info env) vs)"
  by (induction vs) (simp_all add: map_filter_simps split: option.split)

lemma is_error_info_iff: "is_error_info env v \<longleftrightarrow> as_error_info env v \<noteq> None"
  by (cases v) (simp_all add: is_error_info_def)

text \<open>The values a gather keeps and the error records it sets aside.\<close>

definition gather_outcome :: "'w storage_env \<Rightarrow> bool \<Rightarrow> error_strategy \<Rightarrow> pyval list \<Rightarrow> pyval list \<times> action_error_info list" where
  "gather_outcome env drop_nulls strategy vs =
     (let kept = (if drop_nulls then filter (\<lambda>v. v \<noteq> VNone) vs else vs);
          plain = filter (\<lambda>v. as_error_info env v = None) kept;
          errors = List.map_filter (as_error_info env) kept
      in case strategy of PARTITION \<Rightarrow> (plain, errors) | RAISE \<Rightarrow> (plain, errors)
           | DROP \<Rightarrow> (plain, []) | INCLUDE \<Rightarrow> (kept, []))"

lemma json_dump_handle: "handle_held env C obj v \<Longrightarrow> json_value (dump_stored env obj)"
  by (auto simp: handle_held_def new_inline_def json_dump_value)

lemma handle_held_cong:
  "(\<And>r tn. obj = ExternalObject r tn \<Longrightarrow> C' (bucket r, object_key r) = C (bucket r, object_key r)) \<Longrightarrow>
     handle_held env C obj v \<Longrightarrow> handle_held env C' obj v"
  by (auto simp: handle_held_def held_def)

lemma item_key_inj: "collection_item_key prefix (int i) = collection_item_key prefix (int j) \<longleftrightarrow> i = j"
  by (simp add: collection_item_key_def show_int_def)

lemma item_key_outside: "collection_item_key prefix (int i) \<notin> collection_keys prefix"
  by (auto simp: collection_item_key_def collection_keys_def chunk_key_def manifest_key_def)

context blob_world
begin

lemma s3_store_held:
  assumes "s3_store env b t k v w = (Inr obj, w')" and "json_value v"
  shows "handle_held env (content w') obj v"
    and "\<And>bk. bk \<noteq> (b, k) \<Longrightarrow> content w' bk = content w bk"
    and "cached w' \<subseteq>\<^sub>m cached w"
    and "\<And>r tn. obj = ExternalObject r tn \<Longrightarrow> bucket r = b \<and> object_key r = k"
proof -
  from assms(1) obtain c where c: "orjson_dumps env v = Inr c"
    and "obj = new_inline v None \<and> w' = w \<or>
      (\<exists>w1. ensure_bucket_exists env b w = (Inr (), w1) \<and> s3_put_object env b k c w1 = (Inr (), w') \<and>
         obj = ExternalObject (new_ref env b k c w') (Some (type_name v)))"
    by (auto simp: s3_store_def serialize_object_def upload_file_def io_bind_eq_Inr io_lift_eq_Inr io_simps split: if_splits)
  then consider (inline) "obj = new_inline v None" "w' = w"
    | (external) "content w' = (content w)((b, k) \<mapsto> c)" "cached w' \<subseteq>\<^sub>m cached w"
        "obj = ExternalObject (new_ref env b k c w') (Some (type_name v))"
    using put_object [of b k c] ensure_bucket_untouched [of w b] by (fastforce simp: untouched_def intro: map_le_trans)
  then have "handle_held env (content w') obj v \<and> (\<forall>bk. bk \<noteq> (b, k) \<longrightarrow> content w' bk = content w bk) \<and>
      cached w' \<subseteq>\<^sub>m cached w \<and> (\<forall>r tn. obj = ExternalObject r tn \<longrightarrow> bucket r = b \<and> object_key r = k)"
  proof cases
    case inline
    with assms(2) show ?thesis by (simp add: handle_held_def new_inline_def)
  next
    case external
    with json_roundtrip [OF assms(2) c] show ?thesis
      by (simp add: handle_held_def held_def wf_ref_def new_ref_def compute_sha256_def)
  qed
  then show "handle_held env (content w') obj v"
    and "\<And>bk. bk \<noteq> (b, k) \<Longrightarrow> content w' bk = content w bk"
    and "cached w' \<subseteq>\<^sub>m cached w"
    and "\<And>r tn. obj = ExternalObject r tn \<Longrightarrow> bucket r = b \<and> object_key r = k"
    by blast+
qed

text \<open>Storing the items one by one, each under its own key.\<close>

lemma store_items_held:
  assumes "io_map (\<lambda>(i, item). io_bind (s3_store env b t (collection_item_key prefix (int i)) item) (\<lambda>st.
      io_return (dump_stored env st))) (enumerate 0 items) w = (Inr refs, w')"
    and "list_all json_value items"
  shows "\<exists>objs. refs = map (dump_stored env) objs \<and> length objs = length items \<and>
     (\<forall>i < length items. handle_held env (content w') (objs ! i) (items ! i) \<and>
        (\<forall>r tn. objs ! i = ExternalObject r tn \<longrightarrow> object_key r = collection_item_key prefix (int i))) \<and>
     cached w' \<subseteq>\<^sub>m cached w"
  using assms
proof (induction items arbitrary: refs w' rule: rev_induct)
  case Nil
  then show ?case by (simp add: io_simps)
next
  case (snoc item items)
  let ?key = "\<lambda>i. collection_item_key prefix (int i)"
  from snoc.prems(1) obtain refs1 w1 obj where
    pre: "io_map (\<lambda>(i, item). io_bind (s3_store env b t (?key i) item) (\<lambda>st.
        io_return (dump_stored env st))) (enumerate 0 items) w = (Inr refs1, w1)"
    and last: "s3_store env b t (?key (length items)) item w1 = (Inr obj, w')"
    and refs: "refs = refs1 @ [dump_stored env obj]"
    by (auto simp: enumerate_append_eq io_map_snoc io_bind_eq_Inr io_return_eq_Inr)
  from snoc.prems(2) have json: "list_all json_value items" "json_value item" by simp_all
  from snoc.IH [OF pre json(1)] obtain objs where objs: "refs1 = map (dump_stored env) objs" "length objs = length items"
    "\<forall>i < length items. handle_held env (content w1) (objs ! i) (items ! i) \<and>
       (\<forall>r tn. objs ! i = ExternalObject r tn \<longrightarrow> object_key r = ?key i)" "cached w1 \<subseteq>\<^sub>m cached w" by auto
  note st = s3_store_held [OF last json(2)]
  have keep: "handle_held env (content w') (objs ! i) (items ! i)" if "i < length items" for i
    using objs(3) that by (intro handle_held_cong [of "objs ! i" "content w'" "content w1"] st(2)) (auto simp: item_key_inj)
  have "refs = map (dump_stored env) (objs @ [obj])" using refs objs by simp
  moreover have "handle_held env (content w') ((objs @ [obj]) ! i) ((items @ [item]) ! i) \<and>
      (\<forall>r tn. (objs @ [obj]) ! i = ExternalObject r tn \<longrightarrow> object_key r = ?key i)"
    if "i < length (items @ [item])" for i
    using that objs(2,3) keep st(1,4) by (cases "i = length items") (auto simp: nth_append)
  moreover have "cached w' \<subseteq>\<^sub>m cached w" using st(3) objs(4) by (rule map_le_trans)
  ultimately show ?case using objs(2) by (intro exI [of _ "objs @ [obj]"]) simp
qed

lemma store_refs_held:
  assumes "externalization_enabled env" and "0 < collection_chunk_size env" and "list_all json_value items"
    and "store_collection_as_refs env prefix items w = (Inr coll, w')"
  obtains refs m n cs where "collection_held env (content w') coll KindStoredObject refs"
    and "list_all2 (element_held env (content w') KindStoredObject) refs items"
    and "coll = CollectionObject m n cs KindStoredObject 1 None (Some ''list'')"
    and "cached w' \<subseteq>\<^sub>m cached w"
proof -
  from assms(1,4) obtain refs w1 where
    loop: "io_map (\<lambda>(i, item). io_bind (s3_store env (workflow_bucket env) (threshold_bytes env)
        (collection_item_key prefix (int i)) item) (\<lambda>st. io_return (dump_stored env st))) (enumerate 0 items) w = (Inr refs, w1)"
    and coll: "store_collection env prefix refs KindStoredObject None None w1 = (Inr coll, w')"
    by (auto simp: store_collection_as_refs_def storage_store_def io_bind_eq_Inr)
  from store_items_held [OF loop assms(3)] obtain objs where refs: "refs = map (dump_stored env) objs"
    and objs: "length objs = length items" "\<forall>i < length items. handle_held env (content w1) (objs ! i) (items ! i) \<and>
        (\<forall>r tn. objs ! i = ExternalObject r tn \<longrightarrow> object_key r = collection_item_key prefix (int i))"
    and cache: "cached w1 \<subseteq>\<^sub>m cached w" by blast
  have "json_value (dump_stored env (objs ! i))" if "i < length items" for i
    using objs(2) that by (blast intro: json_dump_handle)
  then have json: "list_all json_value refs"
    using objs(1) by (auto simp: refs list_all_iff in_set_conv_nth)
  have cs: "0 < int_or None (collection_chunk_size env)" using assms(2) by (simp add: int_or_def)
  note st = store_collection_held [OF coll json cs]
  have "handle_held env (content w') (objs ! i) (items ! i)" if "i < length items" for i
    using objs(2) that item_key_outside by (intro handle_held_cong [of "objs ! i" "content w'" "content w1"] st(2)) auto
  then have "list_all2 (element_held env (content w') KindStoredObject) refs items"
    using objs(1) by (auto simp: refs list_all2_conv_all_nth element_held_def)
  with st cache that show ?thesis by (blast intro: map_le_trans)
qed

end

section \<open>Gather results\<close>

lemma gather_outcome_json: "list_all json_value vs \<Longrightarrow> list_all json_value (fst (gather_outcome env dn st vs))"
  by (cases st) (auto simp: gather_outcome_def list_all_iff Let_def)

text \<open>The configured storage reads back a stored list.\<close>

lemma store_list_roundtrip:
  assumes world: "reliable_world env content cached" and chunk: "0 < collection_chunk_size env"
    and json: "list_all json_value items" and store: "store_list env key items w = (Inr st, w1)"
    and later: "content w1 \<subseteq>\<^sub>m content w2" "coherent env content cached w2"
  shows "\<exists>w3. storage_retrieve env 1 st w2 = (Inr (VList items), w3)"
proof (cases "externalization_enabled env")
  case True
  with store have refs: "store_collection_as_refs env key items w = (Inr st, w1)" by (simp add: store_list_def)
  from reliable_world.axioms(1) [OF world] True chunk json refs obtain rs m n cs where
    held: "collection_held env (content w1) st KindStoredObject rs"
    and elems: "list_all2 (element_held env (content w1) KindStoredObject) rs items"
    and shape: "st = CollectionObject m n cs KindStoredObject 1 None (Some ''list'')"
    by (rule blob_world.store_refs_held)
  have held2: "collection_held env (content w2) st KindStoredObject rs" using held later(1) by (rule collection_held_mono)
  have elems2: "list_all2 (element_held env (content w2) KindStoredObject) rs items"
    using elems by (rule list_all2_mono) (rule element_held_mono, assumption, rule later(1))
  have "settled env content cached (content w2) w2" using later(2) by simp
  from yieldsE [OF reliable_world.yields_collection(2) [OF world held2 elems2 shape, of 0] this] True
  show ?thesis by (metis One_nat_def storage_retrieve_def)
next
  case False
  with store show ?thesis by (auto simp: store_list_def storage_retrieve_def inline_retrieve_def io_return_eq_Inr)
qed

text \<open>The configured storage reads the handles it is given.\<close>

lemma retrieve_handles:
  assumes world: "reliable_world env content cached" and coh: "coherent env content cached w"
    and handles: "list_all2 (handle_held env (content w)) objs vs"
    and inline: "externalization_enabled env \<or> (\<forall>obj \<in> set objs. stored_type obj = ''inline'')"
  obtains w' where "io_map (storage_retrieve env d) objs w = (Inr vs, w')" and "content w' = content w"
proof -
  have "yields (settled env content cached (content w)) (storage_retrieve env d obj) v"
    if "handle_held env (content w) obj v" "obj \<in> set objs" for obj v
  proof (cases "externalization_enabled env")
    case True
    with that(1) show ?thesis
      by (auto simp: storage_retrieve_def handle_held_def s3_retrieve_def new_inline_def held_def wf_ref_def
          intro!: reliable_world.yields_verified_download [OF world])
  next
    case False
    with that inline show ?thesis
      by (auto simp: storage_retrieve_def inline_retrieve_def handle_held_def new_inline_def stored_type_def)
  qed
  then have "list_all2 (\<lambda>obj v. yields (settled env content cached (content w)) (storage_retrieve env d obj) v) objs vs"
    using handles by (auto simp: list_all2_conv_all_nth)
  from yieldsE [OF yields_map2 [OF this], of w] coh that show ?thesis by auto
qed

text \<open>C12: what a gather hands on. When the streams' results are retrievable JSON values, finalising the
  gather drops the nulls if asked to and splits the values by the error strategy: \<open>PARTITION\<close> and \<open>RAISE\<close>
  separate the error records from the results in order, \<open>DROP\<close> removes them, \<open>INCLUDE\<close> keeps them. The
  returned handle, be it inline or chunked, later reads back to exactly those results.\<close>

theorem gather_results_preserved:
  assumes world: "reliable_world env content cached" and coh: "coherent env content cached w"
    and handles: "list_all2 (handle_held env (content w)) objs vs"
    and inline: "externalization_enabled env \<or> (\<forall>obj \<in> set objs. stored_type obj = ''inline'')"
    and json: "list_all json_value vs" and chunk: "0 < collection_chunk_size env"
    and run: "finalize_gather_activity env d objs key drop_nulls strategy w = (Inr (st, errors), w1)"
    and later: "content w1 \<subseteq>\<^sub>m content w2" "coherent env content cached w2"
  shows "errors = snd (gather_outcome env drop_nulls strategy vs) \<and>
     (\<exists>w3. storage_retrieve env 1 st w2 = (Inr (VList (fst (gather_outcome env drop_nulls strategy vs))), w3))"
proof -
  let ?g = "gather_outcome env drop_nulls strategy vs"
  from world coh handles inline obtain w0 where read: "io_map (storage_retrieve env d) objs w = (Inr vs, w0)"
    by (rule retrieve_handles)
  have "finalize_gather_activity env d objs key drop_nulls strategy w =
      io_bind (store_list env key (fst ?g)) (\<lambda>stored. io_return (stored, snd ?g)) w0"
    unfolding finalize_gather_activity_def
    by (cases strategy) (simp_all add: io_bind_Inr [of "io_map (storage_retrieve env d) objs" w vs w0, OF read]
        gather_outcome_def Let_def partition_errors_spec is_error_info_iff)
  with run have "store_list env key (fst ?g) w0 = (Inr st, w1)" and "errors = snd ?g"
    by (auto simp: io_bind_eq_Inr io_return_eq_Inr)
  with store_list_roundtrip [OF world chunk gather_outcome_json [OF json] _ later] show ?thesis by blast
qed

text \<open>A run: two streams returned values, one failed and one returned null.\<close>

definition sample_handles :: "stored_object list" where
  "sample_handles =
     [new_inline (VInt 1) None, new_inline (dump_error_info (error_info ''a'' ''boom'' ''ValueError'' root_stream)) None,
      new_inline VNone None, new_inline (VStr ''two'') None]"

lemma mem_ensure_bucket_apply [simp]: "ensure_bucket_exists mem_env b w = (Inr (), w)"
  by (simp add: ensure_bucket_exists_def mem_env_def io_simps)

lemma mem_config [simp]:
  "collection_chunk_size mem_env = 2" "externalization_enabled mem_env" "threshold_bytes mem_env = 4"
  by (simp_all add: mem_env_def)

lemma mem_store_refs:
  "\<exists>st w1. store_collection_as_refs mem_env ''k'' [VInt 1, VStr ''two''] mem_empty = (Inr st, w1)"
proof -
  let ?loop = "io_map (\<lambda>(i, item). io_bind (storage_store mem_env (collection_item_key ''k'' (int i)) item) (\<lambda>st.
      io_return (dump_stored mem_env st))) (enumerate 0 [VInt 1, VStr ''two''])"
  obtain refs w1 where loop: "?loop mem_empty = (Inr refs, w1)"
    and refs: "list_all json_value refs" "list_all encodable refs"
    by (simp add: storage_store_def s3_store_def serialize_object_def upload_file_def io_bind_def io_simps
        enc_list_def enc_char_def new_inline_def opt_str_def)
  from mem_store_collection [OF refs, of None "''k''" KindStoredObject None] loop show ?thesis
    by (auto simp: store_collection_as_refs_def io_bind_def goes_through_def int_or_def)
qed

theorem gather_results_preserved_witness:
  "\<exists>st errors w1 w3. finalize_gather_activity mem_env 1 sample_handles ''k'' True PARTITION mem_empty = (Inr (st, errors), w1) \<and>
     errors = [error_info ''a'' ''boom'' ''ValueError'' root_stream] \<and>
     storage_retrieve mem_env 1 st w1 = (Inr (VList [VInt 1, VStr ''two'']), w3)"
proof -
  let ?vs = "[VInt 1, dump_error_info (error_info ''a'' ''boom'' ''ValueError'' root_stream), VNone, VStr ''two'']"
  have err: "as_error_info mem_env (dump_error_info (error_info ''a'' ''boom'' ''ValueError'' root_stream)) =
      Some (error_info ''a'' ''boom'' ''ValueError'' root_stream)"
    by (simp add: dump_error_info_def error_info_def field_defs mem.int_accepted ExprContext_values_def get_default_def)
  have g: "gather_outcome mem_env True PARTITION ?vs =
      ([VInt 1, VStr ''two''], [error_info ''a'' ''boom'' ''ValueError'' root_stream])"
    by (simp add: gather_outcome_def err map_filter_simps) (simp add: dump_error_info_def)
  obtain st w1 where st: "store_collection_as_refs mem_env ''k'' [VInt 1, VStr ''two''] mem_empty = (Inr st, w1)"
    using mem_store_refs by blast
  have read: "io_map (storage_retrieve mem_env 1) sample_handles mem_empty = (Inr ?vs, mem_empty)"
    by (simp add: sample_handles_def storage_retrieve_def s3_retrieve_def new_inline_def io_return_eq_Inr)
  have run: "finalize_gather_activity mem_env 1 sample_handles ''k'' True PARTITION mem_empty =
      (Inr (st, [error_info ''a'' ''boom'' ''ValueError'' root_stream]), w1)"
    unfolding finalize_gather_activity_def io_bind_Inr [of "io_map (storage_retrieve mem_env 1) sample_handles" _ ?vs, OF read]
    using g st by (simp add: partition_errors_spec gather_outcome_def store_list_def io_bind_def io_simps)
  have "mem_cached w1 \<subseteq>\<^sub>m mem_cached mem_empty"
    using st by (rule mem.store_refs_held [rotated 3]) simp_all
  then have "coherent mem_env mem_content mem_cached w1" by (rule mem_coherent)
  moreover have "coherent mem_env mem_content mem_cached mem_empty" by (rule mem_coherent) simp
  moreover have "list_all2 (handle_held mem_env (mem_content mem_empty)) sample_handles ?vs"
    by (simp add: sample_handles_def handle_held_def dump_error_info_def error_info_def)
  moreover have "list_all json_value ?vs" by (simp add: dump_error_info_def error_info_def)
  ultimately show ?thesis
    using gather_results_preserved [OF mem.reliable_world_axioms _ _ _ _ _ run, of ?vs w1] run g by auto
qed

end
