(* ===== verification/Subflows.thy ===== *)
theory Subflows
  imports Activities
begin

text \<open>
  Preparing child workflows (\<open>tracecat/dsl/action.py\<close>: \<open>_patch_object\<close>, \<open>_evaluate_subflow_args\<close>,
  \<open>_resolve_subflow_batch\<close>, \<open>_evaluate_loop_iterations\<close>, \<open>_prepare_subflow\<close>; the result classes of
  \<open>tracecat/dsl/common.py\<close>). A looped subflow evaluates its arguments once per iteration; the
  configurations travel as one value when they are all equal, the trigger inputs as a stored list.
  The expression evaluator, pydantic's validation of the arguments and the two database lookups are
  parameters, the fields of \<open>subflow_env\<close>.
\<close>

section \<open>Iterations\<close>

record iterable_expr =
  iterator :: string
  collection :: "pyval list"

text \<open>\<open>list(zip(*iterators, strict=False))\<close>.\<close>

definition zip_iterators :: "iterable_expr list \<Rightarrow> (string \<times> pyval) list list" where
  "zip_iterators its =
     (if its = [] then []
      else map (\<lambda>i. map (\<lambda>it. (iterator it, collection it ! i)) its)
             [0..<Min (set (map (\<lambda>it. length (collection it)) its))])"

text \<open>
  \<open>_patch_object\<close>: descend along the path, creating missing dictionaries, and set the last key. Each
  iteration patches its own copy of the context.
\<close>

fun patch_keys :: "(string, pyval) dict \<Rightarrow> string list \<Rightarrow> pyval \<Rightarrow> exn + (string, pyval) dict" where
  "patch_keys d [] v = Inr d"
| "patch_keys d [leaf] v = Inr (dict_set leaf v d)"
| "patch_keys d (k # ks) v =
     (case dict_get d k of
        None \<Rightarrow> sbind (patch_keys [] ks v) (\<lambda>d'. Inr (dict_set k (VDict d') d))
      | Some (VDict d1) \<Rightarrow> sbind (patch_keys d1 ks v) (\<lambda>d'. Inr (dict_set k (VDict d') d))
      | Some x \<Rightarrow>
          Inl (if length ks = 1 then TypeError (type_name x @ '' object does not support item assignment'')
               else PyError ''AttributeError'' (type_name x @ '' object has no attribute setdefault'')))"

definition patch_object :: "(string, pyval) dict \<Rightarrow> string \<Rightarrow> pyval \<Rightarrow> exn + (string, pyval) dict" where
  "patch_object obj path v = patch_keys obj (split_on CHR ''.'' path) v"

record subflow_args =
  sa_workflow_id :: "string option"
  sa_workflow_alias :: "string option"
  sa_environment :: "string option"
  sa_timeout :: "rat option"
  sa_trigger_inputs :: pyval

record subflow_env =
  sf_eval :: "pyval \<Rightarrow> (string, pyval) dict \<Rightarrow> exn + pyval"
  sf_iterables :: "pyval \<Rightarrow> (string, pyval) dict \<Rightarrow> exn + iterable_expr list"
  sf_validate_args :: "pyval \<Rightarrow> exn + subflow_args"
  sf_config :: "pyval \<Rightarrow> pyval \<Rightarrow> exn + string option \<times> rat option"
  sf_resolve_alias :: "string \<Rightarrow> bool \<Rightarrow> exn + string option"
  sf_definition :: "string \<Rightarrow> pyval \<Rightarrow> exn + (dsl_input \<times> pyval) option"

abbreviation UserError :: "string \<Rightarrow> exn" where
  "UserError t \<equiv> ApplicationError ''UserError'' t []"

definition patch_iteration :: "(string, pyval) dict \<Rightarrow> (string \<times> pyval) list \<Rightarrow> exn + (string, pyval) dict" where
  "patch_iteration materialized items =
     sfold (\<lambda>(path, v) ctx. patch_object ctx (''var'' @ path) v) items materialized"

definition evaluate_subflow_args ::
  "subflow_env \<Rightarrow> (string, pyval) dict \<Rightarrow> (string, pyval) dict \<Rightarrow> exn + pyval \<times> subflow_args"
where
  "evaluate_subflow_args sf arguments operand =
     (case sbind (sf_eval sf (VDict arguments) operand) (\<lambda>e. sbind (sf_validate_args sf e) (\<lambda>a. Inr (e, a))) of
        Inr r \<Rightarrow> Inr r
      | Inl e \<Rightarrow>
          if exn_class e = ''TracecatExpressionError''
          then Inl (UserError (''Error evaluating subflow arguments: '' @ exn_text e))
          else if exn_class e = ''ValidationError'' then Inl (UserError ''Invalid subflow arguments'')
          else Inl e)"

definition MAX_LOOP_ITERATIONS :: nat where
  "MAX_LOOP_ITERATIONS = 4096"

text \<open>Python's \<open>x or default\<close> on optional strings and numbers.\<close>

definition str_or :: "string option \<Rightarrow> string \<Rightarrow> string" where
  "str_or x d = (case x of None \<Rightarrow> d | Some s \<Rightarrow> if s = [] then d else s)"

definition rat_or :: "rat option \<Rightarrow> rat \<Rightarrow> rat" where
  "rat_or x d = (case x of None \<Rightarrow> d | Some r \<Rightarrow> if r = 0 then d else r)"

definition resolved_config :: "subflow_args \<Rightarrow> dsl_config \<Rightarrow> dsl_config" where
  "resolved_config a cfg =
     \<lparr>cfg_environment = str_or (sa_environment a) (cfg_environment cfg),
      cfg_timeout = rat_or (sa_timeout a) (cfg_timeout cfg)\<rparr>"

text \<open>The body of the loop: the trigger inputs and the configuration of one iteration.\<close>

definition iteration ::
  "subflow_env \<Rightarrow> action_stmt \<Rightarrow> (string, pyval) dict \<Rightarrow> dsl_config \<Rightarrow> (string \<times> pyval) list \<Rightarrow> exn + pyval \<times> dsl_config"
where
  "iteration sf task materialized cfg items =
     sbind (patch_iteration materialized items) (\<lambda>ctx.
     sbind (evaluate_subflow_args sf (args task) ctx) (\<lambda>(_, a).
       Inr (sa_trigger_inputs a, resolved_config a cfg)))"

text \<open>One value for all iterations, or one per iteration.\<close>

datatype 'c configs = Shared 'c | PerIteration "'c list"

text \<open>The loop's variables: trigger inputs, configurations, the first one and whether all were equal to it.\<close>

type_synonym loop_vars = "pyval list \<times> dsl_config list \<times> dsl_config option \<times> bool"

definition loop_step ::
  "subflow_env \<Rightarrow> action_stmt \<Rightarrow> (string, pyval) dict \<Rightarrow> dsl_config \<Rightarrow> (string \<times> pyval) list \<Rightarrow> loop_vars \<Rightarrow> exn + loop_vars"
where
  "loop_step sf task materialized cfg items vars =
     (case vars of (tis, cfgs, first, same) \<Rightarrow>
        sbind (iteration sf task materialized cfg items) (\<lambda>(ti, c).
          let (first', same') =
            (case first of
               None \<Rightarrow> (Some c, same)
             | Some f \<Rightarrow> (first, if same \<and> c \<noteq> f then False else same))
          in Inr (tis @ [ti], cfgs @ [c], first', same')))"

definition evaluate_loop_iterations ::
  "subflow_env \<Rightarrow> action_stmt \<Rightarrow> (string, pyval) dict \<Rightarrow> dsl_config \<Rightarrow> exn + pyval list \<times> dsl_config configs"
where
  "evaluate_loop_iterations sf task materialized cfg =
     (if \<not> py_bool (for_each_expr task) then Inl (UserError ''task.for_each is required for loop iterations'')
      else case sf_iterables sf (for_each_expr task) materialized of
        Inl e \<Rightarrow>
          if exn_class e \<in> {''TracecatExpressionError'', ''ValueError''}
          then Inl (UserError (''Error evaluating subflow for_each expression: '' @ exn_text e)) else Inl e
      | Inr its \<Rightarrow>
          let all_items = zip_iterators its
          in if MAX_LOOP_ITERATIONS < length all_items
             then Inl (UserError (''Loop exceeds max iterations: '' @ show_nat (length all_items) @ '' > '' @
                    show_nat MAX_LOOP_ITERATIONS))
             else sbind (sfold (loop_step sf task materialized cfg) all_items ([], [], None, True))
                    (\<lambda>(tis, cfgs, first, same).
                       Inr (tis, case first of Some f \<Rightarrow> if same then Shared f else PerIteration cfgs
                                 | None \<Rightarrow> PerIteration cfgs)))"

text \<open>\<open>handle_looped_subflow_input_activity\<close>: the number of iterations.\<close>

definition handle_looped_subflow_input_activity ::
  "subflow_env \<Rightarrow> 'w storage_env \<Rightarrow> nat \<Rightarrow> pyval \<Rightarrow> exec_context \<Rightarrow> 'w \<Rightarrow> (materialize_failure + (fault + nat)) \<times> 'w"
where
  "handle_looped_subflow_input_activity sf env depth for_each operand =
     with_materialized env depth operand (\<lambda>materialized.
       io_bind (io_lift (sf_iterables sf for_each materialized)) (\<lambda>its. io_return (length (zip_iterators its))))"

section \<open>Batches\<close>

record subflow_config =
  sc_environment :: "string option"
  sc_timeout :: "rat option"

definition arg_or_none :: "pyval \<Rightarrow> string \<Rightarrow> pyval" where
  "arg_or_none v k = (case v of VDict d \<Rightarrow> get_default VNone d k | _ \<Rightarrow> VNone)"

definition batch_iteration ::
  "subflow_env \<Rightarrow> action_stmt \<Rightarrow> (string, pyval) dict \<Rightarrow> (string \<times> pyval) list \<Rightarrow> exn + pyval \<times> subflow_config"
where
  "batch_iteration sf task materialized items =
     sbind (patch_iteration materialized items) (\<lambda>ctx.
     sbind (sf_eval sf (VDict (args task)) ctx) (\<lambda>e.
     sbind (sf_config sf (arg_or_none e ''environment'') (arg_or_none e ''timeout'')) (\<lambda>(en, t).
       Inr (arg_or_none e ''trigger_inputs'', \<lparr>sc_environment = en, sc_timeout = t\<rparr>))))"

record 'c resolved_batch =
  rb_configs :: "'c configs"
  rb_trigger_inputs :: "stored_object list"

definition resolve_subflow_batch ::
  "subflow_env \<Rightarrow> 'w storage_env \<Rightarrow> nat \<Rightarrow> action_stmt \<Rightarrow> exec_context \<Rightarrow> int \<Rightarrow> int \<Rightarrow> string \<Rightarrow>
   'w \<Rightarrow> (materialize_failure + (fault + subflow_config resolved_batch)) \<times> 'w"
where
  "resolve_subflow_batch sf env depth task operand batch_start batch_size key w =
     (if \<not> py_bool (for_each_expr task)
      then map_prod Inr id (io_raise (application_error ''ResolveSubflowBatchActivityInput requires task.for_each'' []) w)
      else with_materialized env depth operand (\<lambda>materialized.
        io_bind (io_lift (sf_iterables sf (for_each_expr task) materialized)) (\<lambda>its.
          let batch = py_slice (zip_iterators its) batch_start (batch_start + batch_size)
          in if batch = []
             then io_raise (application_error (''Empty batch: start='' @ show_int batch_start @ '', size='' @
                    show_int batch_size @ '', total='' @ show_nat (length (zip_iterators its))) [])
             else io_bind (io_lift (sfold (\<lambda>items acc. sbind (batch_iteration sf task materialized items)
                              (\<lambda>r. Inr (acc @ [r]))) batch [])) (\<lambda>rs.
                  let cfgs = map snd rs
                  in io_bind (io_map (\<lambda>(i, ti). storage_store env (collection_item_key key (int i)) ti)
                                (enumerate 0 (map fst rs))) (\<lambda>stored.
                     io_return \<lparr>rb_configs = (if list_all (\<lambda>c. c = hd cfgs) cfgs then Shared (hd cfgs) else PerIteration cfgs),
                                rb_trigger_inputs = stored\<rparr>)))) w)"

definition batch_get_config :: "'c resolved_batch \<Rightarrow> int \<Rightarrow> exn + 'c" where
  "batch_get_config b i =
     (case rb_configs b of
        PerIteration cs \<Rightarrow>
          (case py_nth cs i of None \<Rightarrow> Inl (IndexError ''list index out of range'') | Some c \<Rightarrow> Inr c)
      | Shared c \<Rightarrow> Inr c)"

definition batch_count :: "'c resolved_batch \<Rightarrow> nat" where
  "batch_count b = length (rb_trigger_inputs b)"

section \<open>Preparation\<close>

record prepared_subflow =
  ps_wf_id :: string
  ps_dsl :: dsl_input
  ps_registry_lock :: pyval
  ps_trigger_inputs :: "stored_object option"
  ps_runtime_configs :: "dsl_config configs option"

definition prepared_count :: "prepared_subflow \<Rightarrow> exn + int" where
  "prepared_count p =
     (case ps_trigger_inputs p of
        None \<Rightarrow> Inr 1
      | Some (CollectionObject _ n _ _ _ _ _) \<Rightarrow> Inr n
      | Some (InlineObject (VList xs) _) \<Rightarrow> Inr (int (length xs))
      | Some obj \<Rightarrow> Inl (TypeError (''Expected CollectionObject or InlineObject with list, got '' @ type_name (VStored obj))))"

definition get_trigger_input_at :: "prepared_subflow \<Rightarrow> int \<Rightarrow> exn + stored_object option" where
  "get_trigger_input_at p i =
     (case ps_trigger_inputs p of
        None \<Rightarrow> Inr None
      | Some (CollectionObject m n cs ek sv ix tn) \<Rightarrow> Inr (Some (collection_item (CollectionObject m n cs ek sv ix tn) i))
      | Some (InlineObject (VList xs) _) \<Rightarrow>
          (case py_nth xs i of
             None \<Rightarrow> Inl (IndexError ''list index out of range'') | Some x \<Rightarrow> Inr (Some (new_inline x None)))
      | Some obj \<Rightarrow> Inl (TypeError (''Expected CollectionObject or InlineObject with list, got '' @ type_name (VStored obj))))"

definition get_config :: "prepared_subflow \<Rightarrow> int \<Rightarrow> exn + dsl_config" where
  "get_config p i =
     (case ps_runtime_configs p of
        None \<Rightarrow> Inr (config (ps_dsl p))
      | Some (PerIteration cs) \<Rightarrow>
          (case py_nth cs i of None \<Rightarrow> Inl (IndexError ''list index out of range'') | Some c \<Rightarrow> Inr c)
      | Some (Shared c) \<Rightarrow> Inr c)"

definition resolve_workflow_id :: "subflow_env \<Rightarrow> subflow_args \<Rightarrow> bool \<Rightarrow> exn + string" where
  "resolve_workflow_id sf a use_committed =
     (if (case sa_workflow_alias a of Some s \<Rightarrow> s \<noteq> [] | None \<Rightarrow> False)
      then sbind (sf_resolve_alias sf (the (sa_workflow_alias a)) use_committed) (\<lambda>r.
             case r of
               None \<Rightarrow> Inl (UserError (''Workflow alias '' @ CHR 0x27 # the (sa_workflow_alias a) @ CHR 0x27 # '' not found''))
             | Some wf_id \<Rightarrow> Inr wf_id)
      else case sa_workflow_id a of
             Some wf_id \<Rightarrow> Inr wf_id
           | None \<Rightarrow> Inl (UserError ''Either workflow_id or workflow_alias must be provided''))"

definition prepare_subflow ::
  "subflow_env \<Rightarrow> 'w storage_env \<Rightarrow> nat \<Rightarrow> action_stmt \<Rightarrow> exec_context \<Rightarrow> string \<Rightarrow> bool \<Rightarrow>
   'w \<Rightarrow> (materialize_failure + (fault + prepared_subflow)) \<times> 'w"
where
  "prepare_subflow sf env depth task operand key use_committed =
     with_materialized env depth operand (\<lambda>materialized.
       io_bind (io_lift (evaluate_subflow_args sf (args task) materialized)) (\<lambda>(evaluated, a).
       io_bind (io_lift (resolve_workflow_id sf a use_committed)) (\<lambda>wf_id.
       io_bind (io_lift (sf_definition sf wf_id (arg_or_none evaluated ''version''))) (\<lambda>defn.
         case defn of
           None \<Rightarrow> io_raise (UserError (''Workflow definition not found for '' @ wf_id))
         | Some (dsl, lock) \<Rightarrow>
             if \<not> py_bool (for_each_expr task)
             then io_bind (io_lift (evaluate_subflow_args sf (args task) materialized)) (\<lambda>(_, a').
                    io_return \<lparr>ps_wf_id = wf_id, ps_dsl = dsl, ps_registry_lock = lock, ps_trigger_inputs = None,
                       ps_runtime_configs = Some (Shared (resolved_config a' (config dsl)))\<rparr>)
             else io_bind (io_lift (evaluate_loop_iterations sf task materialized (config dsl))) (\<lambda>(tis, cfgs).
                  io_bind (store_list env (key @ ''/trigger_inputs'') tis) (\<lambda>stored.
                    io_return \<lparr>ps_wf_id = wf_id, ps_dsl = dsl, ps_registry_lock = lock,
                       ps_trigger_inputs = Some stored, ps_runtime_configs = Some cfgs\<rparr>))))))"

section \<open>Every iteration gets its own inputs\<close>

definition loop_vars_ok ::
  "(('a \<Rightarrow> exn + pyval \<times> dsl_config)) \<Rightarrow> 'a list \<Rightarrow> loop_vars \<Rightarrow> bool"
where
  "loop_vars_ok body xs vars \<longleftrightarrow>
     (case vars of (tis, cfgs, first, same) \<Rightarrow>
        length tis = length xs \<and> length cfgs = length xs \<and>
        (\<forall>i < length xs. body (xs ! i) = Inr (tis ! i, cfgs ! i)) \<and>
        first = (if cfgs = [] then None else Some (hd cfgs)) \<and> (same \<longleftrightarrow> (\<forall>c \<in> set cfgs. c = hd cfgs)))"

lemma loop_step_ok:
  assumes "loop_vars_ok (iteration sf task mat cfg) xs vars" and "loop_step sf task mat cfg x vars = Inr vars'"
  shows "loop_vars_ok (iteration sf task mat cfg) (xs @ [x]) vars'"
proof -
  obtain tis cfgs first same where vars: "vars = (tis, cfgs, first, same)" by (cases vars)
  from assms(2) obtain ti c where it: "iteration sf task mat cfg x = Inr (ti, c)"
    and vars': "vars' = (tis @ [ti], cfgs @ [c],
      case first of None \<Rightarrow> (Some c, same) | Some f \<Rightarrow> (first, if same \<and> c \<noteq> f then False else same))"
    by (auto simp: loop_step_def vars sbind_eq_Inr split: option.splits)
  from assms(1) have len: "length tis = length xs" "length cfgs = length xs"
    and body: "\<forall>i < length xs. iteration sf task mat cfg (xs ! i) = Inr (tis ! i, cfgs ! i)"
    and first: "first = (if cfgs = [] then None else Some (hd cfgs))"
    and same: "same \<longleftrightarrow> (\<forall>c \<in> set cfgs. c = hd cfgs)" by (simp_all add: loop_vars_ok_def vars)
  have "iteration sf task mat cfg ((xs @ [x]) ! i) = Inr ((tis @ [ti]) ! i, (cfgs @ [c]) ! i)"
    if "i < length (xs @ [x])" for i
    using that body it len by (cases "i = length xs") (simp_all add: nth_append)
  moreover have "(case first of None \<Rightarrow> (Some c, same) | Some f \<Rightarrow> (first, if same \<and> c \<noteq> f then False else same)) =
      (Some (hd (cfgs @ [c])), \<forall>d \<in> set (cfgs @ [c]). d = hd (cfgs @ [c]))"
    using same by (cases cfgs) (auto simp: first)
  ultimately show ?thesis using len unfolding vars' loop_vars_ok_def by simp
qed

lemma loop_ok:
  assumes "sfold (loop_step sf task mat cfg) ys vars = Inr vars'" and "loop_vars_ok (iteration sf task mat cfg) xs vars"
  shows "loop_vars_ok (iteration sf task mat cfg) (xs @ ys) vars'"
  using assms
proof (induction ys arbitrary: xs vars)
  case (Cons y ys)
  from Cons.prems(1) obtain vars1 where "loop_step sf task mat cfg y vars = Inr vars1"
    and "sfold (loop_step sf task mat cfg) ys vars1 = Inr vars'" by (auto simp: sbind_eq_Inr)
  with Cons.IH [of vars1 "xs @ [y]"] loop_step_ok [OF Cons.prems(2)] show ?case by simp
qed simp

text \<open>Reading a configuration at an index, shared or not.\<close>

definition config_at :: "'c configs \<Rightarrow> nat \<Rightarrow> 'c option" where
  "config_at cs i = (case cs of Shared c \<Rightarrow> Some c | PerIteration xs \<Rightarrow> if i < length xs then Some (xs ! i) else None)"

lemma evaluate_loop_iterations_spec:
  assumes "evaluate_loop_iterations sf task mat cfg = Inr (tis, cfgs)"
  obtains its where "sf_iterables sf (for_each_expr task) mat = Inr its"
    and "length (zip_iterators its) \<le> MAX_LOOP_ITERATIONS" and "length tis = length (zip_iterators its)"
    and "\<forall>i < length tis. \<exists>c. iteration sf task mat cfg (zip_iterators its ! i) = Inr (tis ! i, c) \<and> config_at cfgs i = Some c"
proof -
  from assms obtain its tis' cs first same where its: "sf_iterables sf (for_each_expr task) mat = Inr its"
    and max: "length (zip_iterators its) \<le> MAX_LOOP_ITERATIONS"
    and run: "sfold (loop_step sf task mat cfg) (zip_iterators its) ([], [], None, True) = Inr (tis, cs, first, same)"
    and cfgs: "cfgs = (case first of Some f \<Rightarrow> if same then Shared f else PerIteration cs | None \<Rightarrow> PerIteration cs)"
    by (auto simp: evaluate_loop_iterations_def Let_def sbind_eq_Inr not_less split: if_splits sum.splits)
  from loop_ok [OF run, of "[]"] have ok: "loop_vars_ok (iteration sf task mat cfg) (zip_iterators its) (tis, cs, first, same)"
    by (simp add: loop_vars_ok_def)
  have "config_at cfgs i = Some (cs ! i)" if "i < length tis" for i
  proof -
    from ok that have cs: "i < length cs" "first = Some (hd cs)" "same \<longleftrightarrow> (\<forall>c \<in> set cs. c = hd cs)"
      by (auto simp: loop_vars_ok_def)
    then have "same \<Longrightarrow> cs ! i = hd cs" by (metis nth_mem)
    with cs show ?thesis by (cases same) (simp_all only: cfgs config_at_def option.case configs.case if_True if_False)
  qed
  with ok its max that show ?thesis by (auto simp: loop_vars_ok_def)
qed

lemma io_raise_eq_Inr: "io_raise e w = (Inr a, w') \<longleftrightarrow> False"
  by (simp add: io_raise_def)

lemma get_config_at: "ps_runtime_configs p = Some cs \<Longrightarrow> config_at cs i = Some c \<Longrightarrow> get_config p (int i) = Inr c"
  by (auto simp: get_config_def config_at_def py_nth_def split: configs.splits if_splits)

lemma norm_index_int [simp]: "i < n \<Longrightarrow> norm_index n (int i) = Some i"
  by simp

lemma collection_held_at: "collection_held env C coll ek items \<Longrightarrow> collection_held env C (collection_item coll i) ek items"
  by (auto simp: collection_held_def collection_item_def)

text \<open>The stored trigger inputs: their number, and each of them through its own handle.\<close>

lemma trigger_inputs_roundtrip:
  assumes world: "reliable_world env content cached" and chunk: "0 < collection_chunk_size env"
    and json: "list_all json_value items" and store: "store_list env key items w = (Inr st, w1)"
    and p: "ps_trigger_inputs p = Some st"
    and later: "content w1 \<subseteq>\<^sub>m content w2" "coherent env content cached w2"
  shows "prepared_count p = Inr (int (length items)) \<and>
     (\<forall>i < length items. \<exists>h w3. get_trigger_input_at p (int i) = Inr (Some h) \<and>
        retrieve_stored_object env 2 h w2 = (Inr (items ! i), w3))"
proof (cases "externalization_enabled env")
  case True
  with store have refs: "store_collection_as_refs env key items w = (Inr st, w1)" by (simp add: store_list_def)
  from reliable_world.axioms(1) [OF world] True chunk json refs obtain rs m n cs where
    held: "collection_held env (content w1) st KindStoredObject rs"
    and elems: "list_all2 (element_held env (content w1) KindStoredObject) rs items"
    and shape: "st = CollectionObject m n cs KindStoredObject 1 None (Some ''list'')"
    by (rule blob_world.store_refs_held)
  have held2: "collection_held env (content w2) st KindStoredObject rs" using held later(1) by (rule collection_held_mono)
  have n: "n = int (length items)"
    using held shape list_all2_lengthD [OF elems] by (auto simp: collection_held_def)
  have m: "backend m = ''s3''" using held shape by (auto simp: collection_held_def held_def wf_ref_def)
  have "\<exists>w3. retrieve_stored_object env 2 (collection_item st (int i)) w2 = (Inr (items ! i), w3)" if i: "i < length items" for i
  proof -
    have "element_held env (content w2) KindStoredObject (rs ! i) (items ! i)"
      using elems i later(1) by (auto simp: list_all2_conv_all_nth intro: element_held_mono)
    moreover have "norm_index (length rs) (int i) = Some i" using i list_all2_lengthD [OF elems] by simp
    ultimately have "yields (settled env content cached (content w2))
        (get_collection_item env (retrieve_stored_object env (Suc 0)) (collection_item st (int i)) (int i)) (items ! i)"
      using reliable_world.yields_item [OF world collection_held_at [OF held2]] by blast
    then show ?thesis using later(2) m
      by (auto simp: yields_def shape collection_item_def s3_retrieve_def numeral_2_eq_2)
  qed
  then show ?thesis
    by (auto simp: p shape n prepared_count_def get_trigger_input_at_def)
next
  case False
  with store have "st = InlineObject (VList items) (Some ''list'')" by (auto simp: store_list_def io_return_eq_Inr)
  then show ?thesis
    by (auto simp: p prepared_count_def get_trigger_input_at_def py_nth_def new_inline_def io_return_eq_Inr)
qed

lemma map_prod_Inr: "map_prod Inr id x = (Inr a, w) \<longleftrightarrow> x = (a, w)"
  by (cases x) auto

lemma prepare_loop:
  assumes "prepare_subflow sf env d task operand key uc w = (Inr (Inr p), w1)" and "py_bool (for_each_expr task)"
  obtains mat tis cfgs w0 st where "fst (materialize_context env d operand w) = Inr mat"
    and "evaluate_loop_iterations sf task mat (config (ps_dsl p)) = Inr (tis, cfgs)"
    and "store_list env (key @ ''/trigger_inputs'') tis w0 = (Inr st, w1)"
    and "ps_trigger_inputs p = Some st" and "ps_runtime_configs p = Some cfgs"
proof -
  obtain r w0 where m: "materialize_context env d operand w = (r, w0)" by fastforce
  with assms obtain mat where "r = Inr mat" by (cases r) (auto simp: prepare_subflow_def with_materialized_def)
  with m assms that show ?thesis
    by (auto simp: prepare_subflow_def with_materialized_def map_prod_Inr io_bind_eq_Inr io_lift_eq_Inr io_return_eq_Inr io_raise_eq_Inr
        split: option.splits)
qed

text \<open>C14: every child of a looped subflow gets its own inputs. When the preparation returns, the number of
  children is the number of items the iterators yield together, and for each index the configuration and
  the trigger-input handle handed to the child are those of evaluating the arguments with that index's
  items: sharing one configuration when all are equal, and storing the inputs in chunks, lose nothing.\<close>

theorem loop_children_inputs:
  assumes world: "reliable_world env content cached" and chunk: "0 < collection_chunk_size env"
    and prep: "prepare_subflow sf env d task operand key uc w = (Inr (Inr p), w1)"
    and loop: "py_bool (for_each_expr task)"
    and json: "\<And>mat cfg items ti c. iteration sf task mat cfg items = Inr (ti, c) \<Longrightarrow> json_value ti"
    and later: "content w1 \<subseteq>\<^sub>m content w2" "coherent env content cached w2"
  shows "\<exists>mat its. fst (materialize_context env d operand w) = Inr mat \<and>
     sf_iterables sf (for_each_expr task) mat = Inr its \<and>
     length (zip_iterators its) \<le> MAX_LOOP_ITERATIONS \<and>
     prepared_count p = Inr (int (length (zip_iterators its))) \<and>
     (\<forall>i < length (zip_iterators its). \<exists>ti c h w3.
        iteration sf task mat (config (ps_dsl p)) (zip_iterators its ! i) = Inr (ti, c) \<and>
        get_config p (int i) = Inr c \<and> get_trigger_input_at p (int i) = Inr (Some h) \<and>
        retrieve_stored_object env 2 h w2 = (Inr ti, w3))"
proof -
  from prep loop obtain mat tis cfgs w0 st where mat: "fst (materialize_context env d operand w) = Inr mat"
    and ev: "evaluate_loop_iterations sf task mat (config (ps_dsl p)) = Inr (tis, cfgs)"
    and st: "store_list env (key @ ''/trigger_inputs'') tis w0 = (Inr st, w1)"
    and p: "ps_trigger_inputs p = Some st" "ps_runtime_configs p = Some cfgs" by (rule prepare_loop)
  from ev obtain its where its: "sf_iterables sf (for_each_expr task) mat = Inr its"
    and max: "length (zip_iterators its) \<le> MAX_LOOP_ITERATIONS" and len: "length tis = length (zip_iterators its)"
    and each: "\<forall>i < length tis. \<exists>c. iteration sf task mat (config (ps_dsl p)) (zip_iterators its ! i) = Inr (tis ! i, c) \<and>
      config_at cfgs i = Some c" by (rule evaluate_loop_iterations_spec)
  have "list_all json_value tis" using each json by (force simp: list_all_length)
  note stored = trigger_inputs_roundtrip [OF world chunk this st p(1) later]
  have "\<exists>ti c h w3. iteration sf task mat (config (ps_dsl p)) (zip_iterators its ! i) = Inr (ti, c) \<and>
      get_config p (int i) = Inr c \<and> get_trigger_input_at p (int i) = Inr (Some h) \<and>
      retrieve_stored_object env 2 h w2 = (Inr ti, w3)" if "i < length (zip_iterators its)" for i
    using each stored that len get_config_at [OF p(2)] by metis
  with mat its max stored len show ?thesis by (intro exI [of _ mat] exI [of _ its]) simp
qed

text \<open>A run: a loop over two items whose children get the item as trigger input.\<close>

definition int_only :: "pyval \<Rightarrow> pyval" where
  "int_only v = (case v of VInt i \<Rightarrow> VInt i | _ \<Rightarrow> VNone)"

lemma json_int_only [simp]: "json_value (int_only v)"
  by (cases v) (simp_all add: int_only_def)

definition sample_subflow_env :: subflow_env where
  "sample_subflow_env =
     \<lparr>sf_eval = (\<lambda>obj ctx. Inr (case dict_get ctx ''var'' of Some (VDict d) \<Rightarrow> get_default VNone d ''x'' | _ \<Rightarrow> VNone)),
      sf_iterables = (\<lambda>e ctx. Inr [\<lparr>iterator = ''.x'', collection = [VInt 1, VInt 2]\<rparr>]),
      sf_validate_args = (\<lambda>v. Inr \<lparr>sa_workflow_id = None, sa_workflow_alias = Some ''child'', sa_environment = None,
         sa_timeout = None, sa_trigger_inputs = int_only v\<rparr>),
      sf_config = (\<lambda>e t. Inr (None, None)),
      sf_resolve_alias = (\<lambda>a c. Inr (Some ''wf'')),
      sf_definition = (\<lambda>i v. Inr (Some (\<lparr>title = ''child'', dsl_description = [], entrypoint_ref = None, actions = [],
         config = \<lparr>cfg_environment = ''default'', cfg_timeout = 0\<rparr>, returns = VNone, error_handler = None\<rparr>, VNone)))\<rparr>"

definition sample_loop_task :: action_stmt where
  "sample_loop_task = (new_stmt ''kids'' ''core.workflow.execute'')\<lparr>for_each_expr := VStr ''for x''\<rparr>"

lemma sample_store_refs:
  "\<exists>st w1. store_list mem_env ''k/trigger_inputs'' [VInt 1, VInt 2] mem_empty = (Inr st, w1)"
proof -
  let ?loop = "io_map (\<lambda>(i, item). io_bind (storage_store mem_env (collection_item_key ''k/trigger_inputs'' (int i)) item) (\<lambda>st.
      io_return (dump_stored mem_env st))) (enumerate 0 [VInt 1, VInt 2])"
  obtain refs w1 where loop: "?loop mem_empty = (Inr refs, w1)"
    and refs: "list_all json_value refs" "list_all encodable refs"
    by (simp add: storage_store_def s3_store_def serialize_object_def upload_file_def io_bind_def io_simps
        enc_list_def enc_char_def new_inline_def opt_str_def)
  from mem_store_collection [OF refs, of None "''k/trigger_inputs''" KindStoredObject None] loop show ?thesis
    by (auto simp: store_list_def store_collection_as_refs_def io_bind_def goes_through_def int_or_def)
qed

lemma sample_iteration_json: "iteration sample_subflow_env t mat cfg items = Inr (ti, c) \<Longrightarrow> json_value ti"
  by (auto simp: iteration_def sample_subflow_env_def evaluate_subflow_args_def sbind_eq_Inr)

theorem loop_children_inputs_witness:
  "\<exists>p w1. prepare_subflow sample_subflow_env mem_env 2 sample_loop_task empty_context ''k'' True mem_empty = (Inr (Inr p), w1) \<and>
     prepared_count p = Inr 2 \<and> (\<exists>h w3. get_trigger_input_at p 1 = Inr (Some h) \<and>
       retrieve_stored_object mem_env 2 h w1 = (Inr (VInt 2), w3))"
proof -
  obtain st w1 where st: "store_list mem_env ''k/trigger_inputs'' [VInt 1, VInt 2] mem_empty = (Inr st, w1)"
    using sample_store_refs by blast
  have mat: "materialize_context mem_env 2 empty_context mem_empty = (Inr [], mem_empty)"
    by (simp add: materialize_context_def empty_context_def io_simps)
  have its: "zip_iterators [\<lparr>iterator = ''.x'', collection = [VInt 1, VInt 2]\<rparr>] = [[(''.x'', VInt 1)], [(''.x'', VInt 2)]]"
    by (simp add: zip_iterators_def upt_rec)
  have patch: "patch_iteration [] [(''.x'', v)] = Inr [(''var'', VDict [(''x'', v)])]" for v
    by (simp add: patch_iteration_def patch_object_def)
  obtain p where run: "prepare_subflow sample_subflow_env mem_env 2 sample_loop_task empty_context ''k'' True mem_empty =
      (Inr (Inr p), w1)"
    using st by (simp add: prepare_subflow_def with_materialized_def mat evaluate_subflow_args_def sample_subflow_env_def resolve_workflow_id_def
        sample_loop_task_def new_stmt_def evaluate_loop_iterations_def its MAX_LOOP_ITERATIONS_def loop_step_def
        iteration_def patch int_only_def io_bind_def io_simps get_default_def)
  have "mem_cached w1 \<subseteq>\<^sub>m mem_cached mem_empty"
    using st by (simp add: store_list_def) (erule mem.store_refs_held [rotated 3], simp_all)
  then have coh: "coherent mem_env mem_content mem_cached w1" by (rule mem_coherent)
  have loop: "py_bool (for_each_expr sample_loop_task)" by (simp add: sample_loop_task_def)
  have sf: "sf_iterables sample_subflow_env (for_each_expr sample_loop_task) [] =
      Inr [\<lparr>iterator = ''.x'', collection = [VInt 1, VInt 2]\<rparr>]" by (simp add: sample_subflow_env_def)
  have second: "iteration sample_subflow_env sample_loop_task [] cfg [(''.x'', VInt 2)] = Inr (ti, c) \<Longrightarrow> ti = VInt 2" for cfg ti c
    by (simp add: iteration_def patch evaluate_subflow_args_def sample_subflow_env_def int_only_def get_default_def)
  have "0 < collection_chunk_size mem_env" by simp
  from loop_children_inputs [where ?w2.0 = w1, OF mem.reliable_world_axioms this run loop] sample_iteration_json coh mat sf
  have count: "prepared_count p = Inr 2" and each: "\<forall>i < 2. \<exists>ti c h w3.
      iteration sample_subflow_env sample_loop_task [] (config (ps_dsl p)) ([[(''.x'', VInt 1)], [(''.x'', VInt 2)]] ! i) = Inr (ti, c) \<and>
      get_config p (int i) = Inr c \<and> get_trigger_input_at p (int i) = Inr (Some h) \<and>
      retrieve_stored_object mem_env 2 h w1 = (Inr ti, w3)" by (auto simp: its)
  from spec [OF each, of 1] second run count show ?thesis by auto
qed

end
