(* ===== verification/Secrets_Mask.thy ===== *)
theory Secrets_Mask
  imports Dsl_Values "HOL-Library.Sublist"
begin

text \<open>
  Masking of secret values in action results (\<open>tracecat/secrets/common.py\<close>): the compiled pattern,
  which is an alternation of escaped literals, longest first; \<open>re.sub\<close> with it; and the traversal of
  nested results.
\<close>

section \<open>The pattern\<close>

definition MASK_VALUE :: string where
  "MASK_VALUE = ''***''"

text \<open>\<open>list.sort(key=len, reverse=True)\<close> keeps the order of equally long masks.\<close>

definition compile_mask_pattern :: "string list \<Rightarrow> string list option" where
  "compile_mask_pattern masks =
     (let filtered_masks = filter (\<lambda>mask. length mask > 1) masks
      in if filtered_masks = [] then None
         else Some (sort_key (\<lambda>mask. - int (length mask)) filtered_masks))"

text \<open>
  \<open>pattern.sub(MASK_VALUE, value)\<close>: at each position the first alternative that matches is replaced
  and the scan goes on behind it. No alternative is empty.
\<close>

function pattern_sub :: "string list \<Rightarrow> string \<Rightarrow> string" where
  "pattern_sub alternatives [] = []"
| "pattern_sub alternatives (c # cs) =
     (case List.find (\<lambda>m. prefix m (c # cs)) alternatives of
        Some m \<Rightarrow> MASK_VALUE @ pattern_sub alternatives (drop (length m - 1) cs)
      | None \<Rightarrow> c # pattern_sub alternatives cs)"
  by pat_completeness auto
termination by (relation "measure (\<lambda>(_, s). length s)") auto

definition apply_mask_pattern :: "string \<Rightarrow> string list option \<Rightarrow> string" where
  "apply_mask_pattern v pattern = (case pattern of None \<Rightarrow> v | Some alternatives \<Rightarrow> pattern_sub alternatives v)"

definition apply_masks :: "string \<Rightarrow> string list \<Rightarrow> string" where
  "apply_masks v masks = apply_mask_pattern v (compile_mask_pattern masks)"

section \<open>Nested results\<close>

text \<open>\<open>_apply_masks_object\<close>: strings, lists and the values of mappings; the keys are kept.\<close>

function apply_masks_object_rec :: "string list option \<Rightarrow> pyval \<Rightarrow> pyval" where
  "apply_masks_object_rec pattern obj =
     (case obj of
        VStr s \<Rightarrow> VStr (apply_mask_pattern s pattern)
      | VList xs \<Rightarrow> VList (map (apply_masks_object_rec pattern) xs)
      | VDict d \<Rightarrow> VDict (map (\<lambda>kv. (fst kv, apply_masks_object_rec pattern (snd kv))) d)
      | _ \<Rightarrow> obj)"
  by pat_completeness auto

termination apply_masks_object_rec
proof (relation "measure (\<lambda>(_, obj). size obj)")
  fix pattern obj xs x
  assume "obj = VList xs" and "x \<in> set xs"
  from size_item [OF this] show "((pattern, x), pattern, obj) \<in> measure (\<lambda>(_, obj). size obj)" by simp
next
  fix pattern obj d kv
  assume "obj = VDict d" and "kv \<in> set d"
  from size_entry [OF this] show "((pattern, snd kv), pattern, obj) \<in> measure (\<lambda>(_, obj). size obj)" by simp
qed simp

declare apply_masks_object_rec.simps [simp del]

lemma apply_masks_object_rec_simps [simp]:
  "apply_masks_object_rec pattern VNone = VNone"
  "apply_masks_object_rec pattern (VBool b) = VBool b"
  "apply_masks_object_rec pattern (VInt i) = VInt i"
  "apply_masks_object_rec pattern (VFloat x) = VFloat x"
  "apply_masks_object_rec pattern (VStr s) = VStr (apply_mask_pattern s pattern)"
  "apply_masks_object_rec pattern (VList xs) = VList (map (apply_masks_object_rec pattern) xs)"
  "apply_masks_object_rec pattern (VDict d) = VDict (map (\<lambda>kv. (fst kv, apply_masks_object_rec pattern (snd kv))) d)"
  "apply_masks_object_rec pattern (VStored r) = VStored r"
  by (subst apply_masks_object_rec.simps, simp)+

definition apply_masks_object :: "pyval \<Rightarrow> string list \<Rightarrow> pyval" where
  "apply_masks_object obj masks = apply_masks_object_rec (compile_mask_pattern masks) obj"

section \<open>Masking removes every secret\<close>

lemma compile_mask_pattern_Some:
  assumes "m \<in> set masks" and "1 < length m"
  obtains alternatives where "compile_mask_pattern masks = Some alternatives" and "m \<in> set alternatives"
    and "[] \<notin> set alternatives"
proof -
  have ne: "filter (\<lambda>mask. 1 < length mask) masks \<noteq> []" using assms by (auto simp: filter_empty_conv)
  show ?thesis
    by (rule that [of "sort_key (\<lambda>mask. - int (length mask)) (filter (\<lambda>mask. 1 < length mask) masks)"])
      (use ne assms in \<open>simp_all add: compile_mask_pattern_def Let_def\<close>)
qed

lemma prefix_of_masked:
  assumes "prefix m (pattern_sub alternatives s)" and "CHR ''*'' \<notin> set m"
  shows "prefix m s"
  using assms
proof (induction alternatives s arbitrary: m rule: pattern_sub.induct)
  case (2 alternatives c cs)
  then show ?case
  proof (cases "List.find (\<lambda>m. prefix m (c # cs)) alternatives")
    case None
    with 2 show ?thesis by (cases m) auto
  next
    case (Some a)
    with 2 show ?thesis by (cases m) (auto simp: MASK_VALUE_def)
  qed
qed simp

lemma sublist_behind_mask:
  assumes "sublist m (MASK_VALUE @ s)" and "CHR ''*'' \<notin> set m" and "m \<noteq> []"
  shows "sublist m s"
  using assms by (cases m) (auto simp: MASK_VALUE_def sublist_Cons_right)

lemma pattern_sub_removes:
  assumes "m \<in> set alternatives" and "m \<noteq> []" and "CHR ''*'' \<notin> set m"
  shows "\<not> sublist m (pattern_sub alternatives s)"
  using assms
proof (induction alternatives s rule: pattern_sub.induct)
  case (2 alternatives c cs)
  show ?case
  proof (cases "List.find (\<lambda>m. prefix m (c # cs)) alternatives")
    case None
    then have "\<not> prefix m (c # cs)" using 2(3) by (auto simp: find_None_iff)
    moreover have "\<not> sublist m (pattern_sub alternatives cs)" using 2 None by blast
    ultimately show ?thesis
      using None prefix_of_masked [of m alternatives "c # cs"] 2(5) by (auto simp: sublist_Cons_right)
  next
    case (Some a)
    with 2 show ?thesis using sublist_behind_mask by fastforce
  qed
qed simp

lemma pattern_sub_unchanged:
  assumes "\<forall>m \<in> set alternatives. \<not> sublist m s"
  shows "pattern_sub alternatives s = s"
  using assms
proof (induction alternatives s rule: pattern_sub.induct)
  case (2 alternatives c cs)
  then have "List.find (\<lambda>m. prefix m (c # cs)) alternatives = None" by (auto simp: find_None_iff sublist_Cons_right)
  with 2 show ?case by (auto simp: sublist_Cons_right)
qed simp

text \<open>The strings among the values of a result, and the keys of its mappings.\<close>

function leaf_strings :: "pyval \<Rightarrow> string list" where
  "leaf_strings obj =
     (case obj of
        VStr s \<Rightarrow> [s]
      | VList xs \<Rightarrow> concat (map leaf_strings xs)
      | VDict d \<Rightarrow> concat (map (\<lambda>kv. leaf_strings (snd kv)) d)
      | _ \<Rightarrow> [])"
  by pat_completeness auto
termination
proof (relation "measure size")
  fix obj xs x
  assume "obj = VList xs" and "x \<in> set xs"
  from size_item [OF this] show "(x, obj) \<in> measure size" by simp
next
  fix obj d kv
  assume "obj = VDict d" and "kv \<in> set d"
  from size_entry [OF this] show "(snd kv, obj) \<in> measure size" by simp
qed simp

declare leaf_strings.simps [simp del]

lemma leaf_strings_simps [simp]:
  "leaf_strings VNone = []"
  "leaf_strings (VBool b) = []"
  "leaf_strings (VInt i) = []"
  "leaf_strings (VFloat x) = []"
  "leaf_strings (VStr s) = [s]"
  "leaf_strings (VList xs) = concat (map leaf_strings xs)"
  "leaf_strings (VDict d) = concat (map (\<lambda>kv. leaf_strings (snd kv)) d)"
  "leaf_strings (VStored r) = []"
  by (subst leaf_strings.simps, simp)+

function all_keys :: "pyval \<Rightarrow> string list" where
  "all_keys obj =
     (case obj of
        VList xs \<Rightarrow> concat (map all_keys xs)
      | VDict d \<Rightarrow> concat (map (\<lambda>kv. fst kv # all_keys (snd kv)) d)
      | _ \<Rightarrow> [])"
  by pat_completeness auto
termination
proof (relation "measure size")
  fix obj xs x
  assume "obj = VList xs" and "x \<in> set xs"
  from size_item [OF this] show "(x, obj) \<in> measure size" by simp
next
  fix obj d kv
  assume "obj = VDict d" and "kv \<in> set d"
  from size_entry [OF this] show "(snd kv, obj) \<in> measure size" by simp
qed simp

declare all_keys.simps [simp del]

lemma all_keys_simps [simp]:
  "all_keys VNone = []"
  "all_keys (VBool b) = []"
  "all_keys (VInt i) = []"
  "all_keys (VFloat x) = []"
  "all_keys (VStr s) = []"
  "all_keys (VList xs) = concat (map all_keys xs)"
  "all_keys (VDict d) = concat (map (\<lambda>kv. fst kv # all_keys (snd kv)) d)"
  "all_keys (VStored r) = []"
  by (subst all_keys.simps, simp)+

lemma leaf_strings_masked:
  "leaf_strings (apply_masks_object_rec pattern obj) = map (\<lambda>s. apply_mask_pattern s pattern) (leaf_strings obj)"
proof (induction obj rule: leaf_strings.induct)
  case (1 obj)
  then show ?case
    by (cases obj) (auto simp: map_concat comp_def intro!: arg_cong [where f = concat])
qed

lemma all_keys_masked: "all_keys (apply_masks_object_rec pattern obj) = all_keys obj"
proof (induction obj rule: leaf_strings.induct)
  case (1 obj)
  then show ?case
    by (cases obj) (auto simp: map_concat comp_def intro!: arg_cong [where f = concat])
qed

lemma apply_masks_removes:
  assumes "m \<in> set masks" and "1 < length m" and "CHR ''*'' \<notin> set m"
  shows "\<not> sublist m (apply_mask_pattern s (compile_mask_pattern masks))"
proof -
  obtain alternatives where "compile_mask_pattern masks = Some alternatives" and m: "m \<in> set alternatives"
    using compile_mask_pattern_Some [OF assms(1,2)] by blast
  moreover have "\<not> sublist m (pattern_sub alternatives s)"
    by (rule pattern_sub_removes [OF m _ assms(3)]) (use assms(2) in auto)
  ultimately show ?thesis by (simp add: apply_mask_pattern_def)
qed

lemma apply_masks_unchanged:
  assumes "\<forall>m \<in> set masks. 1 < length m \<longrightarrow> \<not> sublist m s"
  shows "apply_mask_pattern s (compile_mask_pattern masks) = s"
  using assms by (auto simp: apply_mask_pattern_def compile_mask_pattern_def Let_def intro: pattern_sub_unchanged)

text \<open>After masking, no string among the values of a result contains a secret of two or more
  characters (the masks themselves must be free of asterisks, as the replacement is made of them).
  The number and order of the strings and all the keys of mappings are kept, and a string that
  contained no secret is unchanged.\<close>

theorem masking_removes_secrets:
  assumes "\<forall>m \<in> set masks. CHR ''*'' \<notin> set m"
  shows "(\<forall>s \<in> set (leaf_strings (apply_masks_object obj masks)). \<forall>m \<in> set masks. 1 < length m \<longrightarrow> \<not> sublist m s) \<and>
    length (leaf_strings (apply_masks_object obj masks)) = length (leaf_strings obj) \<and>
    (\<forall>i < length (leaf_strings obj). (\<forall>m \<in> set masks. 1 < length m \<longrightarrow> \<not> sublist m (leaf_strings obj ! i)) \<longrightarrow>
       leaf_strings (apply_masks_object obj masks) ! i = leaf_strings obj ! i) \<and>
    all_keys (apply_masks_object obj masks) = all_keys obj"
  unfolding apply_masks_object_def leaf_strings_masked all_keys_masked
  using assms apply_masks_removes apply_masks_unchanged by auto

theorem masking_removes_secrets_witness:
  "\<not> sublist ''s3cret'' (leaf_strings (apply_masks_object
      (VDict [(''token'', VList [VStr ''Bearer s3cret!''])]) [''s3cret'', ''s3'', ''x'']) ! 0)"
proof -
  let ?o = "VDict [(''token'', VList [VStr ''Bearer s3cret!''])]" and ?ms = "[''s3cret'', ''s3'', ''x'']"
  have "\<forall>m \<in> set ?ms. CHR ''*'' \<notin> set m" by simp
  note masked = masking_removes_secrets [OF this, of ?o]
  have "length (leaf_strings ?o) = 1" by simp
  with masked have "leaf_strings (apply_masks_object ?o ?ms) ! 0 \<in> set (leaf_strings (apply_masks_object ?o ?ms))"
    by (intro nth_mem) simp
  with masked show ?thesis by simp
qed

text \<open>A secret used as a key of a mapping survives masking.\<close>

theorem masking_keeps_secret_keys:
  "all_keys (apply_masks_object (VDict [(''s3cret'', VStr ''s3cret'')]) [''s3cret'']) = [''s3cret'']"
  by (simp add: apply_masks_object_def)

end
