(* ===== verification/Executor.thy ===== *)
theory Executor
  imports Subflows Authz_Scopes Secrets_Mask
begin

text \<open>
  Execution of one action (\<open>tracecat/executor/service.py\<close>): preparation of the resolved context, steps
  of template actions, the call of the backend, error records and masking of the result. The registry
  resolver, secret and variable stores, token signing, the expression policy with its evaluator and
  the backend are parameters, the fields of \<open>executor_env\<close>.
\<close>

section \<open>Data\<close>

record executor_error_info =
  ei_action_name :: string
  ei_type :: string
  ei_message :: string
  ei_filename :: string
  ei_function :: string
  ei_lineno :: "int option"
  loop_iteration :: "nat option"
  loop_variables :: pyval

text \<open>\<open>ExecutionError\<close> with its record, and every other exception.\<close>

datatype executor_exn = ExecutionError (execution_info: executor_error_info) | Raised exn

datatype executor_result = ExecutorResultSuccess pyval | ExecutorResultFailure executor_error_info

record action_impl =
  impl_type :: string
  template_definition :: "(string, pyval) dict"

record secret_projection =
  projected_env :: "(string, pyval) dict"
  mask_values :: "string list"

record executor_role =
  role_type :: string
  er_service_id :: string
  user_id :: "string option"
  organization_id :: "string option"
  workspace_id :: "string option"
  role_scopes :: scoped_role

record run_input =
  ri_task :: action_stmt
  ri_exec_context :: "(string, pyval) dict"
  ri_interaction :: pyval
  ri_wf_id :: string
  ri_wf_run_id :: string
  ri_environment :: string

record resolved_context =
  rc_secrets :: "(string, pyval) dict"
  rc_variables :: "(string, pyval) dict"
  rc_action_impl :: action_impl
  rc_evaluated_args :: "(string, pyval) dict"
  rc_workspace_id :: string
  rc_workflow_id :: string
  rc_run_id :: string
  rc_executor_token :: string
  rc_logical_time :: pyval
  rc_secret_projection :: secret_projection

record action_step =
  step_ref :: string
  step_action :: string
  step_args :: "(string, pyval) dict"

text \<open>An expected field is its default, if it has one.\<close>

record template_action_definition =
  td_action :: string
  td_expects :: "(string, pyval option) dict"
  td_steps :: "action_step list"
  td_returns :: pyval

text \<open>\<open>'p\<close> is the provenance of one template input.\<close>

record 'p executor_env =
  ex_prefetch_lock :: "string \<Rightarrow> exn + unit"
  ex_resolve_action :: "string \<Rightarrow> string \<Rightarrow> exn + action_impl"
  ex_collect_action_secrets :: "string \<Rightarrow> string \<Rightarrow> exn + string list"
  ex_plan_build :: "string \<Rightarrow> (string, pyval) dict \<Rightarrow> exn + (string, pyval) dict"
  ex_collect_expressions :: "(string, pyval) dict \<Rightarrow> exn + string list \<times> string list"
  ex_get_action_secrets :: "string list \<Rightarrow> string list \<Rightarrow> exn + (string, pyval) dict"
  ex_search_variables :: "string list \<Rightarrow> string \<Rightarrow> exn + (string \<times> pyval) list"
  ex_resolve_args :: "pyval \<Rightarrow> pyval \<Rightarrow> string \<Rightarrow> (string, pyval) dict \<Rightarrow> (string, pyval) dict \<Rightarrow> (string, 'p) dict \<Rightarrow>
     exn + (string, pyval) dict"
  ex_build_provenance :: "(string, pyval) dict \<Rightarrow> (string, 'p) dict option \<Rightarrow> exn + (string, 'p) dict"
  ex_fromisoformat :: "string \<Rightarrow> exn + pyval"
  ex_preprocess :: "executor_role \<Rightarrow> (string, pyval) dict \<Rightarrow> exn + (string, pyval) dict"
  ex_flatten_secrets :: "(string, pyval) dict \<Rightarrow> (string, pyval) dict"
  ex_str :: "pyval \<Rightarrow> string"
  ex_mint_token :: "string \<Rightarrow> executor_role \<Rightarrow> string \<Rightarrow> string \<Rightarrow> string \<Rightarrow> string \<Rightarrow> exn + string"
  ex_template_validate :: "(string, pyval) dict \<Rightarrow> exn + template_action_definition"
  ex_validate_expects :: "template_action_definition \<Rightarrow> (string, pyval) dict \<Rightarrow> exn + (string, pyval) dict"
  ex_eval_returns :: "pyval \<Rightarrow> pyval \<Rightarrow> (string, pyval) dict \<Rightarrow> exn + pyval"
  ex_execute :: "run_input \<Rightarrow> resolved_context \<Rightarrow> exn + executor_result"
  ex_last_frame :: "exn \<Rightarrow> string \<times> string \<times> int option"
  ex_disable_masking :: bool

text \<open>Code that raises ordinary exceptions, in code that may also raise \<open>ExecutionError\<close>.\<close>

definition lift_exn :: "exn + 'a \<Rightarrow> executor_exn + 'a" where
  "lift_exn r = (case r of Inl e \<Rightarrow> Inl (Raised e) | Inr x \<Rightarrow> Inr x)"

lemma lift_exn_simps [simp]: "lift_exn (Inl e) = Inl (Raised e)" "lift_exn (Inr x) = Inr x"
  by (simp_all add: lift_exn_def)

definition from_exc :: "'p executor_env \<Rightarrow> exn \<Rightarrow> string \<Rightarrow> executor_error_info" where
  "from_exc env e action_name =
     (case ex_last_frame env e of (file, func, line) \<Rightarrow>
        \<lparr>ei_action_name = action_name, ei_type = exn_class e, ei_message = exn_text e, ei_filename = file,
         ei_function = func, ei_lineno = line, loop_iteration = None, loop_variables = VNone\<rparr>)"

section \<open>Secrets\<close>

text \<open>\<open>traverse_leaves\<close>: the paths and values of the leaves.\<close>

function traverse_leaves :: "string \<Rightarrow> pyval \<Rightarrow> (string \<times> pyval) list" where
  "traverse_leaves parent_key obj =
     (case obj of
        VDict d \<Rightarrow> concat (map (\<lambda>kv. traverse_leaves
          (if parent_key = [] then fst kv else parent_key @ ''.'' @ fst kv) (snd kv)) d)
      | VList xs \<Rightarrow> concat (map (\<lambda>ix. traverse_leaves (parent_key @ ''['' @ show_nat (fst ix) @ '']'') (snd ix))
          (enumerate 0 xs))
      | _ \<Rightarrow> [(parent_key, obj)])"
  by pat_completeness auto
termination
proof (relation "measure (\<lambda>(_, obj). size obj)")
  fix parent_key obj d kv
  assume "obj = VDict d" and "kv \<in> set d"
  from size_entry [OF this]
  show "((if parent_key = [] then fst kv else parent_key @ ''.'' @ fst kv, snd kv), parent_key, obj) \<in> measure (\<lambda>(_, obj). size obj)"
    by simp
next
  fix parent_key obj xs ix
  assume "obj = VList xs" and "ix \<in> set (enumerate 0 xs)"
  moreover from this(2) have "snd ix \<in> set xs" by (metis enumerate_eq_zip prod.collapse set_zip_rightD)
  ultimately show "((parent_key @ ''['' @ show_nat (fst ix) @ '']'', snd ix), parent_key, obj) \<in> measure (\<lambda>(_, obj). size obj)"
    using size_item [of obj xs "snd ix"] by simp
qed simp

declare traverse_leaves.simps [simp del]

definition leaf_masks :: "(pyval \<Rightarrow> string) \<Rightarrow> pyval \<Rightarrow> string list" where
  "leaf_masks str v =
     (if v = VNone then []
      else (if length (str v) > 1 then [str v] else []) @
           (case v of VStr s \<Rightarrow> if length s > 1 then [s] else [] | _ \<Rightarrow> []))"

definition collect_mask_values :: "(pyval \<Rightarrow> string) \<Rightarrow> (string, pyval) dict list \<Rightarrow> string list" where
  "collect_mask_values str secret_sources =
     remdups (concat (map (\<lambda>source. concat (map (\<lambda>(_, v). leaf_masks str v) (traverse_leaves [] (VDict source)))) secret_sources))"

definition project_secret_env ::
  "'p executor_env \<Rightarrow> (string, pyval) dict \<Rightarrow> executor_role \<Rightarrow> exn + secret_projection" where
  "project_secret_env env secrets role =
     sbind (ex_preprocess env role secrets) (\<lambda>projected_secrets.
       Inr \<lparr>projected_env = ex_flatten_secrets env projected_secrets,
            mask_values = collect_mask_values (ex_str env) [secrets, projected_secrets]\<rparr>)"

section \<open>Tokens and variables\<close>

definition execution_origin_for_role :: "executor_role \<Rightarrow> string" where
  "execution_origin_for_role role =
     (if role_type role = ''service'' \<and> er_service_id role = ''tracecat-mcp'' then ''agent'' else ''workflow'')"

definition mint_action_executor_token :: "'p executor_env \<Rightarrow> run_input \<Rightarrow> executor_role \<Rightarrow> exn + string" where
  "mint_action_executor_token env inp role =
     (case workspace_id role of
        None \<Rightarrow> Inl (ValueError ''workspace_id is required for action execution'')
      | Some w \<Rightarrow> ex_mint_token env w role (execution_origin_for_role role) (action (ri_task inp)) (ri_wf_id inp)
                    (ri_wf_run_id inp))"

definition get_workspace_variables ::
  "'p executor_env \<Rightarrow> string list \<Rightarrow> string \<Rightarrow> exn + (string, pyval) dict" where
  "get_workspace_variables env variable_exprs environment_name =
     (case ex_search_variables env variable_exprs environment_name of
        Inr variables \<Rightarrow> Inr (fold (\<lambda>(n, v). dict_set n v) variables [])
      | Inl e \<Rightarrow> if exn_class e = ''TracecatAuthorizationError'' then Inr [] else Inl e)"

section \<open>The resolved context\<close>

text \<open>\<open>(x or {}).get(key)\<close> on a context value.\<close>

definition get_or_empty :: "pyval \<Rightarrow> string \<Rightarrow> exn + pyval" where
  "get_or_empty v k =
     (case v of
        VDict d \<Rightarrow> Inr (get_default VNone d k)
      | _ \<Rightarrow> if py_bool v then Inl (PyError ''AttributeError'' (type_name v @ '' object has no attribute get'')) else Inr VNone)"

definition logical_time_of :: "'p executor_env \<Rightarrow> (string, pyval) dict \<Rightarrow> exn + pyval" where
  "logical_time_of env context =
     sbind (get_or_empty (get_default VNone context ''ENV'') ''workflow'') (\<lambda>workflow_context.
     sbind (get_or_empty workflow_context ''logical_time'') (\<lambda>t.
       case t of VStr s \<Rightarrow> ex_fromisoformat env s | _ \<Rightarrow> Inr t))"

record 'p prepared_context =
  pc_resolved_context :: resolved_context
  pc_mask_values :: "string list option"
  pc_provenance :: "(string, 'p) dict option"

definition prepare_resolved_context :: "'p executor_env \<Rightarrow> run_input \<Rightarrow> executor_role \<Rightarrow> exn + 'p prepared_context" where
  "prepare_resolved_context env inp role =
     (case organization_id role of
        None \<Rightarrow> Inl (ValueError ''organization_id is required for action execution'')
      | Some org \<Rightarrow>
          let action_name = action (ri_task inp); arguments = args (ri_task inp)
          in
          sbind (ex_resolve_action env action_name org) (\<lambda>impl.
          sbind (ex_collect_action_secrets env action_name org) (\<lambda>action_secrets.
          sbind (ex_plan_build env action_name arguments) (\<lambda>evaluable.
          sbind (if impl_type impl = ''template'' then sbind (ex_build_provenance env arguments None) (\<lambda>p. Inr (Some p))
                 else Inr None) (\<lambda>provenance.
          sbind (ex_collect_expressions env evaluable) (\<lambda>(secret_exprs, variable_exprs).
          sbind (ex_get_action_secrets env secret_exprs action_secrets) (\<lambda>secrets.
          sbind (get_workspace_variables env variable_exprs (ri_environment inp)) (\<lambda>workspace_variables.
          let context = dict_set ''VARS'' (VDict workspace_variables) (dict_set ''SECRETS'' (VDict secrets) (ri_exec_context inp))
          in
          sbind (logical_time_of env context) (\<lambda>logical_time.
          sbind (ex_resolve_args env logical_time (ri_interaction inp) action_name arguments context []) (\<lambda>evaluated_args.
          case workspace_id role of
            None \<Rightarrow> Inl (ValueError ''workspace_id is required for action execution'')
          | Some workspace \<Rightarrow>
              sbind (project_secret_env env secrets role) (\<lambda>projection.
              sbind (mint_action_executor_token env inp role) (\<lambda>token.
                Inr \<lparr>pc_resolved_context =
                       \<lparr>rc_secrets = secrets, rc_variables = workspace_variables, rc_action_impl = impl,
                        rc_evaluated_args = evaluated_args, rc_workspace_id = workspace,
                        rc_workflow_id = ri_wf_id inp, rc_run_id = ri_wf_run_id inp, rc_executor_token = token,
                        rc_logical_time = logical_time, rc_secret_projection = projection\<rparr>,
                     pc_mask_values = (if ex_disable_masking env then None else Some (mask_values projection)),
                     pc_provenance = provenance\<rparr>))))))))))))"

section \<open>Template actions\<close>

definition prepare_step_context ::
  "'p executor_env \<Rightarrow> string \<Rightarrow> (string, pyval) dict \<Rightarrow> resolved_context \<Rightarrow> run_input \<Rightarrow> executor_role \<Rightarrow> exn + resolved_context"
where
  "prepare_step_context env act evaluated_args parent inp role =
     (case organization_id role of
        None \<Rightarrow> Inl (ValueError ''organization_id is required for template step execution'')
      | Some org \<Rightarrow>
          sbind (ex_resolve_action env act org) (\<lambda>impl.
          sbind (mint_action_executor_token env inp role) (\<lambda>token.
            Inr (parent\<lparr>rc_action_impl := impl, rc_evaluated_args := evaluated_args, rc_executor_token := token\<rparr>))))"

text \<open>The steps' environment: what the step at hand may refer to.\<close>

definition template_context ::
  "(string, pyval) dict \<Rightarrow> pyval \<Rightarrow> (string, pyval) dict \<Rightarrow> (string, pyval) dict \<Rightarrow> (string, pyval) dict \<Rightarrow> (string, pyval) dict"
where
  "template_context secrets env_ctx vars inputs steps =
     [(''SECRETS'', VDict secrets), (''ENV'', env_ctx), (''VARS'', VDict vars), (''inputs'', VDict inputs),
      (''steps'', VDict steps)]"

text \<open>Everything but \<open>ExecutionError\<close> and cancellation is wrapped.\<close>

definition wrap_failure :: "'p executor_env \<Rightarrow> string \<Rightarrow> executor_exn \<Rightarrow> executor_exn" where
  "wrap_failure env act x =
     (case x of
        ExecutionError info \<Rightarrow> x
      | Raised e \<Rightarrow> if e = CancelledError then x else ExecutionError (from_exc env e act))"

text \<open>
  One step of the loop over the template's steps; \<open>invoke\<close> is \<open>_invoke_step\<close>. The evaluation of
  arguments reads the logical time and the interaction from context variables; the latter has been
  reset when the steps run.
\<close>

definition template_step ::
  "'p executor_env \<Rightarrow> (resolved_context \<Rightarrow> (string, 'p) dict \<Rightarrow> executor_exn + pyval) \<Rightarrow> run_input \<Rightarrow> executor_role \<Rightarrow>
   resolved_context \<Rightarrow> (string, 'p) dict \<Rightarrow> (string, pyval) dict \<Rightarrow> action_step \<Rightarrow> (string, pyval) dict \<Rightarrow>
   executor_exn + (string, pyval) dict"
where
  "template_step env invoke inp role rc provenance inputs step steps =
     sbind (lift_exn (ex_resolve_args env (rc_logical_time rc) VNone (step_action step) (step_args step)
              (template_context (rc_secrets rc) (get_default (VDict []) (ri_exec_context inp) ''ENV'') (rc_variables rc) inputs steps)
              provenance)) (\<lambda>evaled_args.
     sbind (lift_exn (prepare_step_context env (step_action step) evaled_args rc inp role)) (\<lambda>step_resolved.
     sbind (if impl_type (rc_action_impl step_resolved) = ''template''
            then lift_exn (ex_build_provenance env (step_args step) (Some provenance)) else Inr []) (\<lambda>child_provenance.
       case invoke step_resolved child_provenance of
         Inl x \<Rightarrow> Inl (wrap_failure env (step_action step) x)
       | Inr step_result \<Rightarrow>
           sbind (lift_exn (to_materialized_dict (from_result step_result))) (\<lambda>d.
             Inr (dict_set (step_ref step) (VDict d) steps)))))"

definition execute_template_action ::
  "'p executor_env \<Rightarrow> (resolved_context \<Rightarrow> (string, 'p) dict \<Rightarrow> executor_exn + pyval) \<Rightarrow> run_input \<Rightarrow> executor_role \<Rightarrow>
   resolved_context \<Rightarrow> (string, 'p) dict \<Rightarrow> executor_exn + pyval"
where
  "execute_template_action env invoke inp role rc provenance =
     (let definition_dict = template_definition (rc_action_impl rc)
      in if definition_dict = [] then Inl (Raised (ValueError ''Template action missing template_definition''))
         else
           sbind (lift_exn (ex_template_validate env definition_dict)) (\<lambda>td.
           sbind (if td_expects td = [] then Inr (rc_evaluated_args rc)
                  else case ex_validate_expects env td (rc_evaluated_args rc) of
                    Inr d \<Rightarrow> Inr d
                  | Inl e \<Rightarrow> Inl (Raised (PyError ''RegistryValidationError''
                       (''Validation error for template action '' @ td_action td @ '': '' @ exn_text e)))) (\<lambda>inputs.
           let default_source_args =
                 [(p, v). (p, Some v) \<leftarrow> filter (\<lambda>(p, _). p \<notin> set (dict_keys provenance)) (td_expects td)]
           in
           sbind (if default_source_args = [] then Inr provenance
                  else sbind (lift_exn (ex_build_provenance env default_source_args (Some provenance)))
                         (\<lambda>d. Inr (fold (\<lambda>(k, v). dict_set k v) d provenance))) (\<lambda>provenance'.
           sbind (sfold (template_step env invoke inp role rc provenance' inputs) (td_steps td) []) (\<lambda>steps.
             lift_exn (ex_eval_returns env (rc_logical_time rc) (td_returns td)
               (template_context (rc_secrets rc) (get_default (VDict []) (ri_exec_context inp) ''ENV'') (rc_variables rc)
                  inputs steps)))))))"

text \<open>
  \<open>_invoke_step\<close>. Templates may be nested; the first argument is the recursion depth the interpreter
  still allows, and \<open>RecursionError\<close> is raised when it is used up.
\<close>

primrec invoke_step ::
  "nat \<Rightarrow> 'p executor_env \<Rightarrow> run_input \<Rightarrow> executor_role \<Rightarrow> resolved_context \<Rightarrow> (string, 'p) dict \<Rightarrow> executor_exn + pyval"
where
  "invoke_step 0 env inp role rc provenance = Inl (Raised (PyError ''RecursionError'' ''maximum recursion depth exceeded''))"
| "invoke_step (Suc depth) env inp role rc provenance =
     (if impl_type (rc_action_impl rc) = ''template''
      then execute_template_action env (invoke_step depth env inp role) inp role rc provenance
      else if impl_type (rc_action_impl rc) = ''udf''
      then case ex_execute env inp rc of
             Inl e \<Rightarrow> Inl (Raised e)
           | Inr (ExecutorResultSuccess v) \<Rightarrow> Inr v
           | Inr (ExecutorResultFailure info) \<Rightarrow> Inl (ExecutionError info)
      else Inl (Raised (ValueError (''Unknown action type: '' @ impl_type (rc_action_impl rc)))))"

section \<open>One invocation\<close>

definition with_loop_context :: "nat option \<Rightarrow> (string, pyval) dict \<Rightarrow> executor_error_info \<Rightarrow> executor_error_info" where
  "with_loop_context iter exec_ctx info =
     (case iter of
        None \<Rightarrow> info
      | Some i \<Rightarrow> info\<lparr>loop_iteration := Some i, loop_variables := get_default VNone exec_ctx ''var''\<rparr>)"

definition invoke_once ::
  "nat \<Rightarrow> 'p executor_env \<Rightarrow> run_input \<Rightarrow> executor_role \<Rightarrow> nat option \<Rightarrow> executor_exn + pyval"
where
  "invoke_once depth env inp role iter =
     (case organization_id role of
        None \<Rightarrow> Inl (Raised (ValueError ''organization_id is required for action dispatch''))
      | Some org \<Rightarrow>
          (case sbind (lift_exn (ex_prefetch_lock env org)) (\<lambda>_.
                sbind (lift_exn (prepare_resolved_context env inp role)) (\<lambda>prepared.
                sbind (invoke_step depth env inp role (pc_resolved_context prepared)
                         (case pc_provenance prepared of None \<Rightarrow> [] | Some p \<Rightarrow> p)) (\<lambda>v.
                  Inr (v, pc_mask_values prepared)))) of
             Inr (v, masks) \<Rightarrow>
               Inr (case masks of Some (m # ms) \<Rightarrow> apply_masks_object v (m # ms) | _ \<Rightarrow> v)
           | Inl x \<Rightarrow>
               Inl (case wrap_failure env (action (ri_task inp)) x of
                      ExecutionError info \<Rightarrow> ExecutionError (with_loop_context iter (ri_exec_context inp) info)
                    | Raised e \<Rightarrow> Raised e)))"

section \<open>Results are masked and failures are records\<close>

lemma invoke_once_raises:
  assumes "organization_id role \<noteq> None" and "invoke_once depth env inp role iter = Inl (Raised e)"
  shows "e = CancelledError"
  using assms by (auto simp: invoke_once_def wrap_failure_def split: option.splits sum.splits executor_exn.splits if_splits)

lemma in_traverse_leaves:
  assumes "s \<in> set (leaf_strings obj)"
  shows "\<exists>p. (p, VStr s) \<in> set (traverse_leaves q obj)"
  using assms
proof (induction q obj rule: traverse_leaves.induct)
  case (1 q obj)
  show ?case
  proof (cases obj)
    case (VDict d)
    then obtain kv where "kv \<in> set d" "s \<in> set (leaf_strings (snd kv))" using 1(3) by auto
    with 1(2) [OF VDict, of kv] show ?thesis unfolding VDict
      by (subst traverse_leaves.simps) (simp split del: if_split, blast)
  next
    case (VList xs)
    then obtain x where x: "x \<in> set xs" "s \<in> set (leaf_strings x)" using 1(3) by auto
    then obtain i where "i < length xs" "xs ! i = x" by (auto simp: in_set_conv_nth)
    then have "(i, x) \<in> set (enumerate 0 xs)" by (auto simp: in_set_enumerate_eq)
    with 1(1) [OF VList this] x show ?thesis unfolding VList
      by (subst traverse_leaves.simps) (simp, metis fst_conv snd_conv)
  next
    case (VStr t)
    then show ?thesis using 1(3) by (subst traverse_leaves.simps) simp
  qed (use 1(3) in simp_all)
qed

lemma secret_string_collected:
  assumes "source \<in> set sources" and "s \<in> set (leaf_strings (VDict source))" and "1 < length s"
  shows "s \<in> set (collect_mask_values str sources)"
proof -
  obtain p where "(p, VStr s) \<in> set (traverse_leaves [] (VDict source))" using in_traverse_leaves [OF assms(2)] by blast
  with assms(1,3) show ?thesis by (force simp: collect_mask_values_def leaf_masks_def)
qed

lemma prepared_masks:
  assumes "prepare_resolved_context env inp role = Inr prepared" and "\<not> ex_disable_masking env"
  shows "\<exists>projected. pc_mask_values prepared =
    Some (collect_mask_values (ex_str env) [rc_secrets (pc_resolved_context prepared), projected])"
  using assms
  by (auto simp: prepare_resolved_context_def project_secret_env_def Let_def sbind_eq_Inr split: option.splits prod.splits) (rule exI, rule refl)

text \<open>The secrets an invocation fetches: those of its prepared context.\<close>

definition fetched_secrets :: "'p executor_env \<Rightarrow> run_input \<Rightarrow> executor_role \<Rightarrow> string set" where
  "fetched_secrets env inp role =
     (case prepare_resolved_context env inp role of
        Inl _ \<Rightarrow> {}
      | Inr prepared \<Rightarrow> set (leaf_strings (VDict (rc_secrets (pc_resolved_context prepared)))))"

text \<open>C17: what an invocation lets out. For a role with an organisation, with masking switched on and no
  fetched secret containing an asterisk, an invocation either returns a result in whose string values no
  fetched secret of two or more characters occurs (the keys of mappings are not masked, and nothing is
  said of them), or raises an \<open>ExecutionError\<close> whose record names the iteration of the loop and its
  variables, or is cancelled. Whatever else the registry, the stores, the expressions or the backend
  raise is turned into such a record.\<close>

theorem invocation_masked_or_recorded:
  assumes "organization_id role \<noteq> None" and "\<not> ex_disable_masking env"
    and "\<forall>secret \<in> fetched_secrets env inp role. CHR ''*'' \<notin> set secret"
  shows "case invoke_once depth env inp role iter of
      Inr v \<Rightarrow> \<forall>s \<in> set (leaf_strings v). \<forall>secret \<in> fetched_secrets env inp role. 1 < length secret \<longrightarrow> \<not> sublist secret s
    | Inl (ExecutionError info) \<Rightarrow> (\<forall>i. iter = Some i \<longrightarrow>
        loop_iteration info = Some i \<and> loop_variables info = get_default VNone (ri_exec_context inp) ''var'')
    | Inl (Raised e) \<Rightarrow> e = CancelledError"
proof (cases "invoke_once depth env inp role iter")
  case (Inl x)
  then show ?thesis using assms(1)
    by (auto simp: invoke_once_def with_loop_context_def wrap_failure_def
        split: option.splits sum.splits prod.splits executor_exn.splits if_splits)
next
  case (Inr v)
  then obtain prepared u where p: "prepare_resolved_context env inp role = Inr prepared"
    and v: "v = (case pc_mask_values prepared of Some (m # ms) \<Rightarrow> apply_masks_object u (m # ms) | _ \<Rightarrow> u)"
    using assms(1) by (auto simp: invoke_once_def sbind_eq_Inr lift_exn_def split: option.splits sum.splits)
  obtain projected where m: "pc_mask_values prepared =
      Some (collect_mask_values (ex_str env) [rc_secrets (pc_resolved_context prepared), projected])" (is "_ = Some ?masks")
    using prepared_masks [OF p assms(2)] by blast
  have "\<not> sublist secret s"
    if s: "s \<in> set (leaf_strings v)" and secret: "secret \<in> fetched_secrets env inp role" "1 < length secret" for s secret
  proof -
    have mem: "secret \<in> set ?masks"
      using secret p by (intro secret_string_collected [of "rc_secrets (pc_resolved_context prepared)"]) (auto simp: fetched_secrets_def)
    then obtain a as where "?masks = a # as" by (cases ?masks) auto
    with v m have "v = apply_masks_object u ?masks" by simp
    with s obtain t where "s = apply_mask_pattern t (compile_mask_pattern ?masks)"
      by (auto simp: apply_masks_object_def leaf_strings_masked)
    with apply_masks_removes [OF mem secret(2)] secret(1) assms(3) show ?thesis by blast
  qed
  with Inr show ?thesis by simp
qed

definition sample_executor_env :: "unit executor_env" where
  "sample_executor_env =
     \<lparr>ex_prefetch_lock = (\<lambda>_. Inr ()),
      ex_resolve_action = (\<lambda>_ _. Inr \<lparr>impl_type = ''udf'', template_definition = []\<rparr>),
      ex_collect_action_secrets = (\<lambda>_ _. Inr []),
      ex_plan_build = (\<lambda>_ d. Inr d),
      ex_collect_expressions = (\<lambda>_. Inr ([''api.KEY''], [])),
      ex_get_action_secrets = (\<lambda>_ _. Inr [(''api'', VDict [(''KEY'', VStr ''s3cret'')])]),
      ex_search_variables = (\<lambda>_ _. Inr []),
      ex_resolve_args = (\<lambda>_ _ _ d _ _. Inr d),
      ex_build_provenance = (\<lambda>_ _. Inr []),
      ex_fromisoformat = (\<lambda>s. Inr (VStr s)),
      ex_preprocess = (\<lambda>_ d. Inr d),
      ex_flatten_secrets = (\<lambda>d. d),
      ex_str = (\<lambda>v. case v of VStr s \<Rightarrow> s | _ \<Rightarrow> []),
      ex_mint_token = (\<lambda>_ _ _ _ _ _. Inr ''token''),
      ex_template_validate = (\<lambda>_. Inl (ValueError [])),
      ex_validate_expects = (\<lambda>_ d. Inr d),
      ex_eval_returns = (\<lambda>_ v _. Inr v),
      ex_execute = (\<lambda>inp rc. Inr (ExecutorResultSuccess (VList [VStr ''got s3cret'', get_default VNone (ri_exec_context inp) ''var'']))),
      ex_last_frame = (\<lambda>_. ([], [], None)),
      ex_disable_masking = False\<rparr>"

definition sample_role :: executor_role where
  "sample_role = \<lparr>role_type = ''user'', er_service_id = ''tracecat-api'', user_id = None, organization_id = Some ''o'',
     workspace_id = Some ''w'', role_scopes = Some {''*''}\<rparr>"

definition sample_run_input :: run_input where
  "sample_run_input = \<lparr>ri_task = new_stmt ''a'' ''core.http_request'', ri_exec_context = [], ri_interaction = VNone,
     ri_wf_id = ''wf'', ri_wf_run_id = ''run'', ri_environment = ''default''\<rparr>"

lemma sample_fetched: "fetched_secrets sample_executor_env sample_run_input sample_role = {''s3cret''}"
  by (simp add: fetched_secrets_def prepare_resolved_context_def sample_executor_env_def sample_role_def sample_run_input_def
      new_stmt_def Let_def get_workspace_variables_def logical_time_of_def get_or_empty_def get_default_def
      project_secret_env_def mint_action_executor_token_def)

theorem invocation_masked_or_recorded_witness:
  "case invoke_once 9 sample_executor_env sample_run_input sample_role None of
      Inr v \<Rightarrow> \<forall>s \<in> set (leaf_strings v). \<not> sublist ''s3cret'' s
    | Inl (ExecutionError info) \<Rightarrow> True
    | Inl (Raised e) \<Rightarrow> e = CancelledError"
proof -
  have "organization_id sample_role \<noteq> None" and "\<not> ex_disable_masking sample_executor_env"
    by (simp_all add: sample_role_def sample_executor_env_def)
  from invocation_masked_or_recorded [OF this, where inp = sample_run_input and depth = 9 and iter = None] show ?thesis
    unfolding sample_fetched by (simp split: sum.splits executor_exn.splits)
qed

end
