(* ===== verification/For_Each.thy ===== *)
theory For_Each
  imports Executor
begin

text \<open>
  Dispatch of an action (\<open>dispatch_action\<close> of \<open>tracecat/executor/service.py\<close>): the checks, the single
  invocation, and the worker pool that runs the iterations of a \<open>for_each\<close>. The pool is a step relation
  whose steps are the sections between two suspensions of a worker; every interleaving the event loop
  can produce is a run.
\<close>

section \<open>The worker pool\<close>

text \<open>A worker has not started, waits for the invocation of an iteration, or has returned or failed.\<close>

datatype worker = Created | Invoking nat "(string, pyval) dict" | Exited

record loop_pool =
  loop_items :: "(nat \<times> (string \<times> pyval) list) list"
  workers :: "worker list"
  loop_results :: "(nat, pyval) dict"
  loop_errors :: "(nat, executor_error_info) dict"
  iteration_count :: nat
  task_errors :: "executor_exn list"

definition exit_worker :: "nat \<Rightarrow> executor_exn list \<Rightarrow> loop_pool \<Rightarrow> loop_pool" where
  "exit_worker w errs p = p\<lparr>workers := (workers p)[w := Exited], task_errors := task_errors p @ errs\<rparr>"

text \<open>From the head of the \<open>while\<close> loop to the next \<open>await\<close>.\<close>

definition next_iteration :: "(string, pyval) dict \<Rightarrow> nat \<Rightarrow> loop_pool \<Rightarrow> loop_pool" where
  "next_iteration base_context w p =
     (case loop_items p of
        [] \<Rightarrow> exit_worker w [] p
      | (i, items) # rest \<Rightarrow>
          let p' = p\<lparr>loop_items := rest, iteration_count := iteration_count p + 1\<rparr>
          in case patch_iteration base_context items of
               Inl e \<Rightarrow> exit_worker w [Raised e] p'
             | Inr new_context \<Rightarrow> p'\<lparr>workers := (workers p')[w := Invoking i new_context]\<rparr>)"

text \<open>After the \<open>await\<close>. A task that ends cancelled is no error for the task group.\<close>

definition resume_worker :: "(string, pyval) dict \<Rightarrow> nat \<Rightarrow> nat \<Rightarrow> executor_exn + pyval \<Rightarrow> loop_pool \<Rightarrow> loop_pool" where
  "resume_worker base_context w i answer p =
     (case answer of
        Inr v \<Rightarrow> next_iteration base_context w (p\<lparr>loop_results := dict_set i v (loop_results p)\<rparr>)
      | Inl (ExecutionError info) \<Rightarrow>
          next_iteration base_context w (p\<lparr>loop_errors := dict_set i info (loop_errors p)\<rparr>)
      | Inl (Raised e) \<Rightarrow> exit_worker w (if e = CancelledError then [] else [Raised e]) p)"

text \<open>
  Once a task has failed, the task group cancels the others; until the cancellation reaches a worker it
  may still run.
\<close>

inductive pool_step ::
  "(string, pyval) dict \<Rightarrow> (nat \<Rightarrow> (string, pyval) dict \<Rightarrow> executor_exn + pyval) \<Rightarrow> loop_pool \<Rightarrow> loop_pool \<Rightarrow> bool"
  for base_context invoke
where
  start: "w < length (workers p) \<Longrightarrow> workers p ! w = Created \<Longrightarrow>
    pool_step base_context invoke p (next_iteration base_context w p)"
| finish: "w < length (workers p) \<Longrightarrow> workers p ! w = Invoking i ctx \<Longrightarrow>
    pool_step base_context invoke p (resume_worker base_context w i (invoke i ctx) p)"
| cancel: "w < length (workers p) \<Longrightarrow> workers p ! w \<noteq> Exited \<Longrightarrow> task_errors p \<noteq> [] \<Longrightarrow>
    pool_step base_context invoke p (exit_worker w [] p)"

definition initial_pool :: "int \<Rightarrow> (string \<times> pyval) list list \<Rightarrow> loop_pool" where
  "initial_pool limit all_items =
     \<lparr>loop_items = enumerate 0 all_items, workers = replicate (nat (max 1 limit)) Created, loop_results = [],
      loop_errors = [], iteration_count = 0, task_errors = []\<rparr>"

definition pool_done :: "loop_pool \<Rightarrow> bool" where
  "pool_done p \<longleftrightarrow> list_all (\<lambda>w. w = Exited) (workers p)"

section \<open>The outcome\<close>

datatype dispatch_exn =
    ScopeDenied authz_error
  | InvocationFailed executor_exn
  | LoopExecutionError "executor_error_info list"
  | DispatchGroup "dispatch_exn list"

fun execution_infos :: "executor_exn list \<Rightarrow> executor_error_info list" where
  "execution_infos [] = []"
| "execution_infos (ExecutionError info # xs) = info # execution_infos xs"
| "execution_infos (Raised e # xs) = execution_infos xs"

fun raised_errors :: "executor_exn list \<Rightarrow> exn list" where
  "raised_errors [] = []"
| "raised_errors (ExecutionError info # xs) = raised_errors xs"
| "raised_errors (Raised e # xs) = e # raised_errors xs"

definition unexpected_loop_error :: "action_stmt \<Rightarrow> exn list \<Rightarrow> executor_exn" where
  "unexpected_loop_error task errors =
     Raised (PyError ''TracecatException''
       (CHR 0x0A # ''['' @ context_locator ''ACTIONS'' task ''for_each'' @ '']'' @ [CHR 0x0A, CHR 0x0A] @
        ''Unexpected error(s) in loop:'' @ concat (map (\<lambda>e. [CHR 0x0A, CHR 0x0A] @ exn_text e) errors) @
        [CHR 0x0A, CHR 0x0A] @
        ''Please ensure that the loop is iterable and that the loop variable has the correct type.''))"

text \<open>The two \<open>except*\<close> clauses: each handles its part of the group; two raises make a group again.\<close>

definition handle_task_errors :: "action_stmt \<Rightarrow> executor_exn list \<Rightarrow> dispatch_exn" where
  "handle_task_errors task errs =
     (case (if execution_infos errs = [] then [] else [LoopExecutionError (execution_infos errs)]) @
           (if raised_errors errs = [] then [] else [InvocationFailed (unexpected_loop_error task (raised_errors errs))]) of
        [x] \<Rightarrow> x
      | xs \<Rightarrow> DispatchGroup xs)"

definition loop_outcome :: "action_stmt \<Rightarrow> loop_pool \<Rightarrow> dispatch_exn + pyval" where
  "loop_outcome task p =
     (if task_errors p \<noteq> [] then Inl (handle_task_errors task (task_errors p))
      else if loop_errors p \<noteq> []
      then Inl (LoopExecutionError (map (\<lambda>i. the (dict_get (loop_errors p) i)) (sort (dict_keys (loop_errors p)))))
      else sbind (sfold (\<lambda>i acc. case dict_get (loop_results p) i of
                      None \<Rightarrow> Inl (InvocationFailed (Raised (KeyError (show_nat i))))
                    | Some v \<Rightarrow> Inr (acc @ [v])) [0..<iteration_count p] []) (\<lambda>vs. Inr (VList vs)))"

section \<open>Dispatch\<close>

text \<open>
  \<open>envs\<close> gives the environment each invocation meets; \<open>iterables\<close> evaluates the loop expression and
  \<open>limit\<close> is the configured concurrency.
\<close>

definition loop_invoke ::
  "nat \<Rightarrow> (nat option \<Rightarrow> 'p executor_env) \<Rightarrow> run_input \<Rightarrow> executor_role \<Rightarrow> nat \<Rightarrow> (string, pyval) dict \<Rightarrow> executor_exn + pyval"
where
  "loop_invoke depth envs inp role i ctx = invoke_once depth (envs (Some i)) (inp\<lparr>ri_exec_context := ctx\<rparr>) role (Some i)"

inductive dispatch_action ::
  "nat \<Rightarrow> (nat option \<Rightarrow> 'p executor_env) \<Rightarrow> (pyval \<Rightarrow> (string, pyval) dict \<Rightarrow> exn + iterable_expr list) \<Rightarrow> int \<Rightarrow>
   executor_role option \<Rightarrow> run_input \<Rightarrow> dispatch_exn + pyval \<Rightarrow> bool"
  for depth envs iterables limit
where
  no_role: "dispatch_action depth envs iterables limit None inp
    (Inl (InvocationFailed (Raised (ValueError ''Role is required to dispatch actions''))))"
| denied: "require_action_scope (Some (role_scopes role)) (action (ri_task inp)) = Inl e \<Longrightarrow>
    dispatch_action depth envs iterables limit (Some role) inp (Inl (ScopeDenied e))"
| single: "require_action_scope (Some (role_scopes role)) (action (ri_task inp)) = Inr () \<Longrightarrow>
    \<not> py_bool (for_each_expr (ri_task inp)) \<Longrightarrow>
    dispatch_action depth envs iterables limit (Some role) inp
      (map_sum InvocationFailed id (invoke_once depth (envs None) inp role None))"
| bad_loop: "require_action_scope (Some (role_scopes role)) (action (ri_task inp)) = Inr () \<Longrightarrow>
    py_bool (for_each_expr (ri_task inp)) \<Longrightarrow>
    iterables (for_each_expr (ri_task inp)) (ri_exec_context inp) = Inl e \<Longrightarrow>
    dispatch_action depth envs iterables limit (Some role) inp (Inl (InvocationFailed (Raised e)))"
| loop: "require_action_scope (Some (role_scopes role)) (action (ri_task inp)) = Inr () \<Longrightarrow>
    py_bool (for_each_expr (ri_task inp)) \<Longrightarrow>
    iterables (for_each_expr (ri_task inp)) (ri_exec_context inp) = Inr iterators \<Longrightarrow>
    (pool_step (ri_exec_context inp) (loop_invoke depth envs inp role))\<^sup>*\<^sup>* (initial_pool limit (zip_iterators iterators)) p \<Longrightarrow>
    pool_done p \<Longrightarrow>
    dispatch_action depth envs iterables limit (Some role) inp (loop_outcome (ri_task inp) p)"

section \<open>Every run of the pool ends\<close>

primrec worker_weight :: "worker \<Rightarrow> nat" where
  "worker_weight Created = 2"
| "worker_weight (Invoking i ctx) = 1"
| "worker_weight Exited = 0"

definition pool_weight :: "loop_pool \<Rightarrow> nat" where
  "pool_weight p = 2 * length (loop_items p) + sum_list (map worker_weight (workers p))"

lemma weight_update:
  assumes "w < length ws"
  shows "sum_list (map worker_weight (ws[w := x])) + worker_weight (ws ! w) = sum_list (map worker_weight ws) + worker_weight x"
  using assms by (induction ws arbitrary: w) (auto split: nat.splits)

lemma exit_weight:
  assumes "w < length (workers p)" and "workers p ! w \<noteq> Exited"
  shows "pool_weight (exit_worker w errs p) < pool_weight p"
proof -
  have "0 < worker_weight (workers p ! w)" using assms(2) by (cases "workers p ! w") auto
  then show ?thesis using weight_update [OF assms(1), of Exited] by (simp add: exit_worker_def pool_weight_def)
qed

lemma next_weight:
  assumes "w < length (workers p)" and "workers p ! w \<noteq> Exited"
  shows "pool_weight (next_iteration base w p) < pool_weight p"
proof (cases "loop_items p")
  case Nil
  then show ?thesis using exit_weight [OF assms] by (simp add: next_iteration_def)
next
  case (Cons a rest)
  obtain i items where a: "a = (i, items)" by (cases a)
  let ?p = "p\<lparr>loop_items := rest, iteration_count := iteration_count p + 1\<rparr>"
  have w: "0 < worker_weight (workers p ! w)" using assms(2) by (cases "workers p ! w") auto
  have rest: "pool_weight p = pool_weight ?p + 2" using Cons by (simp add: pool_weight_def)
  show ?thesis
  proof (cases "patch_iteration base items")
    case (Inl e)
    then show ?thesis using exit_weight [of w ?p "[Raised e]"] assms rest Cons a by (simp add: next_iteration_def)
  next
    case (Inr ctx)
    then show ?thesis
      using weight_update [OF assms(1), of "Invoking i ctx"] w Cons a by (simp add: next_iteration_def pool_weight_def)
  qed
qed

lemma step_weight: "pool_step base invoke p q \<Longrightarrow> pool_weight q < pool_weight p"
proof (induction rule: pool_step.induct)
  case (finish w p i ctx)
  have "pool_weight (next_iteration base w (p\<lparr>loop_results := r\<rparr>)) < pool_weight p"
    "pool_weight (next_iteration base w (p\<lparr>loop_errors := e\<rparr>)) < pool_weight p" for r e
    using next_weight [of w "p\<lparr>loop_results := r\<rparr>"] next_weight [of w "p\<lparr>loop_errors := e\<rparr>"] finish
    by (simp_all add: pool_weight_def)
  with finish show ?case by (auto simp: resume_worker_def exit_weight split: sum.splits executor_exn.splits)
qed (simp_all add: next_weight exit_weight)

lemma step_workers: "pool_step base invoke p q \<Longrightarrow> length (workers q) = length (workers p)"
  by (induction rule: pool_step.induct)
    (auto simp: next_iteration_def resume_worker_def exit_worker_def Let_def split: list.splits sum.splits executor_exn.splits)

lemma pool_progress:
  assumes "\<not> pool_done p"
  shows "\<exists>q. pool_step base invoke p q"
proof -
  obtain w where w: "w < length (workers p)" "workers p ! w \<noteq> Exited" using assms by (auto simp: pool_done_def list_all_length)
  then show ?thesis by (cases "workers p ! w") (auto intro: pool_step.intros)
qed

lemma pool_reaches_done: "\<exists>q. (pool_step base invoke)\<^sup>*\<^sup>* p q \<and> pool_done q"
proof (induction "pool_weight p" arbitrary: p rule: less_induct)
  case less
  show ?case
  proof (cases "pool_done p")
    case False
    then obtain q where q: "pool_step base invoke p q" using pool_progress by blast
    with less [OF step_weight [OF q]] show ?thesis by (meson converse_rtranclp_into_rtranclp)
  qed blast
qed

lemma pool_run_weight: "(pool_step base invoke ^^ n) p q \<Longrightarrow> n + pool_weight q \<le> pool_weight p"
proof (induction n arbitrary: q)
  case (Suc n)
  then obtain r where "(pool_step base invoke ^^ n) p r" and "pool_step base invoke r q" by auto
  with Suc.IH [of r] step_weight [of base invoke r q] show ?case by simp
qed simp

section \<open>What a run computes\<close>

text \<open>The answer of each iteration, in the context of its own items.\<close>

definition iteration_answer ::
  "(string, pyval) dict \<Rightarrow> (nat \<Rightarrow> (string, pyval) dict \<Rightarrow> executor_exn + pyval) \<Rightarrow> (string \<times> pyval) list list \<Rightarrow> nat \<Rightarrow>
   executor_exn + pyval"
where
  "iteration_answer base invoke all_items i =
     sbind (lift_exn (patch_iteration base (all_items ! i))) (\<lambda>ctx. invoke i ctx)"

text \<open>Without unexpected errors: the records of the failed iterations in order, or else all the results.\<close>

definition for_each_spec :: "(nat \<Rightarrow> executor_exn + pyval) \<Rightarrow> nat \<Rightarrow> dispatch_exn + pyval" where
  "for_each_spec answer n =
     (let failed = filter (\<lambda>i. isl (answer i)) [0..<n]
      in if failed \<noteq> [] then Inl (LoopExecutionError (map (\<lambda>i. execution_info (projl (answer i))) failed))
         else Inr (VList (map (\<lambda>i. projr (answer i)) [0..<n])))"

definition no_surprise :: "(nat \<Rightarrow> executor_exn + pyval) \<Rightarrow> nat \<Rightarrow> bool" where
  "no_surprise answer n \<longleftrightarrow> (\<forall>i < n. \<forall>e. answer i \<noteq> Inl (Raised e))"

definition in_flight :: "loop_pool \<Rightarrow> nat set" where
  "in_flight p = {i. \<exists>ctx. Invoking i ctx \<in> set (workers p)}"

definition pool_inv ::
  "(string, pyval) dict \<Rightarrow> (nat \<Rightarrow> (string, pyval) dict \<Rightarrow> executor_exn + pyval) \<Rightarrow> (string \<times> pyval) list list \<Rightarrow> loop_pool \<Rightarrow> bool"
where
  "pool_inv base invoke all_items p \<longleftrightarrow>
     iteration_count p \<le> length all_items \<and> loop_items p = drop (iteration_count p) (enumerate 0 all_items) \<and>
     task_errors p = [] \<and> distinct (dict_keys (loop_errors p)) \<and>
     (\<forall>i v. dict_get (loop_results p) i = Some v \<longrightarrow>
        i < iteration_count p \<and> iteration_answer base invoke all_items i = Inr v) \<and>
     (\<forall>i info. dict_get (loop_errors p) i = Some info \<longrightarrow>
        i < iteration_count p \<and> iteration_answer base invoke all_items i = Inl (ExecutionError info)) \<and>
     (\<forall>i < iteration_count p. dict_get (loop_results p) i \<noteq> None \<or> dict_get (loop_errors p) i \<noteq> None \<or> i \<in> in_flight p) \<and>
     (\<forall>i ctx. Invoking i ctx \<in> set (workers p) \<longrightarrow>
        i < iteration_count p \<and> patch_iteration base (all_items ! i) = Inr ctx) \<and>
     (Exited \<in> set (workers p) \<longrightarrow> iteration_count p = length all_items)"

text \<open>
  A worker that turns to the next iteration, when nothing it leaves behind is lost: the iteration it
  was waiting for, if any, has been recorded.
\<close>

lemma next_iteration_inv:
  assumes inv: "pool_inv base invoke all_items p'" and p: "p = p'\<lparr>loop_results := rs, loop_errors := es\<rparr>"
    and w: "w < length (workers p)" "workers p ! w \<noteq> Exited"
    and rec: "\<forall>i ctx. workers p ! w = Invoking i ctx \<longrightarrow> dict_get rs i \<noteq> None \<or> dict_get es i \<noteq> None"
    and rs: "\<forall>i v. dict_get rs i = Some v \<longrightarrow> i < iteration_count p' \<and> iteration_answer base invoke all_items i = Inr v"
    and es: "\<forall>i x. dict_get es i = Some x \<longrightarrow> i < iteration_count p' \<and> iteration_answer base invoke all_items i = Inl (ExecutionError x)"
    and mono: "\<forall>i. dict_get (loop_results p') i \<noteq> None \<longrightarrow> dict_get rs i \<noteq> None"
      "\<forall>i. dict_get (loop_errors p') i \<noteq> None \<longrightarrow> dict_get es i \<noteq> None"
    and dist: "distinct (dict_keys es)"
    and ok: "no_surprise (iteration_answer base invoke all_items) (length all_items)"
  shows "pool_inv base invoke all_items (next_iteration base w p)"
proof -
  let ?k = "iteration_count p'"
  have k: "?k \<le> length all_items" "loop_items p' = drop ?k (enumerate 0 all_items)" "task_errors p' = []"
    and fl: "\<forall>i ctx. Invoking i ctx \<in> set (workers p') \<longrightarrow> i < ?k \<and> patch_iteration base (all_items ! i) = Inr ctx"
    and ex: "Exited \<in> set (workers p') \<longrightarrow> ?k = length all_items"
    using inv by (simp_all add: pool_inv_def)
  have cov: "dict_get rs i \<noteq> None \<or> dict_get es i \<noteq> None \<or> (\<exists>ctx. Invoking i ctx \<in> set ((workers p')[w := x]))"
    if "i < ?k" for i x
  proof -
    from inv that consider "dict_get (loop_results p') i \<noteq> None" | "dict_get (loop_errors p') i \<noteq> None"
      | ctx where "Invoking i ctx \<in> set (workers p')" unfolding pool_inv_def in_flight_def by blast
    then show ?thesis
    proof cases
      case 3
      then obtain j where j: "j < length (workers p')" "workers p' ! j = Invoking i ctx" by (auto simp: in_set_conv_nth)
      show ?thesis
      proof (cases "j = w")
        case True
        with rec j p show ?thesis by auto
      next
        case False
        with j have "(workers p')[w := x] ! j = Invoking i ctx" by simp
        with j(1) show ?thesis by (metis length_list_update nth_mem)
      qed
    qed (use mono in blast)+
  qed
  show ?thesis
  proof (cases "?k < length all_items")
    case False
    then have "loop_items p = []" and keq: "?k = length all_items" using k p by simp_all
    then have "next_iteration base w p = exit_worker w [] p" by (simp add: next_iteration_def)
    moreover have "\<forall>i ctx. Invoking i ctx \<in> set ((workers p')[w := Exited]) \<longrightarrow>
        i < ?k \<and> patch_iteration base (all_items ! i) = Inr ctx"
      using set_update_subset_insert [of "workers p'" w Exited] fl by blast
    ultimately show ?thesis
      using p k rs es dist cov [of _ Exited] keq unfolding pool_inv_def by (auto simp: exit_worker_def in_flight_def)
  next
    case True
    then have items: "loop_items p = (?k, all_items ! ?k) # drop (Suc ?k) (enumerate 0 all_items)"
      using k(2) p by (simp add: Cons_nth_drop_Suc [symmetric] nth_enumerate_eq)
    obtain ctx where ctx: "patch_iteration base (all_items ! ?k) = Inr ctx"
      using ok True by (cases "patch_iteration base (all_items ! ?k)") (auto simp: no_surprise_def iteration_answer_def)
    have nx: "next_iteration base w p = p\<lparr>loop_items := drop (Suc ?k) (enumerate 0 all_items), iteration_count := Suc ?k,
        workers := (workers p)[w := Invoking ?k ctx]\<rparr>"
      using items ctx p by (simp add: next_iteration_def)
    have new: "Invoking ?k ctx \<in> set ((workers p')[w := Invoking ?k ctx])"
      using w p by (simp add: set_update_memI)
    have old: "set ((workers p')[w := Invoking ?k ctx]) \<subseteq> insert (Invoking ?k ctx) (set (workers p'))"
      by (rule set_update_subset_insert)
    then have fl': "\<forall>i c. Invoking i c \<in> set ((workers p')[w := Invoking ?k ctx]) \<longrightarrow>
        i < Suc ?k \<and> patch_iteration base (all_items ! i) = Inr c"
      using fl ctx by (auto simp: less_Suc_eq)
    have ex': "Exited \<notin> set ((workers p')[w := Invoking ?k ctx])" using old ex True by auto
    show ?thesis unfolding pool_inv_def in_flight_def nx
      using p k True rs es dist new fl' ex' cov [of _ "Invoking ?k ctx"] by (auto simp: less_Suc_eq)
  qed
qed

lemma pool_step_inv:
  assumes "pool_step base invoke p q" and "pool_inv base invoke all_items p"
    and ok: "no_surprise (iteration_answer base invoke all_items) (length all_items)"
  shows "pool_inv base invoke all_items q"
  using assms(1,2)
proof (cases rule: pool_step.cases)
  case (start w)
  have "pool_inv base invoke all_items (next_iteration base w p)"
    by (rule next_iteration_inv [OF assms(2), where rs = "loop_results p" and es = "loop_errors p"])
      (use start ok assms(2) in \<open>auto simp: pool_inv_def\<close>)
  with start show ?thesis by simp
next
  case (finish w i ctx)
  have i: "i < iteration_count p" "patch_iteration base (all_items ! i) = Inr ctx" "iteration_count p \<le> length all_items"
    using assms(2) finish unfolding pool_inv_def by (metis nth_mem)+
  then have ans: "iteration_answer base invoke all_items i = invoke i ctx" by (simp add: iteration_answer_def)
  with ok i have nr: "invoke i ctx \<noteq> Inl (Raised e)" for e unfolding no_surprise_def by (metis order_less_le_trans)
  show ?thesis
  proof (cases "invoke i ctx")
    case (Inr v)
    have "pool_inv base invoke all_items (next_iteration base w (p\<lparr>loop_results := dict_set i v (loop_results p)\<rparr>))"
      by (rule next_iteration_inv [OF assms(2), where rs = "dict_set i v (loop_results p)" and es = "loop_errors p"])
        (use finish ok assms(2) i ans Inr in \<open>auto simp: pool_inv_def\<close>)
    with finish Inr show ?thesis by (simp add: resume_worker_def)
  next
    case (Inl x)
    with nr obtain info where x: "invoke i ctx = Inl (ExecutionError info)" by (cases x) auto
    have "pool_inv base invoke all_items (next_iteration base w (p\<lparr>loop_errors := dict_set i info (loop_errors p)\<rparr>))"
      by (rule next_iteration_inv [OF assms(2), where rs = "loop_results p" and es = "dict_set i info (loop_errors p)"])
        (use finish ok assms(2) i ans x in \<open>auto simp: pool_inv_def distinct_update\<close>)
    with finish x show ?thesis by (simp add: resume_worker_def)
  qed
next
  case (cancel w)
  with assms(2) show ?thesis by (simp add: pool_inv_def)
qed

lemma initial_pool_inv: "pool_inv base invoke all_items (initial_pool limit all_items)"
  by (simp add: pool_inv_def initial_pool_def in_flight_def)

lemma reachable_pool_inv:
  assumes "(pool_step base invoke)\<^sup>*\<^sup>* (initial_pool limit all_items) p"
    and "no_surprise (iteration_answer base invoke all_items) (length all_items)"
  shows "pool_inv base invoke all_items p"
  using assms(1) by (induction rule: rtranclp_induct) (auto intro: initial_pool_inv pool_step_inv [OF _ _ assms(2)])

lemma reachable_workers:
  assumes "(pool_step base invoke)\<^sup>*\<^sup>* (initial_pool limit all_items) p"
  shows "length (workers p) = nat (max 1 limit)"
  using assms by (induction rule: rtranclp_induct) (auto simp: initial_pool_def dest: step_workers)

lemma collect_results:
  assumes "\<forall>i \<in> set is. dict_get d i = Some (f i)"
  shows "sfold (\<lambda>i acc. case dict_get d i of None \<Rightarrow> Inl (e i) | Some v \<Rightarrow> Inr (acc @ [v])) is acc = Inr (acc @ map f is)"
  using assms by (induction "is" arbitrary: acc) simp_all

lemma done_outcome:
  assumes inv: "pool_inv base invoke all_items p" and fin: "pool_done p" and ne: "workers p \<noteq> []"
  shows "loop_outcome task p = for_each_spec (iteration_answer base invoke all_items) (length all_items)"
proof -
  let ?a = "iteration_answer base invoke all_items" and ?n = "length all_items"
  have "Exited \<in> set (workers p)" using fin ne by (cases "workers p") (auto simp: pool_done_def)
  then have k: "iteration_count p = ?n" using inv by (simp add: pool_inv_def)
  have fl: "in_flight p = {}" using fin by (auto simp: in_flight_def pool_done_def list_all_iff)
  have rs: "dict_get (loop_results p) i = Some v \<Longrightarrow> i < ?n \<and> ?a i = Inr v" for i v
    using inv k by (simp add: pool_inv_def)
  have es: "dict_get (loop_errors p) i = Some x \<Longrightarrow> i < ?n \<and> ?a i = Inl (ExecutionError x)" for i x
    using inv k by (simp add: pool_inv_def)
  have cov: "dict_get (loop_results p) i \<noteq> None \<or> dict_get (loop_errors p) i \<noteq> None" if "i < ?n" for i
    using inv k fl that by (auto simp: pool_inv_def)
  have te: "task_errors p = []" and dist: "distinct (dict_keys (loop_errors p))" using inv by (simp_all add: pool_inv_def)
  have "i \<in> set (dict_keys (loop_errors p)) \<longleftrightarrow> i < ?n \<and> isl (?a i)" for i
  proof -
    have "i \<in> set (dict_keys (loop_errors p)) \<longleftrightarrow> dict_get (loop_errors p) i \<noteq> None" by (simp add: map_of_eq_None_iff)
    also have "\<dots> \<longleftrightarrow> i < ?n \<and> isl (?a i)" using es [of i] rs [of i] cov [of i] by (cases "?a i"; cases "dict_get (loop_errors p) i") auto
    finally show ?thesis .
  qed
  then have keys: "sort (dict_keys (loop_errors p)) = filter (\<lambda>i. isl (?a i)) [0..<?n]"
    using dist by (intro sorted_distinct_set_unique) (auto simp: sorted_wrt_filter)
  have info: "the (dict_get (loop_errors p) i) = execution_info (projl (?a i))" if "i < ?n" "isl (?a i)" for i
    using es [of i] rs [of i] cov [of i] that by (cases "dict_get (loop_errors p) i") auto
  show ?thesis
  proof (cases "loop_errors p = []")
    case True
    with keys have nofail: "filter (\<lambda>i. isl (?a i)) [0..<?n] = []" by simp
    have "dict_get (loop_results p) i = Some (projr (?a i))" if "i < ?n" for i
      using cov [OF that] rs [of i] True by (cases "dict_get (loop_results p) i") auto
    then have "\<forall>i \<in> set [0..<?n]. dict_get (loop_results p) i = Some (projr (?a i))" by simp
    from collect_results [OF this, where acc = "[]" and e = "\<lambda>i. InvocationFailed (Raised (KeyError (show_nat i)))"] True te k nofail show ?thesis
      by (simp add: loop_outcome_def for_each_spec_def)
  next
    case False
    then have "filter (\<lambda>i. isl (?a i)) [0..<?n] \<noteq> []" using keys by (metis map_is_Nil_conv sort_key_simps(1) length_0_conv length_sort)
    moreover have "map (\<lambda>i. the (dict_get (loop_errors p) i)) (filter (\<lambda>i. isl (?a i)) [0..<?n]) =
        map (\<lambda>i. execution_info (projl (?a i))) (filter (\<lambda>i. isl (?a i)) [0..<?n])"
      using info by (intro map_cong) auto
    ultimately show ?thesis using False te by (simp add: loop_outcome_def for_each_spec_def keys Let_def)
  qed
qed

section \<open>Properties\<close>

text \<open>Iterators bind plain names, so an iteration's context can always be built.\<close>

lemma patch_plain_var:
  assumes "CHR ''.'' \<notin> set x" and "dict_get ctx ''var'' \<in> {None} \<union> range (\<lambda>d. Some (VDict d))"
  shows "\<exists>d. patch_object ctx (''var.'' @ x) v = Inr (dict_set ''var'' (VDict d) ctx)"
proof -
  have "split_on CHR ''.'' (''var.'' @ x) = [''var'', x]" using assms(1) by simp
  with assms(2) show ?thesis by (auto simp: patch_object_def)
qed

lemma patch_plain_iteration:
  assumes "\<forall>(path, v) \<in> set items. \<exists>x. path = CHR ''.'' # x \<and> CHR ''.'' \<notin> set x"
    and "dict_get ctx ''var'' \<in> {None} \<union> range (\<lambda>d. Some (VDict d))"
  shows "\<exists>ctx'. patch_iteration ctx items = Inr ctx'"
  using assms
proof (induction items arbitrary: ctx)
  case (Cons it items)
  obtain x v where it: "it = (CHR ''.'' # x, v)" "CHR ''.'' \<notin> set x" using Cons.prems(1) by (cases it) auto
  from patch_plain_var [OF it(2) Cons.prems(2), of v] obtain d where
    d: "patch_object ctx (''var'' @ CHR ''.'' # x) v = Inr (dict_set ''var'' (VDict d) ctx)" by auto
  with Cons.IH [of "dict_set ''var'' (VDict d) ctx"] Cons.prems(1) it(1) show ?case by (simp add: patch_iteration_def)
qed (simp add: patch_iteration_def)

text \<open>C15: a \<open>for_each\<close> returns the result of every iteration in the order of the items, or fails with the
  records of exactly the failed iterations in that order, whatever the concurrency and however the
  iterations interleave; each iteration runs in the context that binds the loop variables to its own
  items. This holds when the role has an organisation, the iterators bind plain names and no
  invocation is cancelled.\<close>

theorem for_each_dispatch_exact:
  assumes "dispatch_action depth envs iterables limit (Some role) inp r"
    and "require_action_scope (Some (role_scopes role)) (action (ri_task inp)) = Inr ()"
    and "py_bool (for_each_expr (ri_task inp))"
    and "iterables (for_each_expr (ri_task inp)) (ri_exec_context inp) = Inr iterators"
    and "organization_id role \<noteq> None"
    and "\<forall>it \<in> set iterators. \<exists>x. iterator it = CHR ''.'' # x \<and> CHR ''.'' \<notin> set x"
    and "dict_get (ri_exec_context inp) ''var'' = None"
    and "\<forall>i ctx. loop_invoke depth envs inp role i ctx \<noteq> Inl (Raised CancelledError)"
  shows "r = for_each_spec (iteration_answer (ri_exec_context inp) (loop_invoke depth envs inp role) (zip_iterators iterators))
               (length (zip_iterators iterators))"
proof -
  let ?base = "ri_exec_context inp" and ?inv = "loop_invoke depth envs inp role" and ?items = "zip_iterators iterators"
  have "\<exists>ctx. patch_iteration ?base (?items ! i) = Inr ctx" if "i < length ?items" for i
  proof (rule patch_plain_iteration)
    have "?items ! i \<in> set ?items" using that by simp
    then show "\<forall>(path, v) \<in> set (?items ! i). \<exists>x. path = CHR ''.'' # x \<and> CHR ''.'' \<notin> set x"
      using assms(6) by (auto simp: zip_iterators_def split: if_splits)
  qed (simp add: assms(7))
  moreover have "loop_invoke depth envs inp role i ctx \<noteq> Inl (Raised e)" for i ctx e
    using assms(8) invoke_once_raises [OF assms(5)] by (metis loop_invoke_def)
  ultimately have ok: "no_surprise (iteration_answer ?base ?inv ?items) (length ?items)"
    by (fastforce simp: no_surprise_def iteration_answer_def)
  from assms(1) show ?thesis
  proof (cases rule: dispatch_action.cases)
    case (loop its p)
    then have its: "its = iterators" using assms(4) by simp
    have "nat (max 1 limit) \<noteq> 0" by simp
    then have "workers p \<noteq> []" using reachable_workers [OF loop(5)] by auto
    with done_outcome [OF reachable_pool_inv [OF loop(5)] loop(6)] ok its loop(1) show ?thesis by simp
  qed (use assms(2,3,4) in simp_all)
qed

lemma dispatch_total: "\<exists>r. dispatch_action depth envs iterables limit ctx_role inp r"
proof (cases ctx_role)
  case (Some role)
  let ?scope = "require_action_scope (Some (role_scopes role)) (action (ri_task inp))"
    and ?its = "iterables (for_each_expr (ri_task inp)) (ri_exec_context inp)"
  consider e where "?scope = Inl e" | "?scope = Inr ()" "\<not> py_bool (for_each_expr (ri_task inp))"
    | e where "?scope = Inr ()" "py_bool (for_each_expr (ri_task inp))" "?its = Inl e"
    | its where "?scope = Inr ()" "py_bool (for_each_expr (ri_task inp))" "?its = Inr its"
    by (cases ?scope; cases ?its) auto
  then show ?thesis
  proof cases
    case (4 its)
    obtain p where "(pool_step (ri_exec_context inp) (loop_invoke depth envs inp role))\<^sup>*\<^sup>*
        (initial_pool limit (zip_iterators its)) p" "pool_done p" using pool_reaches_done by blast
    with 4 Some show ?thesis by (blast intro: loop)
  qed (use Some in \<open>blast intro: dispatch_action.intros\<close>)+
qed (blast intro: no_role)

text \<open>C16: the worker pool of a \<open>for_each\<close> ends. Whatever the invocations answer, a run takes at most two
  steps per item and per worker, a pool with a worker left can always step, never more than the
  configured number of iterations (at least one) is in flight, and every dispatch has an outcome.\<close>

theorem for_each_pool_ends:
  "(\<forall>n p. (pool_step base invoke ^^ n) (initial_pool limit all_items) p \<longrightarrow>
      n \<le> 2 * (length all_items + nat (max 1 limit)) \<and> (pool_done p \<or> (\<exists>q. pool_step base invoke p q)) \<and>
      length (filter (\<lambda>w. \<exists>i ctx. w = Invoking i ctx) (workers p)) \<le> nat (max 1 limit)) \<and>
   (\<exists>r. dispatch_action depth envs iterables limit ctx_role inp r)"
proof -
  have "n \<le> 2 * (length all_items + nat (max 1 limit))" "pool_done p \<or> (\<exists>q. pool_step base invoke p q)"
    "length (filter (\<lambda>w. \<exists>i ctx. w = Invoking i ctx) (workers p)) \<le> nat (max 1 limit)"
    if run: "(pool_step base invoke ^^ n) (initial_pool limit all_items) p" for n p
  proof -
    have "pool_weight (initial_pool limit all_items) = 2 * (length all_items + nat (max 1 limit))"
      by (simp add: pool_weight_def initial_pool_def sum_list_replicate)
    then show "n \<le> 2 * (length all_items + nat (max 1 limit))" using pool_run_weight [OF run] by simp
    show "pool_done p \<or> (\<exists>q. pool_step base invoke p q)" using pool_progress by blast
    have "length (workers p) = nat (max 1 limit)" by (rule reachable_workers [OF relpowp_imp_rtranclp [OF run]])
    then show "length (filter (\<lambda>w. \<exists>i ctx. w = Invoking i ctx) (workers p)) \<le> nat (max 1 limit)"
      by (metis length_filter_le)
  qed
  then show ?thesis using dispatch_total by blast
qed

text \<open>Only unexpected exceptions reach the task group, so its \<open>ExecutionError\<close> clause never runs.\<close>

lemma execution_infos_append [simp]: "execution_infos (xs @ ys) = execution_infos xs @ execution_infos ys"
  by (induction xs rule: execution_infos.induct) simp_all

lemma raised_errors_nonempty: "execution_infos xs = [] \<Longrightarrow> xs \<noteq> [] \<Longrightarrow> raised_errors xs \<noteq> []"
  by (induction xs rule: raised_errors.induct) simp_all

lemma step_task_errors:
  "pool_step base invoke p q \<Longrightarrow> execution_infos (task_errors p) = [] \<Longrightarrow> execution_infos (task_errors q) = []"
  by (induction rule: pool_step.induct)
    (auto simp: next_iteration_def resume_worker_def exit_worker_def Let_def split: list.splits sum.splits executor_exn.splits)

theorem unexpected_errors_reported:
  assumes "(pool_step base invoke)\<^sup>*\<^sup>* (initial_pool limit all_items) p" and "task_errors p \<noteq> []"
  shows "loop_outcome task p = Inl (InvocationFailed (unexpected_loop_error task (raised_errors (task_errors p))))"
proof -
  have "execution_infos (task_errors p) = []"
    using assms(1) by (induction rule: rtranclp_induct) (auto simp: initial_pool_def dest: step_task_errors)
  then show ?thesis using assms(2) raised_errors_nonempty by (simp add: loop_outcome_def handle_task_errors_def)
qed

section \<open>A loop of two iterations\<close>

definition sample_loop_input :: run_input where
  "sample_loop_input = sample_run_input\<lparr>ri_task := (new_stmt ''a'' ''core.http_request'')\<lparr>for_each_expr := VStr ''loop''\<rparr>\<rparr>"

definition sample_iterables :: "pyval \<Rightarrow> (string, pyval) dict \<Rightarrow> exn + iterable_expr list" where
  "sample_iterables v ctx = Inr [\<lparr>iterator = ''.item'', collection = [VInt 7, VInt 8]\<rparr>]"

lemmas sample_simps = sample_executor_env_def sample_role_def sample_run_input_def sample_loop_input_def new_stmt_def

lemma logical_time_cancelled: "logical_time_of sample_executor_env ctx \<noteq> Inl CancelledError"
  by (auto simp: logical_time_of_def get_or_empty_def sample_executor_env_def sbind_eq_Inl split: pyval.splits if_splits)

lemma sample_prepared:
  "\<exists>rc. prepare_resolved_context sample_executor_env (sample_loop_input\<lparr>ri_exec_context := ctx\<rparr>) sample_role =
     sbind (logical_time_of sample_executor_env
       (dict_set ''VARS'' (VDict []) (dict_set ''SECRETS'' (VDict [(''api'', VDict [(''KEY'', VStr ''s3cret'')])]) ctx)))
       (\<lambda>t. Inr \<lparr>pc_resolved_context = rc t, pc_mask_values = Some [''s3cret''], pc_provenance = None\<rparr>) \<and>
     (\<forall>t. impl_type (rc_action_impl (rc t)) = ''udf'')"
proof -
  have masks: "collect_mask_values (ex_str sample_executor_env)
      [[(''api'', VDict [(''KEY'', VStr ''s3cret'')])], [(''api'', VDict [(''KEY'', VStr ''s3cret'')])]] = [''s3cret'']"
    by (simp add: collect_mask_values_def leaf_masks_def traverse_leaves.simps sample_executor_env_def)
  show ?thesis
    by (rule exI [of _ "\<lambda>t. \<lparr>rc_secrets = [(''api'', VDict [(''KEY'', VStr ''s3cret'')])], rc_variables = [],
          rc_action_impl = \<lparr>impl_type = ''udf'', template_definition = []\<rparr>, rc_evaluated_args = [], rc_workspace_id = ''w'',
          rc_workflow_id = ''wf'', rc_run_id = ''run'', rc_executor_token = ''token'', rc_logical_time = t,
          rc_secret_projection = \<lparr>projected_env = [(''api'', VDict [(''KEY'', VStr ''s3cret'')])], mask_values = [''s3cret'']\<rparr>\<rparr>"])
      (use masks in \<open>simp add: prepare_resolved_context_def sample_simps Let_def get_workspace_variables_def
         project_secret_env_def mint_action_executor_token_def\<close>)
qed

lemma sample_invoke:
  "loop_invoke (Suc depth) (\<lambda>_. sample_executor_env) sample_loop_input sample_role i ctx =
     (case logical_time_of sample_executor_env
         (dict_set ''VARS'' (VDict []) (dict_set ''SECRETS'' (VDict [(''api'', VDict [(''KEY'', VStr ''s3cret'')])]) ctx)) of
        Inl e \<Rightarrow> Inl (ExecutionError (with_loop_context (Some i) ctx (from_exc sample_executor_env e ''core.http_request'')))
      | Inr _ \<Rightarrow> Inr (apply_masks_object (VList [VStr ''got s3cret'', get_default VNone ctx ''var'']) [''s3cret'']))"
proof -
  let ?t = "logical_time_of sample_executor_env
    (dict_set ''VARS'' (VDict []) (dict_set ''SECRETS'' (VDict [(''api'', VDict [(''KEY'', VStr ''s3cret'')])]) ctx))"
  obtain rc where prep: "prepare_resolved_context sample_executor_env (sample_loop_input\<lparr>ri_exec_context := ctx\<rparr>) sample_role =
      sbind ?t (\<lambda>t. Inr \<lparr>pc_resolved_context = rc t, pc_mask_values = Some [''s3cret''], pc_provenance = None\<rparr>)"
    and udf: "\<forall>t. impl_type (rc_action_impl (rc t)) = ''udf''" using sample_prepared by blast
  have "organization_id sample_role = Some ''o''" "ex_prefetch_lock sample_executor_env = (\<lambda>_. Inr ())"
    "ex_execute sample_executor_env = (\<lambda>inp rc. Inr (ExecutorResultSuccess
       (VList [VStr ''got s3cret'', get_default VNone (ri_exec_context inp) ''var''])))"
    "action (ri_task sample_loop_input) = ''core.http_request''" by (simp_all add: sample_simps)
  with prep udf logical_time_cancelled show ?thesis
    by (cases ?t) (auto simp: loop_invoke_def invoke_once_def wrap_failure_def)
qed

lemma sample_zip: "zip_iterators [\<lparr>iterator = ''.item'', collection = [VInt 7, VInt 8]\<rparr>] = [[(''.item'', VInt 7)], [(''.item'', VInt 8)]]"
  by (simp add: zip_iterators_def upt_rec)

lemma sample_answer:
  assumes "all_items ! i = [(''.item'', VInt n)]"
  shows "iteration_answer [] (loop_invoke 9 (\<lambda>_. sample_executor_env) sample_loop_input sample_role) all_items i =
    Inr (VList [VStr ''got ***'', VDict [(''item'', VInt n)]])"
proof -
  have "(9 :: nat) = Suc 8" by simp
  then have "loop_invoke 9 (\<lambda>_. sample_executor_env) sample_loop_input sample_role i [(''var'', VDict [(''item'', VInt n)])] =
      Inr (VList [VStr ''got ***'', VDict [(''item'', VInt n)]])"
    by (simp only: sample_invoke) (simp add: logical_time_of_def get_or_empty_def get_default_def
        apply_masks_object_def compile_mask_pattern_def apply_mask_pattern_def MASK_VALUE_def)
  moreover have "patch_iteration [] [(''.item'', VInt n)] = Inr [(''var'', VDict [(''item'', VInt n)])]"
    by (simp add: patch_iteration_def patch_object_def)
  ultimately show ?thesis by (simp add: iteration_answer_def assms)
qed

theorem for_each_dispatch_exact_witness:
  "\<exists>r. dispatch_action 9 (\<lambda>_. sample_executor_env) sample_iterables 2 (Some sample_role) sample_loop_input r \<and>
     r = Inr (VList [VList [VStr ''got ***'', VDict [(''item'', VInt 7)]], VList [VStr ''got ***'', VDict [(''item'', VInt 8)]]])"
proof -
  let ?its = "[\<lparr>iterator = ''.item'', collection = [VInt 7, VInt 8]\<rparr>]"
  obtain r where run: "dispatch_action 9 (\<lambda>_. sample_executor_env) sample_iterables 2 (Some sample_role) sample_loop_input r"
    using dispatch_total by blast
  have nc: "loop_invoke 9 (\<lambda>_. sample_executor_env) sample_loop_input sample_role i ctx \<noteq> Inl (Raised CancelledError)" for i ctx
    using sample_invoke [of 8 i ctx] by (simp split: sum.splits)
  have base: "ri_exec_context sample_loop_input = []" by (simp add: sample_simps)
  have "r = for_each_spec (iteration_answer (ri_exec_context sample_loop_input)
      (loop_invoke 9 (\<lambda>_. sample_executor_env) sample_loop_input sample_role) (zip_iterators ?its)) (length (zip_iterators ?its))"
    by (rule for_each_dispatch_exact [OF run])
      (use nc in \<open>simp_all add: require_action_scope_def sample_simps sample_iterables_def\<close>)
  then show ?thesis using run by (simp add: base sample_zip for_each_spec_def sample_answer upt_rec)
qed

theorem for_each_pool_ends_witness:
  "\<exists>n p. (pool_step [] (\<lambda>i ctx. Inr (VInt (int i))) ^^ n) (initial_pool 3 [[], []]) p \<and> pool_done p \<and> n \<le> 10"
proof -
  let ?step = "pool_step [] (\<lambda>i ctx. Inr (VInt (int i)))"
  obtain p where "?step\<^sup>*\<^sup>* (initial_pool 3 [[], []]) p" and fin: "pool_done p" using pool_reaches_done by blast
  then obtain n where n: "(?step ^^ n) (initial_pool 3 [[], []]) p" using rtranclp_imp_relpowp by metis
  have "n \<le> 2 * (length [[] :: (string \<times> pyval) list, []] + nat (max 1 3))"
    using for_each_pool_ends [where base = "[]" and invoke = "\<lambda>i ctx. Inr (VInt (int i))" and limit = 3
        and all_items = "[[], []]" and envs = "\<lambda>_. sample_executor_env" and depth = 0 and iterables = sample_iterables
        and ctx_role = None and inp = sample_loop_input] n by blast
  with n fin show ?thesis by auto
qed

end
