(* ===== verification/Expr_Functions.thy ===== *)
theory Expr_Functions
  imports Subflows Secrets_Mask
begin

text \<open>
  The operators and functions of the expression language (\<open>tracecat/expressions/functions.py\<close>) on Python
  values: equality and ordering across numeric types, arithmetic, membership, casts, and the string,
  list and dictionary functions that need no library. Tuples are lists. What rests on a library
  (JSON, YAML, dates, hashes, regular expressions, IP addresses, printing of arbitrary values, object
  identity) is a field of \<open>expr_lib\<close>.
\<close>

section \<open>Python's generic operations\<close>

record expr_lib =
  lib_is :: "pyval \<Rightarrow> pyval \<Rightarrow> bool"
  lib_str :: "pyval \<Rightarrow> string"
  lib_float :: "string \<Rightarrow> exn + pyval"
  lib_datetime :: "pyval \<Rightarrow> exn + pyval"
  lib_str_mod :: "string \<Rightarrow> pyval \<Rightarrow> exn + pyval"
  lib_stored_items :: "stored_object \<Rightarrow> pyval list"
  lib_stored_leaves :: "stored_object \<Rightarrow> pyval list"
  lib_function :: "string \<Rightarrow> (pyval list \<Rightarrow> exn + pyval) option"

text \<open>The value of a number; booleans are integers.\<close>

fun num_of :: "pyval \<Rightarrow> rat option" where
  "num_of (VBool b) = Some (if b then 1 else 0)"
| "num_of (VInt i) = Some (of_int i)"
| "num_of (VFloat x) = Some x"
| "num_of _ = None"

fun int_of :: "pyval \<Rightarrow> int option" where
  "int_of (VBool b) = Some (if b then 1 else 0)"
| "int_of (VInt i) = Some i"
| "int_of _ = None"

text \<open>
  \<open>a == b\<close>: numbers by value whatever their type, dictionaries without regard to the order of their
  keys. Two values are equal when their normal forms are.
\<close>

function norm_value :: "pyval \<Rightarrow> pyval" where
  "norm_value v =
     (case v of
        VBool b \<Rightarrow> VFloat (if b then 1 else 0)
      | VInt i \<Rightarrow> VFloat (of_int i)
      | VList xs \<Rightarrow> VList (map norm_value xs)
      | VDict d \<Rightarrow> VDict (sort_key fst (map (\<lambda>kv. (fst kv, norm_value (snd kv))) d))
      | _ \<Rightarrow> v)"
  by pat_completeness auto
termination
proof (relation "measure size")
  fix v d kv
  assume "v = VDict d" and "kv \<in> set d"
  from size_entry [OF this] show "(snd kv, v) \<in> measure size" by simp
next
  fix v xs x
  assume "v = VList xs" and "x \<in> set xs"
  from size_item [OF this] show "(x, v) \<in> measure size" by simp
qed simp

declare norm_value.simps [simp del]

definition is_equal :: "pyval \<Rightarrow> pyval \<Rightarrow> bool" where
  "is_equal a b \<longleftrightarrow> norm_value a = norm_value b"

definition not_equal :: "pyval \<Rightarrow> pyval \<Rightarrow> bool" where
  "not_equal a b \<longleftrightarrow> \<not> is_equal a b"

text \<open>Lists are compared at their first difference.\<close>

fun first_difference :: "pyval list \<Rightarrow> pyval list \<Rightarrow> (pyval \<times> pyval) option" where
  "first_difference (x # xs) (y # ys) = (if is_equal x y then first_difference xs ys else Some (x, y))"
| "first_difference _ _ = None"

lemma first_difference_in: "first_difference xs ys = Some (x, y) \<Longrightarrow> x \<in> set xs \<and> y \<in> set ys"
  by (induction xs ys rule: first_difference.induct) (auto split: if_splits)

datatype comparison = Less | LessEq | Greater | GreaterEq

primrec compare_by :: "comparison \<Rightarrow> 'a :: linorder \<Rightarrow> 'a \<Rightarrow> bool" where
  "compare_by Less a b = (a < b)"
| "compare_by LessEq a b = (a \<le> b)"
| "compare_by Greater a b = (b < a)"
| "compare_by GreaterEq a b = (b \<le> a)"

abbreviation unsupported :: "string \<Rightarrow> pyval \<Rightarrow> pyval \<Rightarrow> exn" where
  "unsupported op a b \<equiv> TypeError (''unsupported operand type(s) for '' @ op @ '': '' @ type_name a @ '' and '' @ type_name b)"

function compare_values :: "comparison \<Rightarrow> pyval \<Rightarrow> pyval \<Rightarrow> exn + bool" where
  "compare_values op a b =
     (case (num_of a, num_of b) of
        (Some x, Some y) \<Rightarrow> Inr (compare_by op x y)
      | _ \<Rightarrow>
          (case (a, b) of
             (VStr s, VStr t) \<Rightarrow> Inr (compare_by op s t)
           | (VList xs, VList ys) \<Rightarrow>
               (case first_difference xs ys of
                  Some (x, y) \<Rightarrow> compare_values op x y
                | None \<Rightarrow> Inr (compare_by op (length xs) (length ys)))
           | _ \<Rightarrow> Inl (unsupported ''comparison'' a b)))"
  by pat_completeness auto
termination
  by (relation "measure (\<lambda>(_, a, _). size a)") (auto dest!: first_difference_in simp: less_Suc_eq_le size_list_estimation')

declare compare_values.simps [simp del]

section \<open>Operators\<close>

definition less_than :: "pyval \<Rightarrow> pyval \<Rightarrow> exn + bool" where "less_than = compare_values Less"
definition less_than_or_equal :: "pyval \<Rightarrow> pyval \<Rightarrow> exn + bool" where "less_than_or_equal = compare_values LessEq"
definition greater_than :: "pyval \<Rightarrow> pyval \<Rightarrow> exn + bool" where "greater_than = compare_values Greater"
definition greater_than_or_equal :: "pyval \<Rightarrow> pyval \<Rightarrow> exn + bool" where "greater_than_or_equal = compare_values GreaterEq"

text \<open>Arithmetic on two numbers: on integers if both are, on floats otherwise.\<close>

definition arith :: "string \<Rightarrow> (int \<Rightarrow> int \<Rightarrow> int) \<Rightarrow> (rat \<Rightarrow> rat \<Rightarrow> rat) \<Rightarrow> pyval \<Rightarrow> pyval \<Rightarrow> exn + pyval" where
  "arith op f g a b =
     (case (int_of a, int_of b) of
        (Some x, Some y) \<Rightarrow> Inr (VInt (f x y))
      | _ \<Rightarrow>
          (case (num_of a, num_of b) of
             (Some x, Some y) \<Rightarrow> Inr (VFloat (g x y))
           | _ \<Rightarrow> Inl (unsupported op a b)))"

definition add :: "pyval \<Rightarrow> pyval \<Rightarrow> exn + pyval" where
  "add a b =
     (case (a, b) of
        (VStr s, VStr t) \<Rightarrow> Inr (VStr (s @ t))
      | (VList xs, VList ys) \<Rightarrow> Inr (VList (xs @ ys))
      | _ \<Rightarrow> arith ''+'' (+) (+) a b)"

definition sub :: "pyval \<Rightarrow> pyval \<Rightarrow> exn + pyval" where
  "sub a b = arith ''-'' (-) (-) a b"

definition repeat_seq :: "int \<Rightarrow> 'a list \<Rightarrow> 'a list" where
  "repeat_seq n xs = concat (replicate (nat n) xs)"

definition mul :: "pyval \<Rightarrow> pyval \<Rightarrow> exn + pyval" where
  "mul a b =
     (case (a, int_of b, int_of a, b) of
        (VStr s, Some n, _, _) \<Rightarrow> Inr (VStr (repeat_seq n s))
      | (VList xs, Some n, _, _) \<Rightarrow> Inr (VList (repeat_seq n xs))
      | (_, _, Some n, VStr s) \<Rightarrow> Inr (VStr (repeat_seq n s))
      | (_, _, Some n, VList xs) \<Rightarrow> Inr (VList (repeat_seq n xs))
      | _ \<Rightarrow> arith ''*'' (*) (*) a b)"

abbreviation ZeroDivisionError :: "string \<Rightarrow> exn" where
  "ZeroDivisionError \<equiv> PyError ''ZeroDivisionError''"

definition div_values :: "pyval \<Rightarrow> pyval \<Rightarrow> exn + pyval" where
  "div_values a b =
     (if is_equal b (VInt 0) then Inl (ZeroDivisionError ''Cannot divide by zero'')
      else case (num_of a, num_of b) of
             (Some x, Some y) \<Rightarrow> Inr (VFloat (x / y))
           | _ \<Rightarrow> Inl (unsupported ''/'' a b))"

text \<open>The remainder has the sign of the divisor; \<open>%\<close> on a string formats.\<close>

definition mod_values :: "expr_lib \<Rightarrow> pyval \<Rightarrow> pyval \<Rightarrow> exn + pyval" where
  "mod_values lib a b =
     (if is_equal b (VInt 0) then Inl (ZeroDivisionError ''Cannot calculate modulo with zero'')
      else case a of
             VStr s \<Rightarrow> lib_str_mod lib s b
           | _ \<Rightarrow> arith ''%'' (mod) (\<lambda>x y. x - y * of_int \<lfloor>x / y\<rfloor>) a b)"

definition unhashable :: "pyval \<Rightarrow> bool" where
  "unhashable v = (case v of VList _ \<Rightarrow> True | VDict _ \<Rightarrow> True | _ \<Rightarrow> False)"

definition is_in :: "expr_lib \<Rightarrow> pyval \<Rightarrow> pyval \<Rightarrow> exn + bool" where
  "is_in lib item container =
     (case container of
        VList xs \<Rightarrow> Inr (list_ex (\<lambda>x. is_equal item x) xs)
      | VStr s \<Rightarrow>
          (case item of
             VStr t \<Rightarrow> Inr (sublist t s)
           | _ \<Rightarrow> Inl (TypeError (''in <string> requires string as left operand, not '' @ type_name item)))
      | VDict d \<Rightarrow>
          if unhashable item then Inl (TypeError (''unhashable type: '' @ type_name item))
          else (case item of VStr k \<Rightarrow> Inr (k \<in> set (dict_keys d)) | _ \<Rightarrow> Inr False)
      | VStored obj \<Rightarrow> Inr (list_ex (\<lambda>x. is_equal item x) (lib_stored_items lib obj))
      | _ \<Rightarrow> Inl (TypeError (''argument of type '' @ type_name container @ '' is not iterable'')))"

definition not_in :: "expr_lib \<Rightarrow> pyval \<Rightarrow> pyval \<Rightarrow> exn + bool" where
  "not_in lib item container = map_sum id Not (is_in lib item container)"

definition and_values :: "pyval \<Rightarrow> pyval \<Rightarrow> pyval" where
  "and_values a b = (if py_bool a then b else a)"

definition or_values :: "pyval \<Rightarrow> pyval \<Rightarrow> pyval" where
  "or_values a b = (if py_bool a then a else b)"

definition vbool :: "exn + bool \<Rightarrow> exn + pyval" where
  "vbool r = map_sum id VBool r"

definition OPERATORS :: "expr_lib \<Rightarrow> (string, pyval \<Rightarrow> pyval \<Rightarrow> exn + pyval) dict" where
  "OPERATORS lib =
     [(''||'', \<lambda>a b. Inr (or_values a b)), (''&&'', \<lambda>a b. Inr (and_values a b)),
      (''=='', \<lambda>a b. Inr (VBool (is_equal a b))), (''!='', \<lambda>a b. Inr (VBool (not_equal a b))),
      (''<'', \<lambda>a b. vbool (less_than a b)), (''<='', \<lambda>a b. vbool (less_than_or_equal a b)),
      (''>'', \<lambda>a b. vbool (greater_than a b)), (''>='', \<lambda>a b. vbool (greater_than_or_equal a b)),
      (''+'', add), (''-'', sub), (''*'', mul), (''/'', div_values), (''%'', mod_values lib),
      (''in'', \<lambda>a b. vbool (is_in lib a b)), (''not in'', \<lambda>a b. vbool (not_in lib a b)),
      (''is'', \<lambda>a b. Inr (VBool (lib_is lib a b))), (''is not'', \<lambda>a b. Inr (VBool (\<not> lib_is lib a b)))]"

section \<open>Casts\<close>

definition lower :: "string \<Rightarrow> string" where
  "lower s = map lower_char s"

definition bool_cast :: "pyval \<Rightarrow> bool" where
  "bool_cast x = (case x of VBool b \<Rightarrow> b | VStr s \<Rightarrow> lower s \<in> {''true'', ''1''} | _ \<Rightarrow> py_bool x)"

text \<open>\<open>int(x)\<close> truncates a float towards zero.\<close>

definition int_cast :: "pyval \<Rightarrow> exn + int" where
  "int_cast x =
     (case x of
        VBool b \<Rightarrow> Inr (if b then 1 else 0)
      | VInt i \<Rightarrow> Inr i
      | VFloat r \<Rightarrow> Inr (if r < 0 then \<lceil>r\<rceil> else \<lfloor>r\<rfloor>)
      | VStr s \<Rightarrow> (case py_int s of None \<Rightarrow> Inl (ValueError (''invalid literal for int() with base 10: '' @ s)) | Some i \<Rightarrow> Inr i)
      | _ \<Rightarrow> Inl (TypeError (''int() argument must be a string or a number, not '' @ type_name x)))"

definition float_cast :: "expr_lib \<Rightarrow> pyval \<Rightarrow> exn + pyval" where
  "float_cast lib x =
     (case num_of x of
        Some r \<Rightarrow> Inr (VFloat r)
      | None \<Rightarrow>
          (case x of
             VStr s \<Rightarrow> lib_float lib s
           | _ \<Rightarrow> Inl (TypeError (''float() argument must be a string or a number, not '' @ type_name x))))"

definition cast :: "expr_lib \<Rightarrow> pyval \<Rightarrow> string \<Rightarrow> exn + pyval" where
  "cast lib x typename =
     (if typename = ''int'' then map_sum id VInt (int_cast x)
      else if typename = ''float'' then float_cast lib x
      else if typename = ''str'' then Inr (VStr (lib_str lib x))
      else if typename = ''bool'' then Inr (VBool (bool_cast x))
      else if typename = ''datetime'' then lib_datetime lib x
      else Inl (ValueError (''Unknown type '' @ typename @ '' for cast operation.'')))"

section \<open>Functions\<close>

text \<open>The items of \<open>for item in v\<close>.\<close>

definition iter_items :: "expr_lib \<Rightarrow> pyval \<Rightarrow> exn + pyval list" where
  "iter_items lib v =
     (case v of
        VList xs \<Rightarrow> Inr xs
      | VStr s \<Rightarrow> Inr (map (\<lambda>c. VStr [c]) s)
      | VDict d \<Rightarrow> Inr (map (\<lambda>(k, _). VStr k) d)
      | VStored obj \<Rightarrow> Inr (lib_stored_items lib obj)
      | _ \<Rightarrow> Inl (TypeError (type_name v @ '' object is not iterable'')))"

definition add_prefix :: "expr_lib \<Rightarrow> pyval \<Rightarrow> pyval \<Rightarrow> exn + pyval" where
  "add_prefix lib x pre =
     (if is_iterable x
      then sbind (iter_items lib x) (\<lambda>items. Inr (VList (map (\<lambda>item. VStr (lib_str lib pre @ lib_str lib item)) items)))
      else Inr (VStr (lib_str lib pre @ lib_str lib x)))"

definition add_suffix :: "expr_lib \<Rightarrow> pyval \<Rightarrow> pyval \<Rightarrow> exn + pyval" where
  "add_suffix lib x suf =
     (if is_iterable x
      then sbind (iter_items lib x) (\<lambda>items. Inr (VList (map (\<lambda>item. VStr (lib_str lib item @ lib_str lib suf)) items)))
      else Inr (VStr (lib_str lib x @ lib_str lib suf)))"

definition slice_str :: "pyval \<Rightarrow> pyval \<Rightarrow> pyval \<Rightarrow> exn + pyval" where
  "slice_str x start_index len =
     sbind (add start_index len) (\<lambda>stop.
       case (int_of start_index, int_of stop, x) of
         (Some a, Some b, VStr s) \<Rightarrow> Inr (VStr (py_slice s a b))
       | (Some a, Some b, VList xs) \<Rightarrow> Inr (VList (py_slice xs a b))
       | _ \<Rightarrow> Inl (TypeError ''slice indices must be integers''))"

text \<open>\<open>v[index]\<close>.\<close>

definition py_getitem :: "pyval \<Rightarrow> pyval \<Rightarrow> exn + pyval" where
  "py_getitem v index =
     (case v of
        VDict d \<Rightarrow>
          if unhashable index then Inl (TypeError (''unhashable type: '' @ type_name index))
          else (case index of
                  VStr k \<Rightarrow> (case dict_get d k of Some x \<Rightarrow> Inr x | None \<Rightarrow> Inl (KeyError k))
                | _ \<Rightarrow> Inl (KeyError (type_name index)))
      | VList xs \<Rightarrow>
          (case int_of index of
             None \<Rightarrow> Inl (TypeError (''list indices must be integers, not '' @ type_name index))
           | Some i \<Rightarrow> (case py_nth xs i of Some x \<Rightarrow> Inr x | None \<Rightarrow> Inl (IndexError ''list index out of range'')))
      | VStr s \<Rightarrow>
          (case int_of index of
             None \<Rightarrow> Inl (TypeError (''string indices must be integers, not '' @ type_name index))
           | Some i \<Rightarrow> (case py_nth s i of Some c \<Rightarrow> Inr (VStr [c]) | None \<Rightarrow> Inl (IndexError ''string index out of range'')))
      | _ \<Rightarrow> Inl (TypeError (type_name v @ '' object is not subscriptable'')))"

definition at_index :: "pyval \<Rightarrow> pyval \<Rightarrow> exn + pyval" where
  "at_index sequence index = py_getitem sequence index"

text \<open>A method of \<open>str\<close> with a string argument.\<close>

definition str_method :: "(string \<Rightarrow> string \<Rightarrow> pyval) \<Rightarrow> pyval \<Rightarrow> pyval \<Rightarrow> exn + pyval" where
  "str_method f x y =
     (case (x, y) of
        (VStr s, VStr t) \<Rightarrow> Inr (f s t)
      | (VStr s, _) \<Rightarrow> Inl (TypeError (''a str is required, not '' @ type_name y))
      | _ \<Rightarrow> Inl (PyError ''AttributeError'' (type_name x @ '' object has no such attribute'')))"

definition endswith :: "pyval \<Rightarrow> pyval \<Rightarrow> exn + pyval" where
  "endswith = str_method (\<lambda>s suf. VBool (ends_with suf s))"

definition startswith :: "pyval \<Rightarrow> pyval \<Rightarrow> exn + pyval" where
  "startswith = str_method (\<lambda>s pre. VBool (starts_with pre s))"

definition strip_chars :: "(char \<Rightarrow> bool) \<Rightarrow> string \<Rightarrow> string" where
  "strip_chars P s = rev (dropWhile P (rev (dropWhile P s)))"

definition strip :: "pyval \<Rightarrow> pyval \<Rightarrow> exn + pyval" where
  "strip x chars =
     (case (x, chars) of
        (VStr s, VNone) \<Rightarrow> Inr (VStr (strip_chars py_space s))
      | _ \<Rightarrow> str_method (\<lambda>s cs. VStr (strip_chars (\<lambda>c. c \<in> set cs) s)) x chars)"

definition list_function :: "expr_lib \<Rightarrow> (pyval list \<Rightarrow> pyval) \<Rightarrow> pyval \<Rightarrow> exn + pyval" where
  "list_function lib f x = sbind (iter_items lib x) (\<lambda>items. Inr (f items))"

definition compact :: "expr_lib \<Rightarrow> pyval \<Rightarrow> exn + pyval" where
  "compact lib = list_function lib (\<lambda>items. VList (filter (\<lambda>item. item \<noteq> VNone) items))"

definition drop_nulls :: "expr_lib \<Rightarrow> pyval \<Rightarrow> exn + pyval" where
  "drop_nulls lib = list_function lib (\<lambda>items. VList (filter (\<lambda>item. item \<noteq> VNone \<and> not_equal item (VStr [])) items))"

definition py_len :: "pyval \<Rightarrow> exn + nat" where
  "py_len v =
     (case v of
        VList xs \<Rightarrow> Inr (length xs)
      | VStr s \<Rightarrow> Inr (length s)
      | VDict d \<Rightarrow> Inr (length d)
      | VStored (CollectionObject _ n _ _ _ _ _) \<Rightarrow> Inr (nat n)
      | _ \<Rightarrow> Inl (TypeError (''object of type '' @ type_name v @ '' has no len()'')))"

definition is_empty :: "pyval \<Rightarrow> exn + pyval" where
  "is_empty x = map_sum id (\<lambda>n. VBool (n = 0)) (py_len x)"

definition not_empty :: "pyval \<Rightarrow> exn + pyval" where
  "not_empty x = map_sum id (\<lambda>n. VBool (n > 0)) (py_len x)"

text \<open>\<open>bool(set(a) & set(b))\<close>.\<close>

definition sets_meet :: "expr_lib \<Rightarrow> pyval \<Rightarrow> pyval \<Rightarrow> exn + bool" where
  "sets_meet lib a b =
     sbind (iter_items lib a) (\<lambda>xs.
     if list_ex unhashable xs then Inl (TypeError ''unhashable type'')
     else sbind (iter_items lib b) (\<lambda>ys.
     if list_ex unhashable ys then Inl (TypeError ''unhashable type'')
     else Inr (list_ex (\<lambda>x. list_ex (is_equal x) ys) xs)))"

definition contains_any_of :: "expr_lib \<Rightarrow> pyval \<Rightarrow> pyval \<Rightarrow> exn + bool" where
  "contains_any_of lib a b = sets_meet lib a b"

definition contains_none_of :: "expr_lib \<Rightarrow> pyval \<Rightarrow> pyval \<Rightarrow> exn + bool" where
  "contains_none_of lib a b = map_sum id Not (sets_meet lib a b)"

text \<open>\<open>_custom_chain\<close>: lists are flattened at every depth, strings and dictionaries are items.\<close>

function custom_chain :: "expr_lib \<Rightarrow> pyval \<Rightarrow> pyval list" where
  "custom_chain lib v =
     (case v of
        VList xs \<Rightarrow> concat (map (custom_chain lib) xs)
      | VStored obj \<Rightarrow> lib_stored_leaves lib obj
      | _ \<Rightarrow> [v])"
  by pat_completeness auto
termination
proof (relation "measure (\<lambda>(_, v). size v)")
  fix lib :: expr_lib and v xs x
  assume "v = VList xs" and "x \<in> set xs"
  from size_item [OF this] show "((lib, x), lib, v) \<in> measure (\<lambda>(_, v). size v)" by simp
qed simp

declare custom_chain.simps [simp del]

definition flatten :: "expr_lib \<Rightarrow> pyval \<Rightarrow> exn + pyval" where
  "flatten lib = list_function lib (\<lambda>items. VList (concat (map (custom_chain lib) items)))"

fun unescape_string :: "string \<Rightarrow> string" where
  "unescape_string (b # c # s) =
     (if b = CHR 0x5C
      then (if c = CHR ''n'' then CHR 0x0A # unescape_string s
            else if c = CHR ''t'' then CHR 0x09 # unescape_string s
            else if c = CHR ''r'' then CHR 0x0D # unescape_string s
            else if c = CHR 0x5C then CHR 0x5C # unescape_string s
            else b # unescape_string (c # s))
      else b # unescape_string (c # s))"
| "unescape_string s = s"

fun join_texts :: "string \<Rightarrow> pyval list \<Rightarrow> exn + string" where
  "join_texts sep [] = Inr []"
| "join_texts sep [VStr s] = Inr s"
| "join_texts sep (VStr s # xs) = sbind (join_texts sep xs) (\<lambda>t. Inr (s @ sep @ t))"
| "join_texts sep (x # xs) = Inl (TypeError (''sequence item: expected str instance, '' @ type_name x @ '' found''))"

definition join_strings :: "expr_lib \<Rightarrow> pyval \<Rightarrow> pyval \<Rightarrow> exn + pyval" where
  "join_strings lib items sep =
     (case sep of
        VStr s \<Rightarrow> sbind (iter_items lib items) (\<lambda>xs. map_sum id VStr (join_texts (unescape_string s) xs))
      | _ \<Rightarrow> Inl (TypeError (''expected string or bytes-like object, got '' @ type_name sep)))"

definition concat_strings :: "pyval list \<Rightarrow> exn + pyval" where
  "concat_strings items = map_sum id VStr (join_texts [] items)"

text \<open>\<open>zip(*iterables, strict=False)\<close>.\<close>

definition zip_lists :: "'a list list \<Rightarrow> 'a list list" where
  "zip_lists xss =
     (if xss = [] then [] else map (\<lambda>i. map (\<lambda>xs. xs ! i) xss) [0..<Min (set (map length xss))])"

definition iter_all :: "expr_lib \<Rightarrow> pyval list \<Rightarrow> exn + pyval list list" where
  "iter_all lib vs = sfold (\<lambda>v acc. sbind (iter_items lib v) (\<lambda>xs. Inr (acc @ [xs]))) vs []"

definition zip_iterables :: "expr_lib \<Rightarrow> pyval list \<Rightarrow> exn + pyval" where
  "zip_iterables lib iterables = sbind (iter_all lib iterables) (\<lambda>xss. Inr (VList (map VList (zip_lists xss))))"

definition iter_product :: "expr_lib \<Rightarrow> pyval list \<Rightarrow> exn + pyval" where
  "iter_product lib iterables = sbind (iter_all lib iterables) (\<lambda>xss. Inr (VList (map VList (product_lists xss))))"

definition range_list :: "int \<Rightarrow> int \<Rightarrow> int \<Rightarrow> int list" where
  "range_list start stop step =
     map (\<lambda>k. start + int k * step) [0..<nat (if step > 0 then (stop - start + step - 1) div step
                                            else (start - stop - step - 1) div (- step))]"

definition create_range :: "pyval \<Rightarrow> pyval \<Rightarrow> pyval \<Rightarrow> exn + pyval" where
  "create_range start stop step =
     (case (int_of start, int_of stop, int_of step) of
        (Some a, Some b, Some k) \<Rightarrow>
          if k = 0 then Inl (ValueError ''range() arg 3 must not be zero'')
          else Inr (VList (map VInt (range_list a b k)))
      | _ \<Rightarrow> Inl (TypeError ''object cannot be interpreted as an integer''))"

text \<open>The items of a dictionary, where the source calls \<open>.items()\<close>, \<open>.keys()\<close>, \<open>.values()\<close> or \<open>.get(...)\<close>.\<close>

definition as_dict :: "pyval \<Rightarrow> exn + (string, pyval) dict" where
  "as_dict v = (case v of VDict d \<Rightarrow> Inr d | _ \<Rightarrow> Inl (PyError ''AttributeError'' (type_name v @ '' object has no such attribute'')))"

definition merge_dicts :: "expr_lib \<Rightarrow> pyval \<Rightarrow> exn + pyval" where
  "merge_dicts lib x =
     sbind (iter_items lib x) (\<lambda>ds.
     sbind (sfold (\<lambda>v acc. sbind (as_dict v) (\<lambda>d. Inr (fold (\<lambda>(k, v). dict_set k v) d acc))) ds []) (\<lambda>d. Inr (VDict d)))"

definition keys_of :: "pyval \<Rightarrow> exn + pyval" where
  "keys_of x = sbind (as_dict x) (\<lambda>d. Inr (VList (map (\<lambda>(k, _). VStr k) d)))"

definition dict_lookup :: "pyval \<Rightarrow> pyval \<Rightarrow> exn + pyval" where
  "dict_lookup x k =
     sbind (as_dict x) (\<lambda>d.
       if unhashable k then Inl (TypeError (''unhashable type: '' @ type_name k))
       else Inr (case k of VStr s \<Rightarrow> get_default VNone d s | _ \<Rightarrow> VNone))"

definition dict_values :: "pyval \<Rightarrow> exn + pyval" where
  "dict_values x = sbind (as_dict x) (\<lambda>d. Inr (VList (map snd d)))"

text \<open>\<open>sum(iterable, start)\<close>, which refuses strings.\<close>

definition sum_values :: "expr_lib \<Rightarrow> pyval \<Rightarrow> pyval \<Rightarrow> exn + pyval" where
  "sum_values lib iterable start =
     (case start of
        VStr _ \<Rightarrow> Inl (TypeError ''sum() cannot sum strings'')
      | _ \<Rightarrow> sbind (iter_items lib iterable) (\<lambda>items. sfold (\<lambda>x acc. add acc x) items start))"

definition min_value :: "pyval \<Rightarrow> pyval \<Rightarrow> exn + pyval" where
  "min_value a b = sbind (less_than b a) (\<lambda>lt. Inr (if lt then b else a))"

definition max_value :: "pyval \<Rightarrow> pyval \<Rightarrow> exn + pyval" where
  "max_value a b = sbind (greater_than b a) (\<lambda>gt. Inr (if gt then b else a))"

section \<open>The function table\<close>

definition wrong_arity :: exn where
  "wrong_arity = TypeError ''wrong number of arguments''"

definition fn1 :: "(pyval \<Rightarrow> exn + pyval) \<Rightarrow> pyval list \<Rightarrow> exn + pyval" where
  "fn1 f xs = (case xs of [a] \<Rightarrow> f a | _ \<Rightarrow> Inl wrong_arity)"

definition fn2 :: "(pyval \<Rightarrow> pyval \<Rightarrow> exn + pyval) \<Rightarrow> pyval list \<Rightarrow> exn + pyval" where
  "fn2 f xs = (case xs of [a, b] \<Rightarrow> f a b | _ \<Rightarrow> Inl wrong_arity)"

definition fn3 :: "(pyval \<Rightarrow> pyval \<Rightarrow> pyval \<Rightarrow> exn + pyval) \<Rightarrow> pyval list \<Rightarrow> exn + pyval" where
  "fn3 f xs = (case xs of [a, b, c] \<Rightarrow> f a b c | _ \<Rightarrow> Inl wrong_arity)"

definition modelled_functions :: "expr_lib \<Rightarrow> (string, pyval list \<Rightarrow> exn + pyval) dict" where
  "modelled_functions lib =
     [(''concat'', concat_strings), (''endswith'', fn2 endswith), (''join'', fn2 (join_strings lib)),
      (''prefix'', fn2 (add_prefix lib)), (''slice'', fn3 slice_str), (''startswith'', fn2 startswith),
      (''strip'', fn2 strip), (''suffix'', fn2 (add_suffix lib)),
      (''greater_than_or_equal'', fn2 (\<lambda>a b. vbool (greater_than_or_equal a b))),
      (''greater_than'', fn2 (\<lambda>a b. vbool (greater_than a b))),
      (''is_equal'', fn2 (\<lambda>a b. Inr (VBool (is_equal a b)))), (''is_null'', fn1 (\<lambda>x. Inr (VBool (x = VNone)))),
      (''less_than_or_equal'', fn2 (\<lambda>a b. vbool (less_than_or_equal a b))),
      (''less_than'', fn2 (\<lambda>a b. vbool (less_than a b))),
      (''is_not_equal'', fn2 (\<lambda>a b. Inr (VBool (not_equal a b)))), (''is_not_null'', fn1 (\<lambda>x. Inr (VBool (x \<noteq> VNone)))),
      (''not_equal'', fn2 (\<lambda>a b. Inr (VBool (not_equal a b)))), (''not_null'', fn1 (\<lambda>x. Inr (VBool (x \<noteq> VNone)))),
      (''compact'', fn1 (compact lib)), (''contains'', fn2 (\<lambda>a b. vbool (is_in lib a b))),
      (''does_not_contain'', fn2 (\<lambda>a b. vbool (not_in lib a b))),
      (''contains_any_of'', fn2 (\<lambda>a b. vbool (contains_any_of lib a b))),
      (''contains_none_of'', fn2 (\<lambda>a b. vbool (contains_none_of lib a b))), (''flatten'', fn1 (flatten lib)),
      (''drop_nulls'', fn1 (drop_nulls lib)), (''is_empty'', fn1 is_empty), (''is_in'', fn2 (\<lambda>a b. vbool (is_in lib a b))),
      (''length'', fn1 (\<lambda>x. map_sum id (\<lambda>n. VInt (int n)) (py_len x))), (''not_empty'', fn1 not_empty),
      (''is_not_empty'', fn1 not_empty), (''not_in'', fn2 (\<lambda>a b. vbool (not_in lib a b))),
      (''is_not_in'', fn2 (\<lambda>a b. vbool (not_in lib a b))), (''at'', fn2 at_index), (''add'', fn2 add), (''sub'', fn2 sub),
      (''mul'', fn2 mul), (''div'', fn2 div_values), (''mod'', fn2 (mod_values lib)),
      (''sum'', \<lambda>xs. case xs of [a] \<Rightarrow> sum_values lib a (VInt 0) | _ \<Rightarrow> fn2 (sum_values lib) xs),
      (''min'', fn2 min_value), (''max'', fn2 max_value), (''zip'', zip_iterables lib), (''iter_product'', iter_product lib),
      (''range'', \<lambda>xs. case xs of [a, b] \<Rightarrow> create_range a b (VInt 1) | _ \<Rightarrow> fn3 create_range xs),
      (''lookup'', fn2 dict_lookup), (''merge'', fn1 (merge_dicts lib)),
      (''to_keys'', fn1 keys_of), (''to_values'', fn1 dict_values),
      (''and'', fn2 (\<lambda>a b. Inr (and_values a b))), (''or'', fn2 (\<lambda>a b. Inr (or_values a b))),
      (''not'', fn1 (\<lambda>x. Inr (VBool (\<not> py_bool x))))]"

definition FUNCTION_MAPPING :: "expr_lib \<Rightarrow> string \<Rightarrow> (pyval list \<Rightarrow> exn + pyval) option" where
  "FUNCTION_MAPPING lib name =
     (case dict_get (modelled_functions lib) name of Some f \<Rightarrow> Some f | None \<Rightarrow> lib_function lib name)"

text \<open>\<open>fn.map\<close>: arguments that are not lists are repeated.\<close>

definition broadcast_map :: "expr_lib \<Rightarrow> (pyval list \<Rightarrow> exn + pyval) \<Rightarrow> pyval list \<Rightarrow> exn + pyval" where
  "broadcast_map lib f arguments =
     (if \<not> list_ex is_iterable arguments then sbind (f arguments) (\<lambda>v. Inr (VList [v]))
      else
        let columns = map (\<lambda>a. if is_iterable a then Some (case iter_items lib a of Inr xs \<Rightarrow> xs | Inl _ \<Rightarrow> []) else None) arguments;
            n = Min (set (map length (List.map_filter id columns)));
            row = (\<lambda>i. map2 (\<lambda>a col. case col of Some xs \<Rightarrow> xs ! i | None \<Rightarrow> a) arguments columns)
        in sbind (sfold (\<lambda>i acc. sbind (f (row i)) (\<lambda>v. Inr (acc @ [v]))) [0..<n] []) (\<lambda>vs. Inr (VList vs)))"

end
