(* ===== verification/Expr_Eval.thy ===== *)
theory Expr_Eval
  imports Expr_Functions Dsl_Expressions
begin

text \<open>
  Evaluation of expressions and templates: the syntax trees of \<open>expressions/parser/grammar.py\<close>, the
  visitor \<open>ExprEvaluator\<close> (\<open>expressions/parser/evaluator.py\<close>), JSONPath look-ups
  (\<open>expressions/common.py\<close>), \<open>Expression\<close> and its policy hook (\<open>expressions/core.py\<close>) and the traversal of
  templated objects (\<open>expressions/eval.py\<close>). The Lark parser and \<open>jsonpath_ng\<close> are parameters.
\<close>

section \<open>Syntax\<close>

datatype literal_token = StringLiteral string | NumericLiteral string | BoolLiteral string | NoneLiteral

text \<open>
  One constructor per rule of the grammar; the operators of \<open>BinaryOp\<close> are the keys of \<open>OPERATORS\<close>. An
  optional part that is absent is \<open>None\<close>.
\<close>

datatype expr =
    ActionsRef string
  | SecretsRef string
  | VarsRef string
  | EnvRef string
  | LocalRef string
  | TriggerRef "string option"
  | InputsRef string
  | StepsRef string
  | FunctionCall string "expr list option"
  | Literal literal_token
  | ListExpr "expr list option"
  | DictExpr "(string \<times> expr) list option"
  | TypeCast string expr
  | Ternary expr expr expr
  | BinaryOp string expr expr
  | NotOp expr
  | NegOp expr
  | PosOp expr
  | Indexed expr "expr list"

datatype root = Plain expr | TrailingCast expr string | Iterator string expr

section \<open>JSONPath\<close>

text \<open>
  \<open>jsonpath_find\<close> parses a path and returns the values it matches in an operand, or \<open>None\<close> if it does not parse;
  \<open>has_filter_node\<close> tells whether its syntax tree has a filter.
\<close>

record expr_env =
  lib :: expr_lib
  parse_expression :: "string \<Rightarrow> exn + root"
  jsonpath_find :: "string \<Rightarrow> (string, pyval) dict \<Rightarrow> pyval list option"
  has_filter_node :: "string \<Rightarrow> bool"
  iterable_value :: "iterable_expr \<Rightarrow> pyval"
  nonstring_key :: "pyval \<Rightarrow> string"

abbreviation ExpressionError :: "string \<Rightarrow> exn" where
  "ExpressionError \<equiv> PyError ''TracecatExpressionError''"

definition eval_jsonpath :: "expr_env \<Rightarrow> string \<Rightarrow> (string, pyval) dict \<Rightarrow> bool \<Rightarrow> exn + pyval" where
  "eval_jsonpath env path operand strict =
     (case jsonpath_find env path operand of
        None \<Rightarrow> Inl (ExpressionError (''Invalid jsonpath '' @ path))
      | Some matches \<Rightarrow>
          let has_wildcard = sublist ''[*]'' path;
              has_filter = sublist ''[?('' path \<or> sublist ''[?@'' path \<or> has_filter_node env path
          in if 1 < length matches \<or> has_wildcard \<or> has_filter then Inr (VList matches)
             else (case matches of
                     [v] \<Rightarrow> Inr v
                   | _ \<Rightarrow> if strict then Inl (ExpressionError (''Could not resolve expression '' @ path)) else Inr VNone))"

section \<open>The evaluator\<close>

definition MAX_VARS_PATH_DEPTH :: nat where
  "MAX_VARS_PATH_DEPTH = 1"

text \<open>\<open>STRING_LITERAL\<close> strips the quotes and keeps the text between them as it is.\<close>

definition unquote :: "string \<Rightarrow> string" where
  "unquote tok = butlast (tl tok)"

definition literal_value :: "expr_env \<Rightarrow> literal_token \<Rightarrow> exn + pyval" where
  "literal_value env tok =
     (case tok of
        StringLiteral s \<Rightarrow> Inr (VStr (unquote s))
      | NumericLiteral s \<Rightarrow>
          if s \<noteq> [] \<and> list_all is_digit s
          then Inr (VInt (case py_int s of Some i \<Rightarrow> i | None \<Rightarrow> 0)) else lib_float (lib env) s
      | BoolLiteral s \<Rightarrow> cast (lib env) (VStr s) ''bool''
      | NoneLiteral \<Rightarrow> Inr VNone)"

definition vars_path_ok :: "string \<Rightarrow> bool" where
  "vars_path_ok path =
     (let trimmed = dropWhile (\<lambda>c. c = CHR ''.'') path;
          parts = (if trimmed = [] then [] else split_on CHR ''.'' trimmed)
      in length parts - 1 \<le> MAX_VARS_PATH_DEPTH)"

definition apply_index :: "pyval \<Rightarrow> pyval \<Rightarrow> exn + pyval" where
  "apply_index v index =
     (case v of
        VDict d \<Rightarrow>
          (case py_getitem v index of
             Inr x \<Rightarrow> Inr x
           | Inl e \<Rightarrow> Inl (ExpressionError (if exn_class e = ''KeyError'' then ''Key not found for mapping access''
                            else ''Invalid key type for mapping access'')))
      | VList _ \<Rightarrow>
          if int_of index = None then Inl (ExpressionError ''Sequence indices must be integers'')
          else (case py_getitem v index of Inr x \<Rightarrow> Inr x | Inl _ \<Rightarrow> Inl (ExpressionError ''Sequence index out of range''))
      | VStr _ \<Rightarrow>
          if int_of index = None then Inl (ExpressionError ''Sequence indices must be integers'')
          else (case py_getitem v index of Inr x \<Rightarrow> Inr x | Inl _ \<Rightarrow> Inl (ExpressionError ''Sequence index out of range''))
      | _ \<Rightarrow> Inl (ExpressionError (''Object of type '' @ type_name v @ '' is not indexable'')))"

definition call_function :: "expr_env \<Rightarrow> string \<Rightarrow> pyval list \<Rightarrow> exn + pyval" where
  "call_function env fn_name fn_args =
     (let is_mapped = ends_with ''.map'' fn_name;
          name = (if is_mapped then (case split_last CHR ''.'' fn_name of Some (p, _) \<Rightarrow> p | None \<Rightarrow> fn_name) else fn_name)
      in case FUNCTION_MAPPING (lib env) name of
           None \<Rightarrow> Inl (ExpressionError (''Unknown function '' @ name))
         | Some fn \<Rightarrow> (if is_mapped then broadcast_map (lib env) fn else fn) fn_args)"

definition apply_operator :: "expr_env \<Rightarrow> string \<Rightarrow> pyval \<Rightarrow> pyval \<Rightarrow> exn + pyval" where
  "apply_operator env op lhs rhs =
     (case dict_get (OPERATORS (lib env)) op of Some f \<Rightarrow> f lhs rhs | None \<Rightarrow> Inl (KeyError op))"

definition negate :: "pyval \<Rightarrow> exn + pyval" where
  "negate v =
     (case int_of v of
        Some i \<Rightarrow> Inr (VInt (- i))
      | None \<Rightarrow> (case num_of v of Some x \<Rightarrow> Inr (VFloat (- x)) | None \<Rightarrow> Inl (TypeError ''bad operand type for unary -'')))"

definition unary_plus :: "pyval \<Rightarrow> exn + pyval" where
  "unary_plus v =
     (case int_of v of
        Some i \<Rightarrow> Inr (VInt i)
      | None \<Rightarrow> (case num_of v of Some x \<Rightarrow> Inr (VFloat x) | None \<Rightarrow> Inl (TypeError ''bad operand type for unary +'')))"

text \<open>
  The transformer evaluates all children from left to right and then the node; only a ternary
  evaluates its condition first and then one branch.
\<close>

fun transform :: "expr_env \<Rightarrow> (string, pyval) dict \<Rightarrow> expr \<Rightarrow> exn + pyval"
  and transform_list :: "expr_env \<Rightarrow> (string, pyval) dict \<Rightarrow> expr list \<Rightarrow> exn + pyval list"
  and transform_pairs :: "expr_env \<Rightarrow> (string, pyval) dict \<Rightarrow> (string \<times> expr) list \<Rightarrow> exn + (string \<times> pyval) list"
where
  "transform env ctx (ActionsRef p) = eval_jsonpath env (''ACTIONS'' @ p) ctx False"
| "transform env ctx (SecretsRef p) = eval_jsonpath env (''SECRETS'' @ p) ctx False"
| "transform env ctx (VarsRef p) =
     (if vars_path_ok p then eval_jsonpath env (''VARS'' @ p) ctx False
      else Inl (ExpressionError ''VARS expressions currently support at most one key segment''))"
| "transform env ctx (EnvRef p) = eval_jsonpath env (''ENV'' @ p) ctx False"
| "transform env ctx (LocalRef p) = eval_jsonpath env (''var'' @ p) ctx False"
| "transform env ctx (TriggerRef p) = eval_jsonpath env (''TRIGGER'' @ (case p of None \<Rightarrow> [] | Some t \<Rightarrow> t)) ctx False"
| "transform env ctx (InputsRef p) = eval_jsonpath env (''inputs'' @ p) ctx False"
| "transform env ctx (StepsRef p) = eval_jsonpath env (''steps'' @ p) ctx False"
| "transform env ctx (FunctionCall f None) = call_function env f []"
| "transform env ctx (FunctionCall f (Some es)) = sbind (transform_list env ctx es) (call_function env f)"
| "transform env ctx (Literal tok) = literal_value env tok"
| "transform env ctx (ListExpr None) = Inl (TypeError ''NoneType object is not iterable'')"
| "transform env ctx (ListExpr (Some es)) = sbind (transform_list env ctx es) (\<lambda>vs. Inr (VList vs))"
| "transform env ctx (DictExpr None) = Inl (TypeError ''cannot convert dictionary update sequence element to a sequence'')"
| "transform env ctx (DictExpr (Some kvs)) =
     sbind (transform_pairs env ctx kvs) (\<lambda>d. Inr (VDict (fold (\<lambda>(k, v). dict_set k v) d [])))"
| "transform env ctx (TypeCast t e) = sbind (transform env ctx e) (\<lambda>v. cast (lib env) v t)"
| "transform env ctx (Ternary a c b) =
     sbind (transform env ctx c) (\<lambda>v. if py_bool v then transform env ctx a else transform env ctx b)"
| "transform env ctx (BinaryOp op a b) =
     sbind (transform env ctx a) (\<lambda>x. sbind (transform env ctx b) (\<lambda>y. apply_operator env op x y))"
| "transform env ctx (NotOp e) = sbind (transform env ctx e) (\<lambda>v. Inr (VBool (\<not> py_bool v)))"
| "transform env ctx (NegOp e) = sbind (transform env ctx e) negate"
| "transform env ctx (PosOp e) = sbind (transform env ctx e) unary_plus"
| "transform env ctx (Indexed e is) =
     sbind (transform env ctx e) (\<lambda>v. sbind (transform_list env ctx is) (\<lambda>ixs. sfold (\<lambda>i v. apply_index v i) ixs v))"
| "transform_list env ctx [] = Inr []"
| "transform_list env ctx (e # es) = sbind (transform env ctx e) (\<lambda>v. sbind (transform_list env ctx es) (\<lambda>vs. Inr (v # vs)))"
| "transform_pairs env ctx [] = Inr []"
| "transform_pairs env ctx ((k, e) # kvs) =
     sbind (transform env ctx e) (\<lambda>v. sbind (transform_pairs env ctx kvs) (\<lambda>d. Inr ((unquote k, v) # d)))"

datatype eval_result = Value pyval | Iterable iterable_expr

definition transform_root :: "expr_env \<Rightarrow> (string, pyval) dict \<Rightarrow> root \<Rightarrow> exn + eval_result" where
  "transform_root env ctx t =
     (case t of
        Plain e \<Rightarrow> map_sum id Value (transform env ctx e)
      | TrailingCast e ty \<Rightarrow> sbind (transform env ctx e) (\<lambda>v. map_sum id Value (cast (lib env) v ty))
      | Iterator p e \<Rightarrow>
          sbind (transform env ctx e) (\<lambda>v.
            case iter_items (lib env) v of
              Inr xs \<Rightarrow> Inr (Iterable \<lparr>iterator = p, collection = xs\<rparr>)
            | Inl _ \<Rightarrow> Inl (ValueError ''Invalid iterator collection. Must be an iterable.'')))"

text \<open>\<open>evaluate\<close>: whatever a node raises reaches the caller as \<open>TracecatExpressionError\<close>.\<close>

definition evaluate :: "expr_env \<Rightarrow> (string, pyval) dict \<Rightarrow> root \<Rightarrow> exn + eval_result" where
  "evaluate env ctx t =
     (case transform_root env ctx t of
        Inr r \<Rightarrow> Inr r
      | Inl e \<Rightarrow> Inl (ExpressionError (''[evaluator] Evaluation failed at node. Reason: '' @ exn_text e)))"

section \<open>Expressions with a policy\<close>

text \<open>
  A policy gets the source text, the syntax tree, the ordinary evaluation and whether the expression
  is the whole string.
\<close>

type_synonym policy = "string \<Rightarrow> root \<Rightarrow> exn + eval_result \<Rightarrow> bool \<Rightarrow> exn + eval_result"

definition expression_result ::
  "expr_env \<Rightarrow> (string, pyval) dict \<Rightarrow> policy option \<Rightarrow> string \<Rightarrow> string \<Rightarrow> bool \<Rightarrow> exn + eval_result" where
  "expression_result env ctx policy source e standalone =
     (case parse_expression env e of
        Inl x \<Rightarrow> Inl (if exn_class x = ''TracecatExpressionError'' then ExpressionError (''Error parsing expression '' @ e) else x)
      | Inr t \<Rightarrow>
          (case (case policy of None \<Rightarrow> evaluate env ctx t | Some p \<Rightarrow> p source t (evaluate env ctx t) standalone) of
             Inr r \<Rightarrow> Inr r
           | Inl x \<Rightarrow> Inl (if exn_class x = ''TracecatExpressionError'' then ExpressionError (''Error evaluating expression '' @ e) else x)))"

section \<open>Templated objects\<close>

text \<open>
  The template at the head of a string, if there is one: its source text, its expression and the text
  behind it.
\<close>

definition head_template :: "string \<Rightarrow> (string \<times> string \<times> string) option" where
  "head_template s =
     (if starts_with ''${{'' s
      then map_option (\<lambda>(e, t). (take (length s - length t) s, e, t)) (template_body (drop 3 s))
      else None)"

lemma head_template_length: "head_template s = Some (src, e, t) \<Longrightarrow> length t < length s"
  by (auto simp: head_template_def starts_with_iff dest!: template_body_length split: if_splits)

text \<open>The result of an expression as an object: an iterator is an opaque value.\<close>

definition result_value :: "expr_env \<Rightarrow> eval_result \<Rightarrow> pyval" where
  "result_value env r = (case r of Value v \<Rightarrow> v | Iterable it \<Rightarrow> iterable_value env it)"

text \<open>\<open>pattern.sub(evaluator, line)\<close>.\<close>

function substitute :: "expr_env \<Rightarrow> (string \<Rightarrow> string \<Rightarrow> exn + eval_result) \<Rightarrow> string \<Rightarrow> exn + string" where
  "substitute env ev s =
     (case head_template s of
        Some (src, e, t) \<Rightarrow>
          sbind (ev src e) (\<lambda>r. sbind (substitute env ev t) (\<lambda>u. Inr (lib_str (lib env) (result_value env r) @ u)))
      | None \<Rightarrow> (case s of [] \<Rightarrow> Inr [] | c # cs \<Rightarrow> sbind (substitute env ev cs) (\<lambda>u. Inr (c # u))))"
  by pat_completeness auto
termination by (relation "measure (\<lambda>(_, _, s). length s)") (auto dest: head_template_length)

declare substitute.simps [simp del]

definition string_operator :: "expr_env \<Rightarrow> (string, pyval) dict \<Rightarrow> policy option \<Rightarrow> string \<Rightarrow> exn + eval_result" where
  "string_operator env ctx policy line =
     (if is_template_only line \<and> length (find_templates line) = 1
      then (case head_template line of
              Some (src, e, _) \<Rightarrow> expression_result env ctx policy src e True
            | None \<Rightarrow> Inl (ExpressionError ''Template expression does not match expected pattern.''))
      else map_sum id (\<lambda>s. Value (VStr s)) (substitute env (\<lambda>src e. expression_result env ctx policy src e False) line))"

text \<open>A dictionary key that is not a string is represented by the text that \<open>nonstring_key\<close> gives it.\<close>

definition key_text :: "expr_env \<Rightarrow> pyval \<Rightarrow> exn + string" where
  "key_text env v =
     (case v of
        VStr k \<Rightarrow> Inr k
      | _ \<Rightarrow> if unhashable v then Inl (TypeError (''unhashable type: '' @ type_name v)) else Inr (nonstring_key env v))"

fun eval_templated_obj_rec ::
  "expr_env \<Rightarrow> (string \<Rightarrow> exn + eval_result) \<Rightarrow> (string \<Rightarrow> exn + eval_result) \<Rightarrow> pyval \<Rightarrow> exn + pyval"
  and eval_templated_list ::
  "expr_env \<Rightarrow> (string \<Rightarrow> exn + eval_result) \<Rightarrow> (string \<Rightarrow> exn + eval_result) \<Rightarrow> pyval list \<Rightarrow> exn + pyval list"
  and eval_templated_dict ::
  "expr_env \<Rightarrow> (string \<Rightarrow> exn + eval_result) \<Rightarrow> (string \<Rightarrow> exn + eval_result) \<Rightarrow> (string \<times> pyval) list \<Rightarrow>
   (string, pyval) dict \<Rightarrow> exn + (string, pyval) dict"
where
  "eval_templated_obj_rec env operator key_operator (VStr s) = map_sum id (result_value env) (operator s)"
| "eval_templated_obj_rec env operator key_operator (VList xs) =
     map_sum id VList (eval_templated_list env operator key_operator xs)"
| "eval_templated_obj_rec env operator key_operator (VDict d) =
     map_sum id VDict (eval_templated_dict env operator key_operator d [])"
| "eval_templated_obj_rec env operator key_operator VNone = Inr VNone"
| "eval_templated_obj_rec env operator key_operator (VBool b) = Inr (VBool b)"
| "eval_templated_obj_rec env operator key_operator (VInt i) = Inr (VInt i)"
| "eval_templated_obj_rec env operator key_operator (VFloat x) = Inr (VFloat x)"
| "eval_templated_obj_rec env operator key_operator (VStored obj) = Inr (VStored obj)"
| "eval_templated_list env operator key_operator [] = Inr []"
| "eval_templated_list env operator key_operator (x # xs) =
     sbind (eval_templated_obj_rec env operator key_operator x) (\<lambda>v.
     sbind (eval_templated_list env operator key_operator xs) (\<lambda>vs. Inr (v # vs)))"
| "eval_templated_dict env operator key_operator [] processed = Inr processed"
| "eval_templated_dict env operator key_operator ((k, x) # d) processed =
     sbind (sbind (key_operator k) (\<lambda>r. key_text env (result_value env r))) (\<lambda>k'.
       if k' \<in> set (dict_keys processed)
       then Inl (ExpressionError ''Expression resolution produced a duplicate dictionary key'')
       else sbind (eval_templated_obj_rec env operator key_operator x) (\<lambda>v.
              eval_templated_dict env operator key_operator d (dict_set k' v processed)))"

definition eval_templated_object ::
  "expr_env \<Rightarrow> (string, pyval) dict \<Rightarrow> policy option \<Rightarrow> policy option \<Rightarrow> pyval \<Rightarrow> exn + pyval" where
  "eval_templated_object env ctx policy key_policy obj =
     eval_templated_obj_rec env (string_operator env ctx policy)
       (string_operator env ctx (case key_policy of None \<Rightarrow> policy | Some p \<Rightarrow> Some p)) obj"

text \<open>
  \<open>get_iterables_from_expression\<close>, for the two forms a \<open>for_each\<close> has: one string or a list of them. A string may
  also evaluate to the empty list.
\<close>

definition as_iterable :: "eval_result \<Rightarrow> exn + iterable_expr" where
  "as_iterable r = (case r of Iterable it \<Rightarrow> Inr it | Value _ \<Rightarrow>
     Inl (ValueError ''Invalid for_each expression. Must be an IterableExpr or a list of IterableExprs.''))"

definition get_iterables_from_expression ::
  "expr_env \<Rightarrow> pyval \<Rightarrow> (string, pyval) dict \<Rightarrow> exn + iterable_expr list" where
  "get_iterables_from_expression env e ctx =
     (case e of
        VStr s \<Rightarrow> sbind (string_operator env ctx None s) (\<lambda>r.
          if r = Value (VList []) then Inr [] else sbind (as_iterable r) (\<lambda>it. Inr [it]))
      | VList xs \<Rightarrow>
          sbind (sfold (\<lambda>x acc. sbind (case x of
                      VStr s \<Rightarrow> string_operator env ctx None s
                    | _ \<Rightarrow> map_sum id Value (eval_templated_object env ctx None None x)) (\<lambda>r. Inr (acc @ [r]))) xs []) (\<lambda>rs.
            sfold (\<lambda>r acc. sbind (as_iterable r) (\<lambda>it. Inr (acc @ [it]))) rs [])
      | _ \<Rightarrow> Inl (ValueError ''Invalid for_each expression. Must be an IterableExpr or a list of IterableExprs.''))"

end
