(* ===== verification/Expr_Policy.thy ===== *)
theory Expr_Policy
  imports Expr_Eval
begin

text \<open>
  Field policies and secret provenance of action arguments (\<open>tracecat/expressions/policy.py\<close>): the tries of
  secret dependencies, the provenance of template inputs, the three resolution policies and the
  evaluation of a step's arguments at the boundary of its target action.
\<close>

section \<open>Secret dependencies\<close>

datatype path_segment = Field string | Index int

type_synonym data_path = "path_segment list"

text \<open>A trie with the shape of the value: which nodes and which mappings' keys depend on a secret.\<close>

datatype secret_dependencies =
  Dependencies (dep_value: bool) (dep_keys: bool) (dep_children: "(path_segment \<times> secret_dependencies) list")

definition NO_DEPENDENCIES :: secret_dependencies where
  "NO_DEPENDENCIES = Dependencies False False []"

fun dep_secret :: "secret_dependencies \<Rightarrow> bool" where
  "dep_secret (Dependencies v k cs) = (v \<or> k \<or> list_ex (\<lambda>c. dep_secret (snd c)) cs)"

fun secret_values :: "secret_dependencies \<Rightarrow> bool" where
  "secret_values (Dependencies v k cs) = (v \<or> list_ex (\<lambda>c. secret_values (snd c)) cs)"

fun secret_keys :: "secret_dependencies \<Rightarrow> bool" where
  "secret_keys (Dependencies v k cs) = (k \<or> list_ex (\<lambda>c. secret_keys (snd c)) cs)"

definition nested :: "secret_dependencies \<Rightarrow> path_segment \<Rightarrow> secret_dependencies" where
  "nested d seg = (if dep_secret d then Dependencies False False [(seg, d)] else NO_DEPENDENCIES)"

fun select_from :: "bool \<Rightarrow> bool \<Rightarrow> secret_dependencies \<Rightarrow> data_path \<Rightarrow> secret_dependencies" where
  "select_from v k node [] =
     (if \<not> (v \<or> k) then node else Dependencies (dep_value node \<or> v) (dep_keys node \<or> k) (dep_children node))"
| "select_from v k node (seg # path) =
     select_from (v \<or> dep_value node) (k \<or> dep_keys node)
       (case map_of (dep_children node) seg of Some d \<Rightarrow> d | None \<Rightarrow> NO_DEPENDENCIES) path"

definition select :: "secret_dependencies \<Rightarrow> data_path \<Rightarrow> secret_dependencies" where
  "select d path = select_from False False d path"

definition collapsed :: "secret_dependencies \<Rightarrow> secret_dependencies" where
  "collapsed d = Dependencies (secret_values d) (secret_keys d) []"

fun without_values :: "secret_dependencies \<Rightarrow> secret_dependencies" where
  "without_values (Dependencies v k cs) =
     Dependencies False k (filter (\<lambda>c. dep_secret (snd c)) (map (\<lambda>c. (fst c, without_values (snd c))) cs))"

text \<open>\<open>merged\<close>: the union, seg by seg. Segments keep the order in which they first occur.\<close>

definition grouped :: "secret_dependencies list \<Rightarrow> path_segment \<Rightarrow> secret_dependencies list" where
  "grouped items seg = concat (map (\<lambda>d. map snd (filter (\<lambda>c. fst c = seg) (dep_children d))) items)"

definition segments :: "secret_dependencies list \<Rightarrow> path_segment list" where
  "segments items = rev (remdups (rev (concat (map (\<lambda>d. map fst (dep_children d)) items))))"

lemma size_group_item:
  "sum_list (map size (map snd (filter (\<lambda>c. fst c = s) (dep_children d)))) < size d"
proof (cases d)
  case (Dependencies v k cs)
  have "sum_list (map size (map snd (filter (\<lambda>c. fst c = s) cs))) \<le> size_list (size_prod (\<lambda>_. 0) size) cs"
    by (induction cs) auto
  then show ?thesis by (simp add: Dependencies)
qed

lemma size_group: "grouped items s \<noteq> [] \<Longrightarrow> sum_list (map size (grouped items s)) < sum_list (map size items)"
proof (induction items)
  case (Cons d items)
  have le: "sum_list (map size (grouped items s)) \<le> sum_list (map size items)"
  proof (cases "grouped items s = []")
    case False
    with Cons.IH show ?thesis by simp
  qed simp
  with size_group_item [of s d] show ?case by (simp add: grouped_def)
qed (simp add: grouped_def)

lemma group_nonempty: "s \<in> set (segments items) \<Longrightarrow> grouped items s \<noteq> []"
  by (fastforce simp: segments_def grouped_def filter_empty_conv)

function merged :: "secret_dependencies list \<Rightarrow> secret_dependencies" where
  "merged items =
     Dependencies (list_ex dep_value items) (list_ex dep_keys items)
       (map (\<lambda>s. (s, merged (grouped items s))) (segments items))"
  by pat_completeness auto
termination by (relation "measure (\<lambda>items. sum_list (map size items))") (auto simp: size_group group_nonempty)

declare merged.simps [simp del, code del]

text \<open>The equations for evaluation: the empty list ends the recursion.\<close>

lemma merged_code [code]:
  "merged [] = NO_DEPENDENCIES"
  "merged (d # ds) = Dependencies (list_ex dep_value (d # ds)) (list_ex dep_keys (d # ds))
     (map (\<lambda>s. (s, merged (grouped (d # ds) s))) (segments (d # ds)))"
  by (simp_all add: merged.simps [of "[]"] merged.simps [of "d # ds"] NO_DEPENDENCIES_def segments_def)

section \<open>Paths into inputs\<close>

text \<open>
  The regular expression \<open>_PATH_SEGMENT\<close>: a field name, a quoted field, an index or a quoted key; with the
  text behind the match. \<open>literal_eval\<close> is \<open>ast.literal_eval\<close> on a quoted text.
\<close>

datatype segment_match = MatchField string | MatchIndex int | MatchQuoted string

definition name_start :: "char \<Rightarrow> bool" where
  "name_start c \<longleftrightarrow> (let n = (of_char c :: nat) in (65 \<le> n \<and> n \<le> 90) \<or> (97 \<le> n \<and> n \<le> 122) \<or> n = 95)"

definition name_char :: "char \<Rightarrow> bool" where
  "name_char c \<longleftrightarrow> name_start c \<or> is_digit c"

text \<open>The text up to the closing quote, which escapes skip.\<close>

fun quoted_rest :: "char \<Rightarrow> string \<Rightarrow> (string \<times> string) option" where
  "quoted_rest q [] = None"
| "quoted_rest q (c # cs) =
     (if c = q then Some ([c], cs)
      else if c = CHR 0x5C
      then (case cs of
              [] \<Rightarrow> None
            | d # ds \<Rightarrow> if d = CHR 0x0A then None else map_option (\<lambda>(t, r). (c # d # t, r)) (quoted_rest q ds))
      else map_option (\<lambda>(t, r). (c # t, r)) (quoted_rest q cs))"

definition match_quoted :: "string \<Rightarrow> (string \<times> string) option" where
  "match_quoted s =
     (case s of
        c # cs \<Rightarrow> if c = CHR 0x22 \<or> c = CHR 0x27 then map_option (\<lambda>(t, r). (c # t, r)) (quoted_rest c cs) else None
      | [] \<Rightarrow> None)"

definition match_segment :: "string \<Rightarrow> (segment_match \<times> string) option" where
  "match_segment s =
     (case s of
        c # cs \<Rightarrow>
          if c = CHR ''.''
          then (if cs \<noteq> [] \<and> name_start (hd cs) then Some (MatchField (takeWhile name_char cs), dropWhile name_char cs)
                else map_option (\<lambda>(t, r). (MatchQuoted t, r)) (match_quoted cs))
          else if c = CHR ''[''
          then (let digits = (if starts_with ''-'' cs then tl cs else cs); ds = takeWhile is_digit digits; r = dropWhile is_digit digits
                in if ds \<noteq> [] \<and> starts_with '']'' r
                   then Some (MatchIndex (let n = (case py_int ds of Some i \<Rightarrow> i | None \<Rightarrow> 0) in if starts_with ''-'' cs then - n else n), tl r)
                   else (case match_quoted cs of
                           Some (t, r) \<Rightarrow> if starts_with '']'' r then Some (MatchQuoted t, tl r) else None
                         | None \<Rightarrow> None))
          else None
      | [] \<Rightarrow> None)"

lemma quoted_rest_length: "quoted_rest q s = Some (t, r) \<Longrightarrow> length r < length s"
  by (induction q s arbitrary: t r rule: quoted_rest.induct) (fastforce split: if_splits list.splits)+

lemma match_quoted_length: "match_quoted s = Some (t, r) \<Longrightarrow> length r < length s"
  by (auto simp: match_quoted_def dest!: quoted_rest_length split: list.splits if_splits)

lemma match_segment_length: "match_segment s = Some (m, r) \<Longrightarrow> length r < length s"
proof -
  have le: "length (dropWhile P xs) \<le> length xs" for P and xs :: string by (rule length_dropWhile_le)
  have tl: "length (tl xs) \<le> length xs" for xs :: string by simp
  assume "match_segment s = Some (m, r)"
  then show ?thesis
    by (auto simp: match_segment_def Let_def less_Suc_eq_le dest!: match_quoted_length split: list.splits if_splits option.splits
        intro: le order_trans [OF le] order_trans [OF tl])
qed

section \<open>Provenance\<close>

record input_provenance =
  source :: pyval
  dependencies :: secret_dependencies

type_synonym provenance_map = "(string, input_provenance) dict"

record input_ref =
  selector :: string
  concrete_path :: "data_path option"
  concrete_prefix :: data_path

record input_selection =
  source_found :: bool
  sel_source :: pyval
  sel_dependencies :: secret_dependencies

record policy_env =
  pe_expr :: expr_env
  literal_eval :: "string \<Rightarrow> exn + pyval"

function parse_path_segments :: "policy_env \<Rightarrow> string \<Rightarrow> data_path \<Rightarrow> exn + data_path option \<times> data_path" where
  "parse_path_segments env suf path =
     (if suf = [] then Inr (Some path, path)
      else case match_segment suf of
             None \<Rightarrow> Inr (None, path)
           | Some (MatchField f, rest) \<Rightarrow> parse_path_segments env rest (path @ [Field f])
           | Some (MatchIndex i, rest) \<Rightarrow> parse_path_segments env rest (path @ [Index i])
           | Some (MatchQuoted q, rest) \<Rightarrow>
               sbind (literal_eval env q) (\<lambda>v.
                 case v of
                   VStr s \<Rightarrow> if s = ''*'' then Inr (None, path) else parse_path_segments env rest (path @ [Field s])
                 | _ \<Rightarrow> Inr (None, path)))"
  by pat_completeness auto
termination
  by (relation "measure (\<lambda>(_, s, _). length s)") (auto dest: match_segment_length)

declare parse_path_segments.simps [simp del]

definition parse_input_ref :: "policy_env \<Rightarrow> string \<Rightarrow> exn + input_ref" where
  "parse_input_ref env path =
     sbind (parse_path_segments env path []) (\<lambda>(p, pre).
       Inr \<lparr>selector = path, concrete_path = p, concrete_prefix = pre\<rparr>)"

text \<open>A reference that is the whole expression.\<close>

definition direct_input_ref :: "policy_env \<Rightarrow> root \<Rightarrow> exn + input_ref option" where
  "direct_input_ref env t =
     (case t of Plain (InputsRef path) \<Rightarrow> sbind (parse_input_ref env path) (\<lambda>r. Inr (Some r)) | _ \<Rightarrow> Inr None)"

fun normalize_path :: "data_path \<Rightarrow> pyval \<Rightarrow> data_path option" where
  "normalize_path [] current = Some []"
| "normalize_path (Index i # path) (VList xs) =
     (let j = (if i \<ge> 0 then i else int (length xs) + i)
      in if 0 \<le> j \<and> j < int (length xs)
         then map_option (\<lambda>p. Index j # p) (normalize_path path (xs ! nat j)) else None)"
| "normalize_path (Field k # path) (VDict d) =
     (case dict_get d k of Some v \<Rightarrow> map_option (\<lambda>p. Field k # p) (normalize_path path v) | None \<Rightarrow> None)"
| "normalize_path _ _ = None"

definition normalize_negative_indices :: "data_path \<Rightarrow> pyval \<Rightarrow> data_path option" where
  "normalize_negative_indices path src =
     (if \<not> list_ex (\<lambda>s. case s of Index i \<Rightarrow> i < 0 | Field _ \<Rightarrow> False) path then Some path else normalize_path path src)"

definition root_dependencies :: "provenance_map \<Rightarrow> secret_dependencies" where
  "root_dependencies provenance =
     Dependencies False False (map (\<lambda>(p, b). (Field p, dependencies b)) (filter (\<lambda>(p, b). dep_secret (dependencies b)) provenance))"

definition select_input :: "policy_env \<Rightarrow> input_ref \<Rightarrow> provenance_map \<Rightarrow> input_selection" where
  "select_input env r provenance =
     (let sources = VDict (map (\<lambda>(p, b). (p, source b)) provenance);
          root_deps = root_dependencies provenance;
          deps = (case concrete_path r of
                    None \<Rightarrow> collapsed (select root_deps (concrete_prefix r))
                  | Some path \<Rightarrow>
                      (case normalize_negative_indices path sources of
                         None \<Rightarrow> collapsed root_deps
                       | Some dependency_path \<Rightarrow> select root_deps dependency_path))
      in case eval_jsonpath (pe_expr env) (''source'' @ selector r) [(''source'', sources)] True of
           Inl _ \<Rightarrow> \<lparr>source_found = False, sel_source = VNone, sel_dependencies = collapsed root_deps\<rparr>
         | Inr v \<Rightarrow> \<lparr>source_found = True, sel_source = v, sel_dependencies = deps\<rparr>)"

text \<open>\<open>tree.find_data(...)\<close>: all the nodes of an expression.\<close>

fun subexprs :: "expr \<Rightarrow> expr list" where
  "subexprs (FunctionCall f (Some es)) = FunctionCall f (Some es) # concat (map subexprs es)"
| "subexprs (ListExpr (Some es)) = ListExpr (Some es) # concat (map subexprs es)"
| "subexprs (DictExpr (Some kvs)) = DictExpr (Some kvs) # concat (map (\<lambda>kv. subexprs (snd kv)) kvs)"
| "subexprs (TypeCast t e) = TypeCast t e # subexprs e"
| "subexprs (Ternary a c b) = Ternary a c b # subexprs a @ subexprs c @ subexprs b"
| "subexprs (BinaryOp op a b) = BinaryOp op a b # subexprs a @ subexprs b"
| "subexprs (NotOp e) = NotOp e # subexprs e"
| "subexprs (NegOp e) = NegOp e # subexprs e"
| "subexprs (PosOp e) = PosOp e # subexprs e"
| "subexprs (Indexed e is) = Indexed e is # subexprs e @ concat (map subexprs is)"
| "subexprs e = [e]"

definition root_nodes :: "root \<Rightarrow> expr list" where
  "root_nodes t = (case t of Plain e \<Rightarrow> subexprs e | TrailingCast e _ \<Rightarrow> subexprs e | Iterator _ e \<Rightarrow> subexprs e)"

definition is_secrets_node :: "expr \<Rightarrow> bool" where
  "is_secrets_node e = (case e of SecretsRef _ \<Rightarrow> True | _ \<Rightarrow> False)"

definition input_paths :: "root \<Rightarrow> string list" where
  "input_paths t = concat (map (\<lambda>e. case e of InputsRef p \<Rightarrow> [p] | _ \<Rightarrow> []) (root_nodes t))"

definition tree_dependencies :: "policy_env \<Rightarrow> root \<Rightarrow> provenance_map option \<Rightarrow> exn + secret_dependencies" where
  "tree_dependencies env t provenance =
     (let direct = map (\<lambda>_. Dependencies True False []) (filter is_secrets_node (root_nodes t))
      in case provenance of
           None \<Rightarrow> Inr (merged direct)
         | Some prov \<Rightarrow>
             sbind (sfold (\<lambda>path acc. sbind (parse_input_ref env path) (\<lambda>r. Inr (acc @ [sel_dependencies (select_input env r prov)])))
               (input_paths t) direct) (\<lambda>collected. Inr (merged collected)))"

text \<open>
  \<open>_standalone_expression\<close>: both patterns together accept a string that is one template whose text, without
  the surrounding white space, has no line break and opens no other template.
\<close>

definition standalone_expression :: "string \<Rightarrow> string option" where
  "standalone_expression s =
     (let m = take (length s - 5) (drop 3 s); core = py_strip m
      in if 5 \<le> length s \<and> starts_with ''${{'' s \<and> ends_with ''}}'' s \<and> CHR 0x0A \<notin> set core \<and> \<not> sublist ''${{'' core
         then (if m = [] then None else Some (if core = [] then [last m] else core))
         else None)"

definition template_input_ref :: "policy_env \<Rightarrow> string \<Rightarrow> exn + input_ref option" where
  "template_input_ref env s =
     (case standalone_expression s of
        None \<Rightarrow> Inr None
      | Some e \<Rightarrow> sbind (parse_expression (pe_expr env) e) (direct_input_ref env))"

text \<open>The dependencies of a string: of the input it refers to, or of all its templates.\<close>

definition string_dependencies :: "policy_env \<Rightarrow> provenance_map option \<Rightarrow> string \<Rightarrow> exn + secret_dependencies" where
  "string_dependencies env parent s =
     sbind (case parent of None \<Rightarrow> Inr None | Some prov \<Rightarrow> template_input_ref env s) (\<lambda>r.
       case (r, parent) of
         (Some r, Some prov) \<Rightarrow> Inr (sel_dependencies (select_input env r prov))
       | _ \<Rightarrow>
           sbind (sfold (\<lambda>e (v, k). sbind (parse_expression (pe_expr env) e) (\<lambda>t.
                    sbind (tree_dependencies env t parent) (\<lambda>d. Inr (v \<or> dep_secret d, k \<or> secret_keys d))))
                  (find_templates s) (False, False)) (\<lambda>(v, k). Inr (Dependencies v k [])))"

definition finish_mapping :: "bool \<Rightarrow> bool \<Rightarrow> secret_dependencies \<Rightarrow> secret_dependencies" where
  "finish_mapping secret_key dynamic_key m =
     (let m1 = (if secret_key then Dependencies (dep_value m) True (dep_children m) else m)
      in if dynamic_key \<and> secret_values m1
         then (let w = without_values m1 in Dependencies True (dep_keys w) (dep_children w)) else m1)"

fun derive_dependencies :: "policy_env \<Rightarrow> provenance_map option \<Rightarrow> pyval \<Rightarrow> exn + secret_dependencies"
  and derive_list :: "policy_env \<Rightarrow> provenance_map option \<Rightarrow> nat \<Rightarrow> pyval list \<Rightarrow> exn + secret_dependencies list"
  and derive_dict :: "policy_env \<Rightarrow> provenance_map option \<Rightarrow> bool \<Rightarrow> bool \<Rightarrow> (string \<times> pyval) list \<Rightarrow>
    exn + secret_dependencies list \<times> bool \<times> bool"
where
  "derive_dependencies env parent (VStr s) = string_dependencies env parent s"
| "derive_dependencies env parent (VList xs) = map_sum id merged (derive_list env parent 0 xs)"
| "derive_dependencies env parent (VDict d) =
     sbind (derive_dict env parent False False d) (\<lambda>(collected, secret_key, dynamic_key).
       Inr (finish_mapping secret_key dynamic_key (merged collected)))"
| "derive_dependencies env parent VNone = Inr NO_DEPENDENCIES"
| "derive_dependencies env parent (VBool b) = Inr NO_DEPENDENCIES"
| "derive_dependencies env parent (VInt i) = Inr NO_DEPENDENCIES"
| "derive_dependencies env parent (VFloat x) = Inr NO_DEPENDENCIES"
| "derive_dependencies env parent (VStored obj) = Inr NO_DEPENDENCIES"
| "derive_list env parent n [] = Inr []"
| "derive_list env parent n (x # xs) =
     sbind (derive_dependencies env parent x) (\<lambda>d.
     sbind (derive_list env parent (Suc n) xs) (\<lambda>ds. Inr (nested d (Index (int n)) # ds)))"
| "derive_dict env parent secret_key dynamic_key [] = Inr ([], secret_key, dynamic_key)"
| "derive_dict env parent secret_key dynamic_key ((k, x) # d) =
     sbind (if secret_key then Inr True else map_sum id dep_secret (string_dependencies env parent k)) (\<lambda>sk.
     sbind (derive_dependencies env parent x) (\<lambda>xd.
     sbind (derive_dict env parent sk (dynamic_key \<or> find_templates k \<noteq> []) d) (\<lambda>(collected, sk', dk').
       Inr (nested xd (Field k) # collected, sk', dk'))))"

section \<open>Policies\<close>

abbreviation SecretKeyError :: exn where
  "SecretKeyError \<equiv> ExpressionError ''Secret expressions are not allowed in dictionary keys''"

abbreviation masked :: eval_result where
  "masked \<equiv> Value (VStr MASK_VALUE)"

function mask_runtime_value :: "pyval \<Rightarrow> pyval" where
  "mask_runtime_value v =
     (case v of
        VDict d \<Rightarrow> VDict (map (\<lambda>kv. (fst kv, mask_runtime_value (snd kv))) d)
      | VList xs \<Rightarrow> VList (map mask_runtime_value xs)
      | _ \<Rightarrow> VStr MASK_VALUE)"
  by pat_completeness auto
termination
proof (relation "measure size")
  fix v d kv
  assume "v = VDict d" and "kv \<in> set d"
  from size_entry [OF this] show "(snd kv, v) \<in> measure size" by simp
next
  fix v xs x
  assume "v = VList xs" and "x \<in> set xs"
  from size_item [OF this] show "(x, v) \<in> measure size" by simp
qed simp

declare mask_runtime_value.simps [simp del]

definition collection_policy :: "policy_env \<Rightarrow> bool \<Rightarrow> policy" where
  "collection_policy env reject src t ordinary standalone =
     sbind (tree_dependencies env t None) (\<lambda>d.
       if dep_secret d then (if reject then Inl SecretKeyError else Inr masked) else Inr (Value (VStr src)))"

definition redaction_policy :: "policy_env \<Rightarrow> provenance_map \<Rightarrow> bool \<Rightarrow> policy" where
  "redaction_policy env provenance reject src t ordinary standalone =
     sbind (direct_input_ref env t) (\<lambda>r.
       case r of
         Some r \<Rightarrow>
           (let d = sel_dependencies (select_input env r provenance)
            in if \<not> dep_secret d then ordinary
               else if reject \<or> secret_keys d then Inl SecretKeyError
               else sbind ordinary (\<lambda>v. Inr (Value (mask_runtime_value (result_value (pe_expr env) v)))))
       | None \<Rightarrow>
           sbind (tree_dependencies env t (Some provenance)) (\<lambda>d.
             if dep_secret d then (if reject then Inl SecretKeyError else Inr masked) else ordinary))"

definition preserve_policy :: "policy_env \<Rightarrow> provenance_map \<Rightarrow> bool \<Rightarrow> policy" where
  "preserve_policy env provenance materialize_carrier src t ordinary standalone =
     sbind (direct_input_ref env t) (\<lambda>r.
       case r of
         Some r \<Rightarrow>
           (let sel = select_input env r provenance
            in if \<not> source_found sel then Inr (Value (VStr src))
               else if materialize_carrier \<and> standalone \<and> \<not> dep_secret (sel_dependencies sel) \<and>
                       (case sel_source sel of VStr s \<Rightarrow> standalone_expression s \<noteq> None | _ \<Rightarrow> False)
               then ordinary else Inr (Value (sel_source sel)))
       | None \<Rightarrow>
           if materialize_carrier \<and> standalone
           then sbind (tree_dependencies env t (Some provenance)) (\<lambda>d. if \<not> dep_secret d then ordinary else Inr (Value (VStr src)))
           else Inr (Value (VStr src)))"

definition is_safe_carrier :: "policy_env \<Rightarrow> pyval \<Rightarrow> provenance_map option \<Rightarrow> exn + bool" where
  "is_safe_carrier env v provenance =
     (case v of
        VStr s \<Rightarrow>
          (case standalone_expression s of
             None \<Rightarrow> Inr False
           | Some e \<Rightarrow>
               (case parse_expression (pe_expr env) e of
                  Inl x \<Rightarrow> if exn_class x = ''TracecatExpressionError'' then Inr False else Inl x
                | Inr t \<Rightarrow> map_sum id (\<lambda>d. \<not> dep_secret d) (tree_dependencies env t provenance)))
      | _ \<Rightarrow> Inr False)"

section \<open>Field policies\<close>

datatype expression_policy_kind = RESOLVE | PRESERVE | REDACT_SECRETS

definition PRESERVE_PARAMETERS :: "(string \<times> string) list" where
  "PRESERVE_PARAMETERS =
     [(''core.workflow.edit_workflow'', ''patch_ops''), (''core.workflow.create_workflow'', ''definition_yaml'')]"

definition CASE_FIELDS :: "string list" where
  "CASE_FIELDS = [''summary'', ''description'', ''fields'', ''payload'', ''tags'', ''dropdown_values'']"

definition REDACT_PARAMETERS :: "(string, string list) dict" where
  "REDACT_PARAMETERS =
     [(''core.workflow.create_workflow'', [''title'', ''description'']),
      (''core.cases.create_case'', CASE_FIELDS), (''core.cases.update_case'', CASE_FIELDS),
      (''core.cases.create_comment'', [''content'']), (''core.cases.reply_to_comment'', [''content'']),
      (''core.cases.update_comment'', [''content'']),
      (''core.cases.create_task'', [''title'', ''description'', ''default_trigger_values'']),
      (''core.cases.update_task'', [''title'', ''description'', ''default_trigger_values'']),
      (''core.cases.add_case_tag'', [''tag'']),
      (''core.cases.upload_attachment'', [''file_name'', ''content_base64'', ''content_type'']),
      (''core.cases.upload_attachment_from_url'', [''file_name'']),
      (''core.table.create_table'', [''name'', ''columns'']), (''core.table.update_table'', [''new_name'']),
      (''core.table.create_column'', [''column'']), (''core.table.update_column'', [''update'']),
      (''core.table.insert_row'', [''row_data'']), (''core.table.insert_rows'', [''rows_data'']),
      (''core.table.update_row'', [''row_data'']), (''core.cases.insert_row'', [''row'']),
      (''ai.agent.create_preset'',
        [''instructions'', ''name'', ''description'', ''slug'', ''model_name'', ''model_provider'', ''catalog_id'', ''base_url'',
         ''output_type'', ''actions'', ''namespaces'', ''tool_approvals'', ''mcp_integrations'', ''agents'', ''skills'']),
      (''ai.agent.update_preset'',
        [''instructions'', ''name'', ''description'', ''new_slug'', ''model_name'', ''model_provider'', ''catalog_id'', ''base_url'',
         ''output_type'', ''actions'', ''namespaces'', ''tool_approvals'', ''mcp_integrations'', ''agents'', ''skills'']),
      (''ai.skill.create_skill'', [''name'', ''description'']), (''ai.skill.publish_skill_version'', [''files''])]"

definition expression_policy :: "string \<Rightarrow> string \<Rightarrow> expression_policy_kind" where
  "expression_policy act parameter =
     (if (act, parameter) \<in> set PRESERVE_PARAMETERS then PRESERVE
      else if parameter \<in> set (get_default [] REDACT_PARAMETERS act) then REDACT_SECRETS
      else RESOLVE)"

section \<open>Arguments\<close>

definition resolve_parameter ::
  "policy_env \<Rightarrow> string \<Rightarrow> (string, pyval) dict \<Rightarrow> provenance_map \<Rightarrow> string \<Rightarrow> pyval \<Rightarrow> exn + pyval" where
  "resolve_parameter env act context provenance parameter v =
     (case expression_policy act parameter of
        RESOLVE \<Rightarrow> eval_templated_object (pe_expr env) context None None v
      | REDACT_SECRETS \<Rightarrow>
          eval_templated_object (pe_expr env) context (Some (redaction_policy env provenance False))
            (Some (redaction_policy env provenance True)) v
      | PRESERVE \<Rightarrow>
          sbind (is_safe_carrier env v (Some provenance)) (\<lambda>safe.
            eval_templated_object (pe_expr env) context (Some (preserve_policy env provenance safe)) None v))"

definition resolve_action_args ::
  "policy_env \<Rightarrow> string \<Rightarrow> (string, pyval) dict \<Rightarrow> (string, pyval) dict \<Rightarrow> provenance_map \<Rightarrow> exn + (string, pyval) dict" where
  "resolve_action_args env act arguments context provenance =
     sfold (\<lambda>(parameter, v) resolved.
       sbind (resolve_parameter env act context provenance parameter v) (\<lambda>r. Inr (dict_set parameter r resolved))) arguments []"

record argument_plan =
  plan_action :: string
  plan_original :: "(string, pyval) dict"
  plan_evaluable :: "(string, pyval) dict"

definition plan_build :: "policy_env \<Rightarrow> string \<Rightarrow> (string, pyval) dict \<Rightarrow> exn + argument_plan" where
  "plan_build env act arguments =
     sbind (sfold (\<lambda>(parameter, v) evaluable.
         case expression_policy act parameter of
           RESOLVE \<Rightarrow> Inr (dict_set parameter v evaluable)
         | REDACT_SECRETS \<Rightarrow>
             sbind (eval_templated_object (pe_expr env) [] (Some (collection_policy env False)) (Some (collection_policy env True)) v)
               (\<lambda>r. Inr (dict_set parameter r evaluable))
         | PRESERVE \<Rightarrow>
             sbind (is_safe_carrier env v None) (\<lambda>safe. Inr (if safe then dict_set parameter v evaluable else evaluable)))
       arguments []) (\<lambda>evaluable.
       Inr \<lparr>plan_action = act, plan_original = arguments, plan_evaluable = evaluable\<rparr>)"

definition plan_evaluate :: "policy_env \<Rightarrow> argument_plan \<Rightarrow> (string, pyval) dict \<Rightarrow> exn + (string, pyval) dict" where
  "plan_evaluate env plan context = resolve_action_args env (plan_action plan) (plan_original plan) context []"

definition build_provenance ::
  "policy_env \<Rightarrow> (string, pyval) dict \<Rightarrow> provenance_map option \<Rightarrow> exn + provenance_map" where
  "build_provenance env arguments parent =
     sfold (\<lambda>(parameter, v) provenance.
       sbind (derive_dependencies env parent v) (\<lambda>d.
       sbind (case parent of
                None \<Rightarrow> Inr v
              | Some prov \<Rightarrow> eval_templated_object (pe_expr env) [] (Some (preserve_policy env prov False)) None v) (\<lambda>src.
         Inr (dict_set parameter \<lparr>source = src, dependencies = d\<rparr> provenance)))) arguments []"

end
