(* ===== verification/Expr_Secrecy.thy ===== *)
theory Expr_Secrecy
  imports Expr_Policy
begin

text \<open>
  What the resolution policies guarantee: redacted and preserved arguments do not depend on the
  secrets in the context, provenance marks exactly the inputs whose source mentions a secret, and a
  template step that refers to such an input sees it masked.
\<close>

section \<open>Secret dependencies of merged tries\<close>

lemma dep_secret_iff: "dep_secret d \<longleftrightarrow> dep_value d \<or> dep_keys d \<or> (\<exists>c \<in> set (dep_children d). dep_secret (snd c))"
  by (cases d) (simp add: list_ex_iff)

lemma in_group: "x \<in> set (grouped items s) \<longleftrightarrow> (\<exists>d \<in> set items. (s, x) \<in> set (dep_children d))"
  by (force simp: grouped_def)

lemma in_segments: "s \<in> set (segments items) \<longleftrightarrow> (\<exists>d \<in> set items. \<exists>x. (s, x) \<in> set (dep_children d))"
  by (force simp: segments_def)

lemma merged_secret: "dep_secret (merged items) \<longleftrightarrow> (\<exists>d \<in> set items. dep_secret d)"
proof (induction items rule: merged.induct)
  case (1 items)
  have "dep_secret (merged items) \<longleftrightarrow> (\<exists>d \<in> set items. dep_value d) \<or> (\<exists>d \<in> set items. dep_keys d) \<or>
      (\<exists>s \<in> set (segments items). dep_secret (merged (grouped items s)))"
    by (subst merged.simps) (simp add: list_ex_iff)
  also have "(\<exists>s \<in> set (segments items). dep_secret (merged (grouped items s))) \<longleftrightarrow>
      (\<exists>s \<in> set (segments items). \<exists>x \<in> set (grouped items s). dep_secret x)"
    using 1 by blast
  also have "\<dots> \<longleftrightarrow> (\<exists>d \<in> set items. \<exists>c \<in> set (dep_children d). dep_secret (snd c))"
    by (force simp: in_group in_segments)
  finally show ?case using dep_secret_iff by blast
qed

lemma nested_secret [simp]: "dep_secret (nested d s) = dep_secret d"
  by (simp add: nested_def NO_DEPENDENCIES_def)

lemma no_dependencies_secret [simp]: "\<not> dep_secret NO_DEPENDENCIES"
  by (simp add: NO_DEPENDENCIES_def)

lemma secret_split: "dep_secret d \<longleftrightarrow> secret_values d \<or> secret_keys d"
  by (induction d rule: dep_secret.induct) (auto simp: list_ex_iff)

lemma collapsed_secret [simp]: "dep_secret (collapsed d) = dep_secret d"
  by (simp add: collapsed_def secret_split)

lemma finish_mapping_secret: "dep_secret (finish_mapping sk dk m) \<longleftrightarrow> sk \<or> dep_secret m"
  by (cases m) (auto simp: finish_mapping_def Let_def secret_split)


section \<open>Templates of a value\<close>

lemma find_templates_head:
  "find_templates s = (case head_template s of
     Some (src, e, t) \<Rightarrow> e # find_templates t
   | None \<Rightarrow> (case s of [] \<Rightarrow> [] | c # cs \<Rightarrow> find_templates cs))"
  by (subst find_templates.simps) (auto simp: head_template_def starts_with_iff split: option.splits list.splits)

lemma substitute_cong:
  "(\<And>src e. e \<in> set (find_templates s) \<Longrightarrow> ev src e = ev' src e) \<Longrightarrow> substitute env ev s = substitute env ev' s"
proof (induction env ev s rule: substitute.induct)
  case (1 env ev s)
  show ?case
  proof (cases "head_template s")
    case None
    then show ?thesis using 1 find_templates_head [of s]
      by (subst (1 2) substitute.simps) (auto split: list.splits)
  next
    case (Some m)
    obtain src e t where m: "m = (src, e, t)" by (cases m)
    have ft: "find_templates s = e # find_templates t" using find_templates_head [of s] Some m by simp
    have "ev src e = ev' src e" using "1.prems" ft by simp
    moreover have "substitute env ev t = substitute env ev' t" if "ev src e = Inr r" for r
      using "1.IH" Some m that "1.prems" ft by auto
    ultimately show ?thesis using Some m
      by (subst (1 2) substitute.simps) (auto cong: sbind_cong)
  qed
qed

lemma concat_map_concat: "concat (map f (concat (map g xs))) = concat (map (\<lambda>x. concat (map f (g x))) xs)"
  by (induction xs) simp_all

lemma traverse_expressions_simps [simp]:
  "traverse_expressions (VStr s) = find_templates s"
  "traverse_expressions (VList xs) = concat (map traverse_expressions xs)"
  "traverse_expressions (VDict d) = concat (map (\<lambda>kv. find_templates (fst kv) @ traverse_expressions (snd kv)) d)"
  by (simp_all add: traverse_expressions_def [abs_def] traverse_nodes.simps [of "VStr s"] traverse_nodes.simps [of "VList xs"]
      traverse_nodes.simps [of "VDict d"] concat_map_concat)

definition same_on :: "string set \<Rightarrow> (string \<Rightarrow> 'r) \<Rightarrow> (string \<Rightarrow> 'r) \<Rightarrow> bool" where
  "same_on T op op' \<longleftrightarrow> (\<forall>s. set (find_templates s) \<subseteq> T \<longrightarrow> op s = op' s)"

lemma eval_templated_cong:
  "same_on T op op' \<Longrightarrow> same_on T kop kop' \<Longrightarrow> set (traverse_expressions v) \<subseteq> T \<Longrightarrow>
     eval_templated_obj_rec env op kop v = eval_templated_obj_rec env op' kop' v"
  "same_on T op op' \<Longrightarrow> same_on T kop kop' \<Longrightarrow> \<forall>x \<in> set xs. set (traverse_expressions x) \<subseteq> T \<Longrightarrow>
     eval_templated_list env op kop xs = eval_templated_list env op' kop' xs"
  "same_on T op op' \<Longrightarrow> same_on T kop kop' \<Longrightarrow>
     \<forall>kv \<in> set d. set (find_templates (fst kv)) \<subseteq> T \<and> set (traverse_expressions (snd kv)) \<subseteq> T \<Longrightarrow>
     eval_templated_dict env op kop d acc = eval_templated_dict env op' kop' d acc"
proof (induction env op kop v and env op kop xs and env op kop d acc rule: eval_templated_obj_rec_eval_templated_list_eval_templated_dict.induct)
qed (auto simp: same_on_def UN_subset_iff cong: sbind_cong if_cong)

section \<open>Evaluation without secrets\<close>

definition agree_public :: "(string, pyval) dict \<Rightarrow> (string, pyval) dict \<Rightarrow> bool" where
  "agree_public c c' \<longleftrightarrow> (\<forall>k. k \<noteq> ''SECRETS'' \<longrightarrow> dict_get c k = dict_get c' k)"

definition public_roots :: "string list" where
  "public_roots = [''ACTIONS'', ''VARS'', ''ENV'', ''var'', ''TRIGGER'', ''inputs'', ''steps'']"

text \<open>The JSONPath texts of an expression.\<close>

fun node_path :: "expr \<Rightarrow> string list" where
  "node_path (ActionsRef p) = [p]"
| "node_path (VarsRef p) = [p]"
| "node_path (EnvRef p) = [p]"
| "node_path (LocalRef p) = [p]"
| "node_path (TriggerRef p) = [case p of None \<Rightarrow> [] | Some t \<Rightarrow> t]"
| "node_path (InputsRef p) = [p]"
| "node_path (StepsRef p) = [p]"
| "node_path _ = []"

definition root_paths :: "root \<Rightarrow> string list" where
  "root_paths t = concat (map node_path (root_nodes t))"

text \<open>A path that does not look into \<open>SECRETS\<close> from the other roots.\<close>

definition public_path :: "expr_env \<Rightarrow> string \<Rightarrow> bool" where
  "public_path env p \<longleftrightarrow>
     (\<forall>k \<in> set public_roots. \<forall>c c'. agree_public c c' \<longrightarrow> jsonpath_find env (k @ p) c = jsonpath_find env (k @ p) c')"

definition plain_node :: "expr_env \<Rightarrow> expr \<Rightarrow> bool" where
  "plain_node env e \<longleftrightarrow> \<not> is_secrets_node e \<and> (\<forall>p \<in> set (node_path e). public_path env p)"

text \<open>
  What is used of the parser and of \<open>jsonpath_ng\<close>: the paths in a syntax tree are pieces of the parsed text,
  and such a path, unless it has a named operator (in backquotes), stays below the root it starts at.
\<close>

definition expression_backend :: "expr_env \<Rightarrow> bool" where
  "expression_backend env \<longleftrightarrow>
     (\<forall>e t p. parse_expression env e = Inr t \<and> p \<in> set (root_paths t) \<longrightarrow>
        set p \<subseteq> set e \<and> (CHR 0x60 \<notin> set p \<longrightarrow> public_path env p))"

lemma transform_list_cong:
  "(\<And>e. e \<in> set es \<Longrightarrow> transform env c e = transform env c' e) \<Longrightarrow> transform_list env c es = transform_list env c' es"
  by (induction es) simp_all

lemma transform_pairs_cong:
  "(\<And>kv. kv \<in> set kvs \<Longrightarrow> transform env c (snd kv) = transform env c' (snd kv)) \<Longrightarrow>
     transform_pairs env c kvs = transform_pairs env c' kvs"
proof (induction kvs)
  case (Cons kv kvs)
  then show ?case by (cases kv) force
qed simp

lemma jsonpath_public:
  assumes "public_path env p" and "k \<in> set public_roots" and "agree_public c c'"
  shows "eval_jsonpath env (k @ p) c b = eval_jsonpath env (k @ p) c' b"
proof -
  have "jsonpath_find env (k @ p) c = jsonpath_find env (k @ p) c'" using assms unfolding public_path_def by blast
  then show ?thesis by (simp add: eval_jsonpath_def)
qed

lemma root_lookup_public:
  assumes "public_path env p" and "agree_public c c'"
  shows "eval_jsonpath env (''ACTIONS'' @ p) c b = eval_jsonpath env (''ACTIONS'' @ p) c' b"
    and "eval_jsonpath env (''VARS'' @ p) c b = eval_jsonpath env (''VARS'' @ p) c' b"
    and "eval_jsonpath env (''ENV'' @ p) c b = eval_jsonpath env (''ENV'' @ p) c' b"
    and "eval_jsonpath env (''var'' @ p) c b = eval_jsonpath env (''var'' @ p) c' b"
    and "eval_jsonpath env (''TRIGGER'' @ p) c b = eval_jsonpath env (''TRIGGER'' @ p) c' b"
    and "eval_jsonpath env (''inputs'' @ p) c b = eval_jsonpath env (''inputs'' @ p) c' b"
    and "eval_jsonpath env (''steps'' @ p) c b = eval_jsonpath env (''steps'' @ p) c' b"
  by (rule jsonpath_public [OF assms(1) _ assms(2)], simp add: public_roots_def)+

lemma transform_public:
  assumes "agree_public c c'"
  shows "\<forall>n \<in> set (subexprs e). plain_node env n \<Longrightarrow> transform env c e = transform env c' e"
proof (induction e)
  case (SecretsRef p)
  then show ?case by (simp add: plain_node_def is_secrets_node_def)
next
  case (ActionsRef p)
  then have "public_path env p" by (simp add: plain_node_def)
  then show ?case by (simp add: root_lookup_public [OF _ assms, simplified])
next
  case (VarsRef p)
  then have "public_path env p" by (simp add: plain_node_def)
  then show ?case by (simp add: root_lookup_public [OF _ assms, simplified])
next
  case (EnvRef p)
  then have "public_path env p" by (simp add: plain_node_def)
  then show ?case by (simp add: root_lookup_public [OF _ assms, simplified])
next
  case (LocalRef p)
  then have "public_path env p" by (simp add: plain_node_def)
  then show ?case by (simp add: root_lookup_public [OF _ assms, simplified])
next
  case (InputsRef p)
  then have "public_path env p" by (simp add: plain_node_def)
  then show ?case by (simp add: root_lookup_public [OF _ assms, simplified])
next
  case (StepsRef p)
  then have "public_path env p" by (simp add: plain_node_def)
  then show ?case by (simp add: root_lookup_public [OF _ assms, simplified])
next
  case (TriggerRef p)
  then have "public_path env (case p of None \<Rightarrow> [] | Some t \<Rightarrow> t)" by (simp add: plain_node_def)
  then show ?case by (simp add: root_lookup_public [OF _ assms, simplified])
next
  case (FunctionCall f es)
  then show ?case by (cases es) (auto simp: transform_list_cong [of _ env c c'])
next
  case (ListExpr es)
  then show ?case by (cases es) (auto simp: transform_list_cong [of _ env c c'])
next
  case (DictExpr kvs)
  then show ?case by (cases kvs) (auto simp: transform_pairs_cong [of _ env c c'] snds.simps)
next
  case (Indexed e es)
  have "transform_list env c es = transform_list env c' es"
    by (rule transform_list_cong) (use Indexed in auto)
  with Indexed show ?case by simp
qed (simp_all cong: if_cong)

lemma transform_root_public:
  assumes "agree_public c c'" and "\<forall>n \<in> set (root_nodes t). plain_node env n"
  shows "evaluate env c t = evaluate env c' t"
  using assms by (cases t) (auto simp: evaluate_def transform_root_def root_nodes_def dest!: transform_public)

section \<open>Policies without secrets\<close>

lemma collected_direct:
  assumes "sfold (\<lambda>path acc. sbind (parse_input_ref env path) (\<lambda>r. Inr (acc @ [f r]))) paths direct = Inr collected"
  shows "set direct \<subseteq> set collected"
  using assms by (rule sfold_invariant [where I = "\<lambda>a. set direct \<subseteq> set a"]) (auto simp: sbind_eq_Inr)

lemma secrets_node_dependency:
  assumes "tree_dependencies env t provenance = Inr d" and "n \<in> set (root_nodes t)" and "is_secrets_node n"
  shows "dep_secret d"
proof -
  let ?direct = "map (\<lambda>_. Dependencies True False []) (filter is_secrets_node (root_nodes t))"
  have direct: "Dependencies True False [] \<in> set ?direct" using assms(2,3) by force
  from assms(1) obtain collected where "d = merged collected" "set ?direct \<subseteq> set collected"
    by (auto simp: tree_dependencies_def Let_def sbind_eq_Inr dest: collected_direct split: option.splits)
  with direct show ?thesis by (auto simp: merged_secret intro!: bexI [of _ "Dependencies True False []"])
qed

text \<open>The contract of a policy that calls the ordinary evaluation only on expressions without a secret.\<close>

locale secret_free_policy =
  fixes p :: policy
  assumes secret_free: "n \<in> set (root_nodes t) \<Longrightarrow> is_secrets_node n \<Longrightarrow> p src t r standalone = p src t r' standalone"
begin

lemma expression_result_public:
  assumes "expression_backend env" and "agree_public c c'" and "CHR 0x60 \<notin> set e"
  shows "expression_result env c (Some p) src e standalone = expression_result env c' (Some p) src e standalone"
proof (cases "parse_expression env e")
  case (Inr t)
  have "p src t (evaluate env c t) standalone = p src t (evaluate env c' t) standalone"
  proof (cases "\<exists>n \<in> set (root_nodes t). is_secrets_node n")
    case True
    with secret_free show ?thesis by blast
  next
    case False
    have "\<forall>n \<in> set (root_nodes t). plain_node env n"
      using False assms(1,3) Inr by (fastforce simp: expression_backend_def plain_node_def root_paths_def)
    with transform_root_public assms(2) show ?thesis by metis
  qed
  with Inr show ?thesis by (simp add: expression_result_def)
qed (simp add: expression_result_def)

lemma string_operator_public:
  assumes "expression_backend env" and "agree_public c c'" and "\<forall>e \<in> T. CHR 0x60 \<notin> set e"
  shows "same_on T (string_operator env c (Some p)) (string_operator env c' (Some p))"
  unfolding same_on_def
proof (intro allI impI)
  fix s
  assume T: "set (find_templates s) \<subseteq> T"
  have res: "expression_result env c (Some p) src e sa = expression_result env c' (Some p) src e sa"
    if "e \<in> set (find_templates s)" for src e sa
    using expression_result_public [OF assms(1,2)] assms(3) T that by blast
  have "substitute env (\<lambda>src e. expression_result env c (Some p) src e False) s =
      substitute env (\<lambda>src e. expression_result env c' (Some p) src e False) s"
    by (rule substitute_cong) (rule res)
  moreover have "e \<in> set (find_templates s)" if "head_template s = Some (src, e, t)" for src e t
    using find_templates_head [of s] that by simp
  ultimately show "string_operator env c (Some p) s = string_operator env c' (Some p) s"
    using res by (auto simp: string_operator_def split: option.splits)
qed

end

lemma direct_input_ref_nodes: "direct_input_ref env t = Inr (Some r) \<Longrightarrow> n \<in> set (root_nodes t) \<Longrightarrow> is_secrets_node n \<Longrightarrow> False"
  by (auto simp: direct_input_ref_def root_nodes_def is_secrets_node_def split: root.splits expr.splits)

lemma secret_free_policyI:
  assumes "\<And>src t standalone r r'. direct_input_ref env t = Inr None \<Longrightarrow>
      (\<And>d. tree_dependencies env t (Some provenance) = Inr d \<Longrightarrow> dep_secret d) \<Longrightarrow>
      p src t r standalone = p src t r' standalone"
    and "\<And>src t standalone r r' x. direct_input_ref env t = Inl x \<Longrightarrow> p src t r standalone = p src t r' standalone"
  shows "secret_free_policy p"
proof
  fix n t src r standalone r'
  assume n: "n \<in> set (root_nodes t)" "is_secrets_node n"
  consider (none) "direct_input_ref env t = Inr None" | (error) x where "direct_input_ref env t = Inl x"
    using n by (cases "direct_input_ref env t") (auto dest: direct_input_ref_nodes)
  then show "p src t r standalone = p src t r' standalone"
    using assms n secrets_node_dependency by cases blast+
qed

interpretation redaction: secret_free_policy "redaction_policy env provenance reject" for env provenance reject
  by (rule secret_free_policyI [of env provenance]) (auto simp: redaction_policy_def intro!: sbind_cong)

interpretation preserve: secret_free_policy "preserve_policy env provenance materialize" for env provenance materialize
  by (rule secret_free_policyI [of env provenance]) (auto simp: preserve_policy_def intro!: sbind_cong)

lemma resolve_parameter_public:
  assumes "expression_backend (pe_expr env)" and "agree_public context context'"
    and "expression_policy act parameter \<noteq> RESOLVE"
    and "\<forall>e \<in> set (traverse_expressions v). CHR 0x60 \<notin> set e"
  shows "resolve_parameter env act context provenance parameter v = resolve_parameter env act context' provenance parameter v"
proof -
  note public = eval_templated_cong(1) [where T = "set (traverse_expressions v)"]
    redaction.string_operator_public [OF assms(1,2,4)] preserve.string_operator_public [OF assms(1,2,4)]
  show ?thesis using assms(3)
    by (auto simp: resolve_parameter_def eval_templated_object_def split: expression_policy_kind.splits
        intro!: sbind_cong public)
qed

text \<open>A loop that fills a dictionary from another one: every entry is the result of its iteration.\<close>

lemma fill_dict:
  assumes "sfold (\<lambda>(k, v) acc. sbind (f k v) (\<lambda>x. Inr (dict_set k x acc))) kvs acc = Inr r" and "distinct (map fst kvs)"
  shows "(\<forall>(k, v) \<in> set kvs. \<exists>x. f k v = Inr x \<and> dict_get r k = Some x) \<and> (\<forall>k. k \<notin> fst ` set kvs \<longrightarrow> dict_get r k = dict_get acc k)"
  using assms
proof (induction kvs arbitrary: acc)
  case (Cons kv kvs)
  obtain k v where kv: "kv = (k, v)" by (cases kv)
  with Cons.prems obtain x where x: "f k v = Inr x"
    and rest: "sfold (\<lambda>(k, v) acc. sbind (f k v) (\<lambda>x. Inr (dict_set k x acc))) kvs (dict_set k x acc) = Inr r"
    by (auto simp: sbind_eq_Inr)
  show ?case using Cons.IH [OF rest] Cons.prems(2) kv x by auto
qed simp

lemma resolved_arguments_public:
  assumes "expression_backend (pe_expr env)" and "agree_public context context'" and "distinct (map fst arguments)"
    and "(parameter, v) \<in> set arguments" and "expression_policy act parameter \<noteq> RESOLVE"
    and "\<forall>e \<in> set (traverse_expressions v). CHR 0x60 \<notin> set e"
    and "resolve_action_args env act arguments context provenance = Inr r"
    and "resolve_action_args env act arguments context' provenance = Inr r'"
  shows "dict_get r parameter \<noteq> None \<and> dict_get r parameter = dict_get r' parameter"
  using fill_dict [OF assms(7) [unfolded resolve_action_args_def] assms(3)]
    fill_dict [OF assms(8) [unfolded resolve_action_args_def] assms(3)] assms(4)
    resolve_parameter_public [OF assms(1,2,5,6)] by fastforce

text \<open>C19: secrets do not influence redacted and preserved arguments. In two runs whose contexts differ only in
  \<open>SECRETS\<close>, every parameter whose policy is not \<open>RESOLVE\<close> gets the same value, whatever the provenance of the
  inputs. (Templates with a JSONPath operator in backquotes are excluded.)
\<close>

theorem redacted_arguments_ignore_secrets:
  assumes "expression_backend (pe_expr env)" and "agree_public context context'" and "distinct (map fst arguments)"
    and "(parameter, v) \<in> set arguments" and "expression_policy act parameter \<noteq> RESOLVE"
    and "\<forall>e \<in> set (traverse_expressions v). CHR 0x60 \<notin> set e"
    and "resolve_action_args env act arguments context provenance = Inr r"
    and "resolve_action_args env act arguments context' provenance = Inr r'"
  shows "dict_get r parameter \<noteq> None \<and> dict_get r parameter = dict_get r' parameter"
  using assms by (rule resolved_arguments_public)

section \<open>A concrete parser and JSONPath engine\<close>

text \<open>
  Enough of the two third-party parts for concrete runs: expressions that are a single reference, and paths
  of fields with the operator \<open>`parent`\<close>, which returns to the enclosing object.
\<close>

definition sample_parse :: "string \<Rightarrow> exn + root" where
  "sample_parse e =
     (if starts_with ''SECRETS'' e then Inr (Plain (SecretsRef (drop 7 e)))
      else if starts_with ''ENV'' e then Inr (Plain (EnvRef (drop 3 e)))
      else if starts_with ''inputs'' e then Inr (Plain (InputsRef (drop 6 e)))
      else Inl (ExpressionError ''Failed to parse expression''))"

fun walk :: "pyval \<Rightarrow> pyval list \<Rightarrow> string list \<Rightarrow> pyval option" where
  "walk cur outer [] = Some cur"
| "walk cur outer (seg # segs) =
     (if seg = ''`parent`'' then (case outer of a # as \<Rightarrow> walk a as segs | [] \<Rightarrow> None)
      else (case cur of
              VDict d \<Rightarrow> (case dict_get d seg of Some v \<Rightarrow> walk v (cur # outer) segs | None \<Rightarrow> None)
            | _ \<Rightarrow> None))"

definition sample_find :: "string \<Rightarrow> (string, pyval) dict \<Rightarrow> pyval list option" where
  "sample_find path operand =
     Some (case walk (VDict operand) [] (split_on CHR ''.'' path) of Some v \<Rightarrow> [v] | None \<Rightarrow> [])"

definition sample_lib :: expr_lib where
  "sample_lib = \<lparr>lib_is = (\<lambda>x y. x = y), lib_str = (\<lambda>v. case v of VStr s \<Rightarrow> s | _ \<Rightarrow> ''?''),
     lib_float = (\<lambda>s. Inl (ValueError s)), lib_datetime = (\<lambda>v. Inr v), lib_str_mod = (\<lambda>s v. Inr (VStr s)),
     lib_stored_items = (\<lambda>_. []), lib_stored_leaves = (\<lambda>_. []), lib_function = (\<lambda>_. None)\<rparr>"

definition sample_env :: policy_env where
  "sample_env = \<lparr>pe_expr = \<lparr>lib = sample_lib, parse_expression = sample_parse, jsonpath_find = sample_find,
       has_filter_node = (\<lambda>_. False), iterable_value = (\<lambda>_. VNone), nonstring_key = (\<lambda>_. ''?'')\<rparr>,
     literal_eval = (\<lambda>s. Inr (VStr (unquote s)))\<rparr>"

lemma walk_above: "''`parent`'' \<notin> set segs \<Longrightarrow> walk cur outer segs = walk cur outer' segs"
proof (induction segs arbitrary: cur outer outer')
  case (Cons seg segs)
  then have "walk v (cur # outer) segs = walk v (cur # outer') segs" for v
    by (intro Cons.IH) simp
  with Cons.prems show ?case by (cases cur) (auto split: option.splits)
qed simp

lemma split_on_chars: "seg \<in> set (split_on c s) \<Longrightarrow> set seg \<subseteq> set s"
proof (induction c s arbitrary: seg rule: split_on.induct)
  case (2 c x xs)
  then show ?case by (cases "split_on c xs") (fastforce split: if_splits)+
qed simp

lemma split_on_head: "c \<notin> set k \<Longrightarrow> \<exists>r rs. split_on c (k @ p) = (k @ r) # rs"
proof (induction k)
  case Nil
  then show ?case by (cases "split_on c p") auto
qed (auto split: list.splits)

lemma sample_backend: "expression_backend (pe_expr sample_env)"
proof -
  have "public_path (pe_expr sample_env) p" if p: "CHR 0x60 \<notin> set p" for p
    unfolding public_path_def
  proof (intro ballI allI impI)
    fix k c c'
    assume k: "k \<in> set public_roots" and agree: "agree_public c c'"
    have kc: "CHR ''.'' \<notin> set k" "CHR 0x60 \<notin> set k" using k by (auto simp: public_roots_def)
    from split_on_head [OF kc(1)] obtain r rs where split: "split_on CHR ''.'' (k @ p) = (k @ r) # rs" by blast
    have "k @ r \<noteq> ''SECRETS''" using k by (auto simp: public_roots_def)
    then have get: "dict_get c (k @ r) = dict_get c' (k @ r)" using agree by (simp add: agree_public_def)
    have plain: "''`parent`'' \<notin> set (split_on CHR ''.'' (k @ p))"
      using split_on_chars [of "''`parent`''" "CHR ''.''" "k @ p"] kc(2) p by auto
    have "walk v [VDict c] rs = walk v [VDict c'] rs" for v
      by (rule walk_above) (use plain split in simp)
    then show "jsonpath_find (pe_expr sample_env) (k @ p) c = jsonpath_find (pe_expr sample_env) (k @ p) c'"
      using get plain split by (auto simp: sample_env_def sample_find_def split: option.splits)
  qed
  then show ?thesis
    by (auto simp: expression_backend_def sample_env_def sample_parse_def root_paths_def root_nodes_def
        dest: in_set_dropD split: if_splits)
qed

definition sample_context :: "string \<Rightarrow> (string, pyval) dict" where
  "sample_context key = [(''SECRETS'', VDict [(''api'', VDict [(''KEY'', VStr key)])]), (''ENV'', VDict [(''region'', VStr ''eu'')])]"

definition sample_arguments :: "(string, pyval) dict" where
  "sample_arguments = [(''content'', VStr ''${{ SECRETS.api.KEY }} in ${{ ENV.region }}''), (''case_id'', VStr ''7'')]"

lemma sample_resolved:
  "resolve_action_args sample_env ''core.cases.create_comment'' sample_arguments (sample_context ''s3cret'') [] =
     Inr [(''content'', VStr ''*** in eu''), (''case_id'', VStr ''7'')]"
  "resolve_action_args sample_env ''core.cases.create_comment'' sample_arguments (sample_context ''other'') [] =
     Inr [(''content'', VStr ''*** in eu''), (''case_id'', VStr ''7'')]"
  by code_simp+

lemma sample_templates:
  "find_templates ''${{ SECRETS.api.KEY }} in ${{ ENV.region }}'' = [''SECRETS.api.KEY'', ''ENV.region'']"
  by code_simp

lemma content_redacted: "expression_policy ''core.cases.create_comment'' ''content'' = REDACT_SECRETS"
  by code_simp

theorem redacted_arguments_ignore_secrets_witness:
  "\<exists>r r'. resolve_action_args sample_env ''core.cases.create_comment'' sample_arguments (sample_context ''s3cret'') [] = Inr r \<and>
     resolve_action_args sample_env ''core.cases.create_comment'' sample_arguments (sample_context ''other'') [] = Inr r' \<and>
     dict_get r ''content'' \<noteq> None \<and> dict_get r ''content'' = dict_get r' ''content''"
proof -
  have agree: "agree_public (sample_context ''s3cret'') (sample_context ''other'')"
    by (simp add: agree_public_def sample_context_def)
  have "(''content'', VStr ''${{ SECRETS.api.KEY }} in ${{ ENV.region }}'') \<in> set sample_arguments"
    and "distinct (map fst sample_arguments)" by (simp_all add: sample_arguments_def)
  with redacted_arguments_ignore_secrets [OF sample_backend agree _ _ _ _ sample_resolved] show ?thesis
    unfolding sample_resolved by (fastforce simp: content_redacted sample_templates)
qed

section \<open>Provenance of template inputs\<close>

definition mentions_secret :: "policy_env \<Rightarrow> string list \<Rightarrow> bool" where
  "mentions_secret env es \<longleftrightarrow>
     list_ex (\<lambda>e. case parse_expression (pe_expr env) e of Inl _ \<Rightarrow> False | Inr t \<Rightarrow> list_ex is_secrets_node (root_nodes t)) es"

lemma mentions_secret_simps [simp]:
  "\<not> mentions_secret env []"
  "mentions_secret env (es @ es') \<longleftrightarrow> mentions_secret env es \<or> mentions_secret env es'"
  "mentions_secret env (concat ess) \<longleftrightarrow> (\<exists>es \<in> set ess. mentions_secret env es)"
  by (auto simp: mentions_secret_def list_ex_iff)

lemma tree_dependencies_direct:
  "tree_dependencies env t None = Inr d \<Longrightarrow> dep_secret d \<longleftrightarrow> list_ex is_secrets_node (root_nodes t)"
  by (auto simp: tree_dependencies_def merged_secret list_ex_iff)

lemma templates_secret:
  assumes "sfold (\<lambda>e (v, k). sbind (parse_expression (pe_expr env) e) (\<lambda>t.
      sbind (tree_dependencies env t None) (\<lambda>d. Inr (v \<or> dep_secret d, k \<or> secret_keys d)))) es (v, k) = Inr (v', k')"
    and "k \<longrightarrow> v"
  shows "(v' \<longleftrightarrow> v \<or> mentions_secret env es) \<and> (k' \<longrightarrow> v')"
  using assms
proof (induction es arbitrary: v k)
  case (Cons e es)
  then obtain t d where t: "parse_expression (pe_expr env) e = Inr t" and d: "tree_dependencies env t None = Inr d"
    by (auto simp: sbind_eq_Inr)
  then show ?case
    using Cons.IH [of "v \<or> dep_secret d" "k \<or> secret_keys d"] Cons.prems tree_dependencies_direct [OF d] secret_split [of d]
    by (auto simp: mentions_secret_def)
qed (simp add: mentions_secret_def)

lemma string_dependencies_secret:
  assumes "string_dependencies env None s = Inr d"
  shows "dep_secret d \<longleftrightarrow> mentions_secret env (find_templates s)"
  using assms templates_secret [of env "find_templates s" False False]
  by (fastforce simp: string_dependencies_def sbind_eq_Inr)

lemma key_secret:
  assumes "(if sk then Inr True else map_sum id dep_secret (string_dependencies env None k)) = Inr sk1"
  shows "sk1 \<longleftrightarrow> sk \<or> mentions_secret env (find_templates k)"
  using assms string_dependencies_secret [of env k]
  by (cases "string_dependencies env None k") (auto split: if_splits)

lemma derive_secret:
  "derive_dependencies env parent x = Inr d \<Longrightarrow> parent = None \<Longrightarrow>
     dep_secret d \<longleftrightarrow> mentions_secret env (traverse_expressions x)"
  "derive_list env parent n xs = Inr ds \<Longrightarrow> parent = None \<Longrightarrow>
     (\<exists>d \<in> set ds. dep_secret d) \<longleftrightarrow> (\<exists>x \<in> set xs. mentions_secret env (traverse_expressions x))"
  "derive_dict env parent sk dk kvs = Inr (ds, sk', dk') \<Longrightarrow> parent = None \<Longrightarrow>
     sk' \<or> (\<exists>d \<in> set ds. dep_secret d) \<longleftrightarrow>
     sk \<or> (\<exists>kv \<in> set kvs. mentions_secret env (find_templates (fst kv)) \<or> mentions_secret env (traverse_expressions (snd kv)))"
proof (induction env parent x and env parent n xs and env parent sk dk kvs arbitrary: d and ds and ds sk' dk'
    rule: derive_dependencies_derive_list_derive_dict.induct)
  case (1 env parent s)
  then show ?case by (simp add: string_dependencies_secret)
next
  case (2 env parent xs)
  then show ?case by (auto simp: merged_secret map_sum_def split: sum.splits)
next
  case (3 env parent d)
  then show ?case by (fastforce simp: sbind_eq_Inr finish_mapping_secret merged_secret)
next
  case (12 env parent secret_key dynamic_key k x d)
  from "12.prems" obtain sk1 xd c where
      sk1: "(if secret_key then Inr True else map_sum id dep_secret (string_dependencies env None k)) = Inr sk1"
    and xd: "derive_dependencies env None x = Inr xd"
    and rest: "derive_dict env None sk1 (dynamic_key \<or> find_templates k \<noteq> []) d = Inr (c, sk', dk')"
    and ds: "ds = nested xd (Field k) # c"
    by (auto simp only: derive_dict.simps sbind_eq_Inr split_paired_Ex prod.case sum.inject prod.inject)
  have "dep_secret xd \<longleftrightarrow> mentions_secret env (traverse_expressions x)"
    using "12.IH"(1) [unfolded "12.prems"(2), OF sk1 xd refl] .
  moreover have "sk' \<or> (\<exists>d \<in> set c. dep_secret d) \<longleftrightarrow> sk1 \<or> (\<exists>kv \<in> set d. mentions_secret env (find_templates (fst kv)) \<or>
      mentions_secret env (traverse_expressions (snd kv)))"
    using "12.IH"(2) [unfolded "12.prems"(2), OF sk1 xd rest refl] .
  ultimately show ?case using key_secret [OF sk1] ds by auto
qed (auto simp: sbind_eq_Inr traverse_expressions_def traverse_nodes.simps)

text \<open>C20: provenance of the inputs of a template. The binding of an input that a workflow passes holds its source
  as written, and its trie marks a secret exactly if some template in the source (in a string or in a key)
  contains a reference to \<open>SECRETS\<close>.
\<close>

theorem provenance_tracks_secrets:
  assumes "build_provenance env arguments None = Inr provenance" and "distinct (map fst arguments)" and "(p, v) \<in> set arguments"
  shows "\<exists>b. dict_get provenance p = Some b \<and> source b = v \<and>
    (dep_secret (dependencies b) \<longleftrightarrow> mentions_secret env (traverse_expressions v))"
proof -
  have "sfold (\<lambda>(k, v) acc. sbind (sbind (derive_dependencies env None v) (\<lambda>d. Inr \<lparr>source = v, dependencies = d\<rparr>))
      (\<lambda>x. Inr (dict_set k x acc))) arguments [] = Inr provenance"
    using assms(1) by (simp add: build_provenance_def sbind_assoc)
  from fill_dict [OF this assms(2)] assms(3) show ?thesis
    using derive_secret(1) by (fastforce simp: sbind_eq_Inr)
qed

theorem provenance_tracks_secrets_witness:
  "\<exists>b. dict_get [(''content'', \<lparr>source = VStr ''${{ SECRETS.api.KEY }}'', dependencies = Dependencies True False []\<rparr>)] ''content'' = Some b \<and>
     source b = VStr ''${{ SECRETS.api.KEY }}'' \<and>
     (dep_secret (dependencies b) \<longleftrightarrow> mentions_secret sample_env (traverse_expressions (VStr ''${{ SECRETS.api.KEY }}'')))"
proof -
  have "build_provenance sample_env [(''content'', VStr ''${{ SECRETS.api.KEY }}'')] None =
      Inr [(''content'', \<lparr>source = VStr ''${{ SECRETS.api.KEY }}'', dependencies = Dependencies True False []\<rparr>)]"
    by code_simp
  from provenance_tracks_secrets [OF this] show ?thesis by simp
qed

section \<open>References to secret inputs\<close>

function leaves :: "pyval \<Rightarrow> pyval list" where
  "leaves v =
     (case v of
        VDict d \<Rightarrow> concat (map (\<lambda>kv. leaves (snd kv)) d)
      | VList xs \<Rightarrow> concat (map leaves xs)
      | _ \<Rightarrow> [v])"
  by pat_completeness auto
termination
proof (relation "measure size")
  fix v d kv
  assume "v = VDict d" and "kv \<in> set d"
  from size_entry [OF this] show "(snd kv, v) \<in> measure size" by simp
next
  fix v xs x
  assume "v = VList xs" and "x \<in> set xs"
  from size_item [OF this] show "(x, v) \<in> measure size" by simp
qed simp

declare leaves.simps [simp del]

lemma leaves_masked: "set (leaves (mask_runtime_value v)) \<subseteq> {VStr MASK_VALUE}"
proof (induction v rule: mask_runtime_value.induct)
  case (1 v)
  then show ?case
    by (cases v; subst mask_runtime_value.simps, subst leaves.simps) (simp_all, blast+)
qed

lemma parse_field_ref:
  assumes "p \<noteq> []" and "name_start (hd p)" and "list_all name_char p"
  shows "parse_input_ref env (''.'' @ p) =
    Inr \<lparr>selector = ''.'' @ p, concrete_path = Some [Field p], concrete_prefix = [Field p]\<rparr>"
proof -
  have "match_segment (''.'' @ p) = Some (MatchField p, [])"
    using assms by (simp add: match_segment_def list_all_iff)
  then show ?thesis
    by (simp add: parse_input_ref_def parse_path_segments.simps [of env "CHR ''.'' # p"] parse_path_segments.simps [of env "[]"])
qed

lemma root_dependencies_child:
  "dict_get provenance p = Some b \<Longrightarrow> dep_secret (dependencies b) \<Longrightarrow>
     map_of (dep_children (root_dependencies provenance)) (Field p) = Some (dependencies b)"
  unfolding root_dependencies_def by (induction provenance) (auto split: if_splits)

lemma select_input_secret:
  assumes "dict_get provenance p = Some b" and "dep_secret (dependencies b)"
    and "concrete_path r = Some [Field p]"
  shows "dep_secret (sel_dependencies (select_input env r provenance))"
proof -
  note child = root_dependencies_child [OF assms(1,2)]
  have "dep_secret (root_dependencies provenance)"
    using map_of_SomeD [OF child] assms(2) by (subst dep_secret_iff) force
  moreover have "dep_secret (select (root_dependencies provenance) [Field p])"
    using child assms(2) by (simp add: select_def root_dependencies_def)
  ultimately show ?thesis
    by (simp add: select_input_def Let_def assms(3) normalize_negative_indices_def split: sum.splits)
qed

lemma collected_input:
  assumes "sfold (\<lambda>path acc. sbind (g path) (\<lambda>r. Inr (acc @ [f r]))) paths a = Inr collected"
    and "path \<in> set paths" and "g path = Inr r"
  shows "f r \<in> set collected"
  using assms
proof (induction paths arbitrary: a)
  case (Cons q paths)
  then obtain r' where r': "g q = Inr r'"
    and rest: "sfold (\<lambda>path acc. sbind (g path) (\<lambda>r. Inr (acc @ [f r]))) paths (a @ [f r']) = Inr collected"
    by (auto simp: sbind_eq_Inr)
  have "set (a @ [f r']) \<subseteq> set collected"
    using rest by (rule sfold_invariant [where I = "\<lambda>c. set (a @ [f r']) \<subseteq> set c"]) (auto simp: sbind_eq_Inr)
  with Cons r' rest show ?case by auto
qed simp

text \<open>C21: a step of a template never sees a secret input through a redacted parameter. If the provenance of the
  input \<open>p\<close> has a secret, an expression that refers to \<open>inputs.p\<close>, alone or inside a larger expression, evaluates
  under the redaction policy to a value whose leaves are all masked, or raises; as a key it always raises.
\<close>

theorem secret_inputs_masked:
  assumes "p \<noteq> []" and "name_start (hd p)" and "list_all name_char p"
    and "dict_get provenance p = Some b" and "dep_secret (dependencies b)"
    and "InputsRef (''.'' @ p) \<in> set (root_nodes t)"
    and "redaction_policy env provenance reject src t ordinary standalone = Inr r"
  shows "\<not> reject \<and> set (leaves (result_value (pe_expr env) r)) \<subseteq> {VStr MASK_VALUE}"
proof -
  let ?ref = "\<lparr>selector = ''.'' @ p, concrete_path = Some [Field p], concrete_prefix = [Field p]\<rparr>"
  note ref = parse_field_ref [OF assms(1-3), of env]
  have sel: "dep_secret (sel_dependencies (select_input env ?ref provenance))"
    by (rule select_input_secret [OF assms(4,5)]) simp
  have masked: "set (leaves (VStr MASK_VALUE)) \<subseteq> {VStr MASK_VALUE}" by (subst leaves.simps) simp
  show ?thesis
  proof (cases "t = Plain (InputsRef (''.'' @ p))")
    case True
    then have "direct_input_ref env t = Inr (Some ?ref)" using ref by (simp add: direct_input_ref_def)
    with assms(7) sel obtain v where "\<not> reject" and "r = Value (mask_runtime_value v)"
      by (auto simp: redaction_policy_def Let_def sbind_eq_Inr split: if_splits)
    with leaves_masked show ?thesis by (simp add: result_value_def)
  next
    case False
    then have direct: "direct_input_ref env t = Inr None"
      using assms(6) by (auto simp: direct_input_ref_def root_nodes_def split: root.splits expr.splits)
    have path: "''.'' @ p \<in> set (input_paths t)" using assms(6) by (force simp: input_paths_def)
    have "dep_secret d" if "tree_dependencies env t (Some provenance) = Inr d" for d
      using that sel collected_input [where g = "parse_input_ref env" and path = "''.'' @ p" and paths = "input_paths t", OF _ path ref]
      by (fastforce simp: tree_dependencies_def Let_def sbind_eq_Inr merged_secret)
    with direct assms(7) masked show ?thesis
      by (auto simp: redaction_policy_def sbind_eq_Inr result_value_def split: if_splits)
  qed
qed

theorem secret_inputs_masked_witness:
  "redaction_policy sample_env [(''token'', \<lparr>source = VStr ''${{ SECRETS.api.KEY }}'', dependencies = Dependencies True False []\<rparr>)]
     False ''${{ inputs.token }}'' (Plain (InputsRef ''.token'')) (Inr (Value (VList [VStr ''s3cret'', VInt 4]))) True =
     Inr (Value (VList [VStr MASK_VALUE, VStr MASK_VALUE])) \<and>
   set (leaves (VList [VStr MASK_VALUE, VStr MASK_VALUE])) \<subseteq> {VStr MASK_VALUE}"
proof -
  have policy: "redaction_policy sample_env [(''token'', \<lparr>source = VStr ''${{ SECRETS.api.KEY }}'', dependencies = Dependencies True False []\<rparr>)]
      False ''${{ inputs.token }}'' (Plain (InputsRef ''.token'')) (Inr (Value (VList [VStr ''s3cret'', VInt 4]))) True =
      Inr (Value (VList [VStr MASK_VALUE, VStr MASK_VALUE]))"
    by code_simp
  from secret_inputs_masked [OF _ _ _ _ _ _ policy, of "''token''"]
  show ?thesis using policy by (simp add: root_nodes_def name_start_def name_char_def result_value_def)
qed

section \<open>Paths that leave their root\<close>

text \<open>C38: the redaction policy looks for references to \<open>SECRETS\<close> in the syntax tree, and the grammar lets the path
  of any other root contain the JSONPath operator \<open>`parent`\<close>. A redacted parameter with such a template
  resolves to the secret itself.
\<close>

theorem parent_path_bypasses_redaction:
  assumes "parse_expression (pe_expr env) ''ENV.`parent`.SECRETS.api.KEY'' = Inr (Plain (EnvRef ''.`parent`.SECRETS.api.KEY''))"
    and "jsonpath_find (pe_expr env) ''ENV.`parent`.SECRETS.api.KEY'' context = jsonpath_find (pe_expr env) ''SECRETS.api.KEY'' context"
    and "\<not> has_filter_node (pe_expr env) ''ENV.`parent`.SECRETS.api.KEY''" and "\<not> has_filter_node (pe_expr env) ''SECRETS.api.KEY''"
    and "eval_jsonpath (pe_expr env) ''SECRETS.api.KEY'' context False = Inr secret"
  shows "resolve_parameter env ''core.cases.create_comment'' context provenance ''content''
    (VStr ''${{ ENV.`parent`.SECRETS.api.KEY }}'') = Inr secret"
proof -
  let ?e = "''ENV.`parent`.SECRETS.api.KEY''" and ?s = "''${{ ENV.`parent`.SECRETS.api.KEY }}''"
  have template: "find_templates ?s = [?e]" "is_template_only ?s" "head_template ?s = Some (?s, ?e, [])"
    by code_simp+
  have "\<not> sublist ''[*]'' ?e" "\<not> sublist ''[?('' ?e" "\<not> sublist ''[?@'' ?e"
    "\<not> sublist ''[*]'' ''SECRETS.api.KEY''" "\<not> sublist ''[?('' ''SECRETS.api.KEY''" "\<not> sublist ''[?@'' ''SECRETS.api.KEY''"
    by (simp_all add: sublist_code)
  then have "eval_jsonpath (pe_expr env) ?e context False = Inr secret"
    using assms(2-5) by (auto simp: eval_jsonpath_def Let_def split: option.splits list.splits if_splits)
  moreover have "tree_dependencies env (Plain (EnvRef ''.`parent`.SECRETS.api.KEY'')) (Some provenance) = Inr NO_DEPENDENCIES"
    by (simp add: tree_dependencies_def root_nodes_def input_paths_def is_secrets_node_def merged_code)
  ultimately show ?thesis
    using assms(1) by (simp add: resolve_parameter_def content_redacted eval_templated_object_def string_operator_def template
        expression_result_def redaction_policy_def direct_input_ref_def evaluate_def transform_root_def result_value_def)
qed

theorem parent_path_bypasses_redaction_witness:
  "resolve_parameter sample_env ''core.cases.create_comment'' (sample_context ''s3cret'') [] ''content''
     (VStr ''${{ ENV.`parent`.SECRETS.api.KEY }}'') = Inr (VStr ''s3cret'') \<and>
   resolve_parameter sample_env ''core.cases.create_comment'' (sample_context ''s3cret'') [] ''content''
     (VStr ''${{ SECRETS.api.KEY }}'') = Inr (VStr MASK_VALUE)"
proof
  show "resolve_parameter sample_env ''core.cases.create_comment'' (sample_context ''s3cret'') [] ''content''
     (VStr ''${{ ENV.`parent`.SECRETS.api.KEY }}'') = Inr (VStr ''s3cret'')"
    by (rule parent_path_bypasses_redaction) code_simp+
  show "resolve_parameter sample_env ''core.cases.create_comment'' (sample_context ''s3cret'') [] ''content''
     (VStr ''${{ SECRETS.api.KEY }}'') = Inr (VStr MASK_VALUE)"
    by code_simp
qed

section \<open>Templates with text behind them\<close>

text \<open>
  A string that starts with a template, has no second one and ends in braces counts as a standalone
  template: the text between the template and the end is lost.
\<close>

lemma trailing_text_dropped:
  "string_operator env ctx policy ''${{ ENV.a }} and {{ b }}'' = string_operator env ctx policy ''${{ ENV.a }}''"
proof -
  have "find_templates ''${{ ENV.a }} and {{ b }}'' = [''ENV.a'']" "find_templates ''${{ ENV.a }}'' = [''ENV.a'']"
    "is_template_only ''${{ ENV.a }} and {{ b }}''" "is_template_only ''${{ ENV.a }}''"
    "head_template ''${{ ENV.a }} and {{ b }}'' = Some (''${{ ENV.a }}'', ''ENV.a'', '' and {{ b }}'')"
    "head_template ''${{ ENV.a }}'' = Some (''${{ ENV.a }}'', ''ENV.a'', [])"
    by code_simp+
  then show ?thesis by (simp add: string_operator_def)
qed

end
