(* ===== verification/Executor_Policy.thy ===== *)
theory Executor_Policy
  imports Expr_Secrecy Executor
begin

text \<open>
  The executor with the expression policies in place: the steps of
  \<open>executor/service.py\<close> that plan, trace and resolve arguments call \<open>expressions/policy.py\<close>. What the
  policies guarantee then holds of the context an action runs in.
\<close>

section \<open>Collection of secrets and variables\<close>

text \<open>
  The visitors of \<open>expressions/core.py\<close> that collect the secrets and variables of an expression. Their sets
  are lists without duplicates.
\<close>

definition strip_dots :: "string \<Rightarrow> string" where
  "strip_dots path = dropWhile (\<lambda>c. c = CHR ''.'') path"

definition secret_paths :: "root \<Rightarrow> string list" where
  "secret_paths t = concat (map (\<lambda>e. case e of SecretsRef path \<Rightarrow> [strip_dots path] | _ \<Rightarrow> []) (root_nodes t))"

definition variable_names :: "root \<Rightarrow> string list" where
  "variable_names t =
     concat (map (\<lambda>e. case e of VarsRef path \<Rightarrow> [takeWhile (\<lambda>c. c \<noteq> CHR ''.'') (strip_dots path)] | _ \<Rightarrow> []) (root_nodes t))"

definition collect_expressions :: "expr_env \<Rightarrow> pyval \<Rightarrow> exn + string list \<times> string list" where
  "collect_expressions env obj =
     sfold (\<lambda>e (secrets, variables). sbind (parse_expression env e) (\<lambda>t.
         Inr (remdups (secrets @ secret_paths t), remdups (variables @ variable_names t))))
       (traverse_expressions obj) ([], [])"

definition extract_templated_secrets :: "expr_env \<Rightarrow> pyval \<Rightarrow> exn + string list" where
  "extract_templated_secrets env obj =
     map_sum id sort (sfold (\<lambda>e secrets. sbind (parse_expression env e) (\<lambda>t. Inr (remdups (secrets @ secret_paths t))))
       (traverse_expressions obj) [])"

lemma secret_paths_empty: "secret_paths t = [] \<longleftrightarrow> \<not> list_ex is_secrets_node (root_nodes t)"
  by (auto simp: secret_paths_def list_ex_iff is_secrets_node_def split: expr.splits)

lemma collect_fold:
  assumes "sfold (\<lambda>e (secrets, variables). sbind (parse_expression env e) (\<lambda>t.
      Inr (remdups (secrets @ secret_paths t), remdups (variables @ variable_names t)))) es (ss, vs) = Inr (ss', vs')"
  shows "set ss' = set ss \<union> (\<Union>e \<in> set es. case parse_expression env e of Inl _ \<Rightarrow> {} | Inr t \<Rightarrow> set (secret_paths t))"
  using assms
proof (induction es arbitrary: ss vs)
  case (Cons e es)
  then obtain t where t: "parse_expression env e = Inr t" by (auto simp: sbind_eq_Inr)
  with Cons.IH [of "remdups (ss @ secret_paths t)" "remdups (vs @ variable_names t)"] Cons.prems show ?case by auto
qed simp

text \<open>A secret is fetched for a value exactly if one of its templates mentions a secret.\<close>

lemma collected_secrets:
  assumes "collect_expressions (pe_expr env) obj = Inr (ss, vs)"
  shows "ss = [] \<longleftrightarrow> \<not> mentions_secret env (traverse_expressions obj)"
proof -
  have "set ss = (\<Union>e \<in> set (traverse_expressions obj). case parse_expression (pe_expr env) e of Inl _ \<Rightarrow> {} | Inr t \<Rightarrow> set (secret_paths t))"
    using collect_fold [OF assms [unfolded collect_expressions_def]] by simp
  then have "ss = [] \<longleftrightarrow> (\<forall>e \<in> set (traverse_expressions obj).
      (case parse_expression (pe_expr env) e of Inl _ \<Rightarrow> {} | Inr t \<Rightarrow> set (secret_paths t)) = {})"
    by (metis (no_types, lifting) SUP_bot_conv(1) set_empty)
  then show ?thesis
    by (auto simp: mentions_secret_def list_ex_iff secret_paths_empty split: sum.splits)
qed

section \<open>The executor with its policies\<close>

text \<open>
  \<open>p\<close> gives the evaluation environment for a logical time and an interaction context, which the
  executor sets around the evaluation of arguments.
\<close>

definition with_policy ::
  "(pyval \<Rightarrow> pyval \<Rightarrow> policy_env) \<Rightarrow> input_provenance executor_env \<Rightarrow> input_provenance executor_env" where
  "with_policy p env =
     env\<lparr>ex_plan_build := (\<lambda>act arguments. map_sum id plan_evaluable (plan_build (p VNone VNone) act arguments)),
         ex_collect_expressions := (\<lambda>evaluable. collect_expressions (pe_expr (p VNone VNone)) (VDict evaluable)),
         ex_resolve_args := (\<lambda>logical_time interaction. resolve_action_args (p logical_time interaction)),
         ex_build_provenance := build_provenance (p VNone VNone)\<rparr>"

lemma with_policy_simps [simp]:
  "ex_resolve_action (with_policy p env) = ex_resolve_action env"
  "ex_collect_action_secrets (with_policy p env) = ex_collect_action_secrets env"
  "ex_plan_build (with_policy p env) act arguments = map_sum id plan_evaluable (plan_build (p VNone VNone) act arguments)"
  "ex_collect_expressions (with_policy p env) evaluable = collect_expressions (pe_expr (p VNone VNone)) (VDict evaluable)"
  "ex_get_action_secrets (with_policy p env) = ex_get_action_secrets env"
  "ex_resolve_args (with_policy p env) t i = resolve_action_args (p t i)"
  "get_workspace_variables (with_policy p env) = get_workspace_variables env"
  by (simp_all add: with_policy_def get_workspace_variables_def fun_eq_iff)

lemma logical_time_public:
  "logical_time_of (with_policy p env) (dict_set ''VARS'' x (dict_set ''SECRETS'' y c)) = logical_time_of env c"
  by (simp add: logical_time_of_def get_default_def with_policy_def cong: pyval.case_cong)

text \<open>The steps of \<open>prepare_resolved_context\<close> up to the evaluated arguments.\<close>

lemma prepared_arguments:
  assumes "prepare_resolved_context (with_policy p env) inp role = Inr prepared"
  obtains plan se ve secrets variables t where
    "plan_build (p VNone VNone) (action (ri_task inp)) (args (ri_task inp)) = Inr plan"
    "collect_expressions (pe_expr (p VNone VNone)) (VDict (plan_evaluable plan)) = Inr (se, ve)"
    "get_workspace_variables env ve (ri_environment inp) = Inr variables"
    "logical_time_of env (ri_exec_context inp) = Inr t"
    "resolve_action_args (p t (ri_interaction inp)) (action (ri_task inp)) (args (ri_task inp))
       (dict_set ''VARS'' (VDict variables) (dict_set ''SECRETS'' (VDict secrets) (ri_exec_context inp))) [] =
     Inr (rc_evaluated_args (pc_resolved_context prepared))"
proof (cases "plan_build (p VNone VNone) (action (ri_task inp)) (args (ri_task inp))")
  case (Inr plan)
  with assms that show thesis
    by (auto simp: prepare_resolved_context_def Let_def sbind_eq_Inr logical_time_public split: option.splits)
qed (use assms in \<open>auto simp: prepare_resolved_context_def Let_def sbind_eq_Inr split: option.splits\<close>)

text \<open>C18: the secrets a workspace holds do not reach the fields that an action stores. Let an action be
  prepared twice with the same inputs, with two secret stores that may return different secrets. A
  parameter whose policy is to redact or preserve has the same value in both contexts the action runs
  in. (Templates with a JSONPath operator in backquotes are excluded.)\<close>

theorem prepared_context_ignores_secrets:
  assumes "\<And>t i. expression_backend (pe_expr (p t i))" and "distinct (map fst (args (ri_task inp)))"
    and "(parameter, v) \<in> set (args (ri_task inp))"
    and "expression_policy (action (ri_task inp)) parameter \<noteq> RESOLVE"
    and "\<forall>e \<in> set (traverse_expressions v). CHR 0x60 \<notin> set e"
    and "prepare_resolved_context (with_policy p env) inp role = Inr prepared"
    and "prepare_resolved_context (with_policy p (env\<lparr>ex_get_action_secrets := store\<rparr>)) inp role = Inr prepared'"
  shows "dict_get (rc_evaluated_args (pc_resolved_context prepared)) parameter \<noteq> None \<and>
    dict_get (rc_evaluated_args (pc_resolved_context prepared)) parameter =
    dict_get (rc_evaluated_args (pc_resolved_context prepared')) parameter"
proof -
  from prepared_arguments [OF assms(6)] obtain plan se ve secrets variables t where
    run: "plan_build (p VNone VNone) (action (ri_task inp)) (args (ri_task inp)) = Inr plan"
      "collect_expressions (pe_expr (p VNone VNone)) (VDict (plan_evaluable plan)) = Inr (se, ve)"
      "get_workspace_variables env ve (ri_environment inp) = Inr variables"
      "logical_time_of env (ri_exec_context inp) = Inr t"
      "resolve_action_args (p t (ri_interaction inp)) (action (ri_task inp)) (args (ri_task inp))
         (dict_set ''VARS'' (VDict variables) (dict_set ''SECRETS'' (VDict secrets) (ri_exec_context inp))) [] =
       Inr (rc_evaluated_args (pc_resolved_context prepared))" .
  have same: "get_workspace_variables (env\<lparr>ex_get_action_secrets := store\<rparr>) = get_workspace_variables env"
    "logical_time_of (env\<lparr>ex_get_action_secrets := store\<rparr>) = logical_time_of env"
    by (simp_all add: get_workspace_variables_def logical_time_of_def fun_eq_iff cong: pyval.case_cong)
  let ?env = "env\<lparr>ex_get_action_secrets := store\<rparr>"
  from prepared_arguments [OF assms(7)] obtain plan' se' ve' secrets' variables' t' where
    other: "plan_build (p VNone VNone) (action (ri_task inp)) (args (ri_task inp)) = Inr plan'"
      "collect_expressions (pe_expr (p VNone VNone)) (VDict (plan_evaluable plan')) = Inr (se', ve')"
      "get_workspace_variables ?env ve' (ri_environment inp) = Inr variables'"
      "logical_time_of ?env (ri_exec_context inp) = Inr t'"
      "resolve_action_args (p t' (ri_interaction inp)) (action (ri_task inp)) (args (ri_task inp))
         (dict_set ''VARS'' (VDict variables') (dict_set ''SECRETS'' (VDict secrets') (ri_exec_context inp))) [] =
       Inr (rc_evaluated_args (pc_resolved_context prepared'))" .
  have "plan' = plan" using run(1) other(1) by simp
  with run(2) other(2) have "ve' = ve" by simp
  with run(3,4) other(3,4) have eq: "variables' = variables" "t' = t" by (simp_all add: same)
  note run' = other(5) [unfolded eq]
  have "agree_public (dict_set ''VARS'' (VDict variables) (dict_set ''SECRETS'' (VDict secrets) (ri_exec_context inp)))
      (dict_set ''VARS'' (VDict variables) (dict_set ''SECRETS'' (VDict secrets') (ri_exec_context inp)))"
    by (simp add: agree_public_def)
  from resolved_arguments_public [OF assms(1) this assms(2-5) run(5) run'] show ?thesis .
qed

definition sample_store :: "string \<Rightarrow> string list \<Rightarrow> string list \<Rightarrow> exn + (string, pyval) dict" where
  "sample_store key = (\<lambda>_ _. Inr [(''api'', VDict [(''KEY'', VStr key)])])"

definition sample_policy_env :: "input_provenance executor_env" where
  "sample_policy_env =
     \<lparr>ex_prefetch_lock = (\<lambda>_. Inr ()),
      ex_resolve_action = (\<lambda>_ _. Inr \<lparr>impl_type = ''udf'', template_definition = []\<rparr>),
      ex_collect_action_secrets = (\<lambda>_ _. Inr []),
      ex_plan_build = (\<lambda>_ d. Inr d),
      ex_collect_expressions = (\<lambda>_. Inr ([''api.KEY''], [])),
      ex_get_action_secrets = sample_store ''s3cret'',
      ex_search_variables = (\<lambda>_ _. Inr []),
      ex_resolve_args = (\<lambda>_ _ _ d _ _. Inr d),
      ex_build_provenance = (\<lambda>_ _. Inr []),
      ex_fromisoformat = (\<lambda>s. Inr (VStr s)),
      ex_preprocess = (\<lambda>_ d. Inr d),
      ex_flatten_secrets = (\<lambda>d. d),
      ex_str = (\<lambda>v. case v of VStr s \<Rightarrow> s | _ \<Rightarrow> []),
      ex_mint_token = (\<lambda>_ _ _ _ _ _. Inr ''token''),
      ex_template_validate = (\<lambda>_. Inl (ValueError [])),
      ex_validate_expects = (\<lambda>_ d. Inr d),
      ex_eval_returns = (\<lambda>_ v _. Inr v),
      ex_execute = (\<lambda>_ _. Inr (ExecutorResultSuccess VNone)),
      ex_last_frame = (\<lambda>_. ([], [], None)),
      ex_disable_masking = False\<rparr>"

definition sample_comment :: run_input where
  "sample_comment = \<lparr>ri_task = (new_stmt ''a'' ''core.cases.create_comment'')\<lparr>args := sample_arguments\<rparr>,
     ri_exec_context = [(''ENV'', VDict [(''region'', VStr ''eu'')])], ri_interaction = VNone,
     ri_wf_id = ''wf'', ri_wf_run_id = ''run'', ri_environment = ''default''\<rparr>"

lemma sample_comment_simps [simp]:
  "action (ri_task sample_comment) = ''core.cases.create_comment''" "args (ri_task sample_comment) = sample_arguments"
  "ri_exec_context sample_comment = [(''ENV'', VDict [(''region'', VStr ''eu'')])]" "ri_interaction sample_comment = VNone"
  by (simp_all add: sample_comment_def new_stmt_def)

lemma sample_plan:
  "\<exists>plan se. plan_build sample_env ''core.cases.create_comment'' sample_arguments = Inr plan \<and>
     collect_expressions (pe_expr sample_env) (VDict (plan_evaluable plan)) = Inr (se, [])"
proof -
  have "case plan_build sample_env ''core.cases.create_comment'' sample_arguments of
      Inr plan \<Rightarrow> (case collect_expressions (pe_expr sample_env) (VDict (plan_evaluable plan)) of Inr (se, ve) \<Rightarrow> ve = [] | Inl _ \<Rightarrow> False)
    | Inl _ \<Rightarrow> False" by code_simp
  then show ?thesis by (auto split: sum.splits)
qed

lemma sample_comment_resolved:
  "resolve_action_args sample_env ''core.cases.create_comment'' sample_arguments
     [(''ENV'', VDict [(''region'', VStr ''eu'')]), (''SECRETS'', VDict [(''api'', VDict [(''KEY'', VStr key)])]), (''VARS'', VDict [])] [] =
     Inr [(''content'', VStr ''*** in eu''), (''case_id'', VStr ''7'')]"
  if "key \<in> {''s3cret'', ''other''}"
  using that by (elim insertE emptyE; hypsubst) code_simp+

lemma sample_comment_prepared:
  assumes "key \<in> {''s3cret'', ''other''}"
  shows "\<exists>prepared. prepare_resolved_context (with_policy (\<lambda>_ _. sample_env) (sample_policy_env\<lparr>ex_get_action_secrets := sample_store key\<rparr>))
    sample_comment sample_role = Inr prepared"
proof -
  obtain plan se where plan: "plan_build sample_env ''core.cases.create_comment'' sample_arguments = Inr plan"
      "collect_expressions (pe_expr sample_env) (VDict (plan_evaluable plan)) = Inr (se, [])"
    using sample_plan by blast
  show ?thesis
    using sample_comment_resolved [OF assms]
    by (simp add: prepare_resolved_context_def plan sample_role_def sample_policy_env_def sample_store_def with_policy_def
        get_workspace_variables_def logical_time_of_def get_or_empty_def get_default_def
        project_secret_env_def mint_action_executor_token_def)
qed

theorem prepared_context_ignores_secrets_witness:
  "\<exists>prepared prepared'.
     prepare_resolved_context (with_policy (\<lambda>_ _. sample_env) sample_policy_env) sample_comment sample_role = Inr prepared \<and>
     prepare_resolved_context (with_policy (\<lambda>_ _. sample_env) (sample_policy_env\<lparr>ex_get_action_secrets := sample_store ''other''\<rparr>))
       sample_comment sample_role = Inr prepared' \<and>
     dict_get (rc_evaluated_args (pc_resolved_context prepared)) ''content'' =
     dict_get (rc_evaluated_args (pc_resolved_context prepared')) ''content''"
proof -
  have "sample_policy_env\<lparr>ex_get_action_secrets := sample_store ''s3cret''\<rparr> = sample_policy_env"
    by (simp add: sample_policy_env_def)
  with sample_comment_prepared [of "''s3cret''"] sample_comment_prepared [of "''other''"] obtain prepared prepared' where
    runs: "prepare_resolved_context (with_policy (\<lambda>_ _. sample_env) sample_policy_env) sample_comment sample_role = Inr prepared"
      "prepare_resolved_context (with_policy (\<lambda>_ _. sample_env) (sample_policy_env\<lparr>ex_get_action_secrets := sample_store ''other''\<rparr>))
         sample_comment sample_role = Inr prepared'" by auto
  have "distinct (map fst (args (ri_task sample_comment)))"
    and "(''content'', VStr ''${{ SECRETS.api.KEY }} in ${{ ENV.region }}'') \<in> set (args (ri_task sample_comment))"
    by (simp_all add: sample_arguments_def)
  from prepared_context_ignores_secrets [OF sample_backend this _ _ runs] runs show ?thesis
    by (simp add: content_redacted sample_templates)
qed

end
