(* ===== verification/Spec2Isabelle.thy ===== *)
theory Spec2Isabelle
  imports Dsl_Build Scheduler_Dag Scheduler_Loops Scheduler_Scatter Tiers Authz_Roles For_Each Executor_Policy
begin

text \<open>
  Tracecat runs automation workflows. A workflow is a graph of actions with join strategies, error
  paths, scatter/gather parallelism and do-while loops. Definitions are validated when they are saved
  (\<open>src/tracecat/dsl/common.py\<close>); a run is driven by a scheduler inside a Temporal workflow
  (\<open>dsl/scheduler.py\<close>), which reaches data and child workflows through activities
  (\<open>dsl/action.py\<close>) over externalised object storage (\<open>src/tracecat/storage/\<close>), takes permits from a
  per-organisation semaphore (\<open>src/tracecat/tiers/\<close>), and is guarded by scope-based authorisation
  (\<open>src/tracecat/authz/\<close>); single actions run in an executor
  (\<open>src/tracecat/executor/service.py\<close>), which evaluates their arguments in an expression language
  (\<open>src/tracecat/expressions/\<close>). This development models these eight parts and proves what makes each of
  them correct.

  \<^bold>\<open>Foundations.\<close> \<open>Prelude\<close>: dictionaries as association lists in insertion order, the error monad for code
  that raises (\<open>sbind\<close>, \<open>sfold\<close>), shared list lemmas. \<open>Py_String\<close>: the string operations of Python in use.
  \<open>Coroutine\<close>: asyncio coroutines as trees of awaits over a state, with rules for invariants; a raise
  keeps the state changes made before it. \<open>Streams\<close>: \<open>StreamID\<close>. \<open>Dsl_Values\<close>: values, stored objects, task
  results, error records, exceptions (\<open>storage/object.py\<close>, \<open>dsl/schemas.py\<close>, \<open>dsl/types.py\<close>).

  \<^bold>\<open>Workflow definitions.\<close> \<open>Dsl_Graph\<close>: statements, dependency references \<open>ref.success\<close>/\<open>ref.error\<close>, both
  adjacency builders. \<open>Dsl_Scopes\<close>: \<open>_assign_action_scopes\<close>, visit by visit; an accepted graph is acyclic
  and every acyclic graph of regular actions is accepted. \<open>Dsl_Expressions\<close>: which templates and \<open>ACTIONS\<close>
  references a value contains, with the expression parser as a parameter. \<open>Dsl_Validation\<close>:
  \<open>DSLInput.validate_structure\<close> with every check; the upward walks over scopes are partial functions, and
  termination is proved for the scope maps that the assignment builds. Accepted definitions have unique
  references, edges that respect scopes and synchronised loops. \<open>Dsl_Build\<close>: statements built from database
  actions, and the actions a trigger reaches.

  \<^bold>\<open>Scheduler.\<close> \<open>Scheduler\<close>: the state of \<open>DSLScheduler\<close> as a record and one definition per method; activities,
  the executor and timers are requests to the event loop (\<open>await\<close>). \<open>Scheduler_Queue\<close>: edge marking, join
  strategies, skip propagation and the error path. \<open>Scheduler_Frame\<close>: the locale \<open>sched_frame\<close> states what a
  relation on states must allow so that every handler preserves it; each invariant below is an
  interpretation of it. \<open>Scheduler_Run\<close>: the main loop as a step relation over the state, the pending
  coroutines and a program counter; any interleaving the event loop can produce is a run. Its invariants
  bound the pending tasks, keep the queue first-in first-out, exclude stuck states and determine the
  result of a run. \<open>Scheduler_Eval\<close>: a deterministic run for concrete workflows. \<open>Scheduler_Dag\<close>: workflows
  of regular actions run every action once, after its dependencies, except exactly the actions that
  repeat a dependency and those behind them, which never start; and their cycles are rejected by the
  constructor, not by the validator. \<open>Scheduler_Streams\<close>, \<open>Scheduler_Loops\<close>, \<open>Scheduler_Scatter\<close>: lookup
  of results through the stream hierarchy and the cap on loop iterations, the next iteration of a loop with the reset of its region, opening the streams of a scatter, and the barrier of a gather.

  \<^bold>\<open>Storage and activities.\<close> \<open>Storage_Blob\<close>: which storage errors are retried (a walk over a possibly cyclic
  graph of exceptions), the retry loop, the memory cache, the cached download (\<open>storage/utils.py\<close>,
  \<open>storage/blob.py\<close>). S3, the \<open>TTLCache\<close>, orjson, SHA-256 and the clock are fields of \<open>storage_env\<close> over an
  abstract world; the locale \<open>blob_world\<close> states their documented behaviour, with evictions at any time,
  and \<open>reliable_world\<close> adds that a download fails in transport at most twice in a row.
  \<open>Storage_Collection\<close>: the wire form of handles, manifests and chunks, writing and reading chunked
  collections, both storage backends (\<open>storage/collection.py\<close>, \<open>storage/object.py\<close>, \<open>storage/backends/\<close>).
  \<open>Storage_Memory\<close>: a concrete world on which both locales are interpreted, and the round trip of a
  collection. \<open>Activities\<close>: materialisation of contexts, scatter input, finalisation of a gather.
  \<open>Subflows\<close>: per-iteration arguments of looped child workflows; every child gets its own inputs.

  \<^bold>\<open>Execution of actions.\<close> \<open>Secrets_Mask\<close>: masking of secret values in nested results (\<open>secrets/common.py\<close>).
  \<open>Executor\<close>: the resolved context, template actions, one invocation with its error record and masked
  result; the registry, the stores, the expression policy and the backend are the fields of \<open>executor_env\<close>.
  Nested templates recurse up to a depth that stands for the interpreter's recursion limit. \<open>For_Each\<close>:
  dispatch, with the worker pool of a \<open>for_each\<close> as a step relation; its runs end, respect the concurrency
  limit and return the results in order, whatever the interleaving.

  \<^bold>\<open>Permits and limits.\<close> \<open>Tiers_Semaphore\<close>: \<open>RedisSemaphore\<close> with its Lua scripts over the locale \<open>zset\<close>
  (Redis sorted sets), refined to a set of leases (\<open>lease_semaphore\<close>): permits never exceed the limit.
  \<open>Tiers\<close>: resolution of limits and entitlements, the limits cache, the permit service and the waiting
  loop of the workflow, which ends within its deadline or in the \<open>OverflowError\<close> of its backoff.

  \<^bold>\<open>Authorisation.\<close> \<open>Authz_Scopes\<close>: scope syntax, matching (all of \<open>fnmatch\<close>), implied scopes, enforcement
  and the ceiling on grants, with the exact condition under which a grant exceeds it. \<open>Authz_Roles\<close>: the preset roles and the backfill of legacy roles.

  \<^bold>\<open>Expressions.\<close> \<open>Expr_Functions\<close>: operators, casts and the functions of \<open>expressions/functions.py\<close> that need no
  library, with Python's equality, ordering and truth across types. \<open>Expr_Eval\<close>: the syntax trees of
  the grammar, the visitor \<open>ExprEvaluator\<close>, JSONPath look-ups, and templates in strings, lists and
  dictionaries with the hook for a policy. \<open>Expr_Policy\<close>: all of \<open>expressions/policy.py\<close>: tries of secret
  dependencies, the provenance of template inputs, the policies resolve, preserve and redact, argument plans.
  \<open>Expr_Secrecy\<close>: the locale \<open>secret_free_policy\<close> is the contract of a policy that never evaluates an
  expression with a secret, interpreted on the redacting and the preserving policy; redacted arguments do
  not depend on the secrets of the context, provenance marks exactly the inputs that mention a secret, and
  references to them are masked. \<open>Executor_Policy\<close>: the collection of secrets and variables, and the
  policies in the executor: two secret stores give an action the same redacted arguments. The parser and \<open>jsonpath_ng\<close> enter through the hypothesis
  \<open>expression_backend\<close>; a path with an operator in backquotes is outside it, and one theorem shows why.

  \<^bold>\<open>How the parts meet.\<close> The scheduler's constructor runs the scope assignment of \<open>Dsl_Scopes\<close> again;
  \<open>Scheduler_Dag\<close> uses the acyclicity it gives. The gather requests of \<open>Scheduler\<close> carry the handles and the strategy
  that \<open>Activities.finalize_gather_activity\<close> takes, and its result is what the scheduler stores in the parent
  stream. Handles made by \<open>Activities\<close> and \<open>Subflows\<close> are read back through \<open>Storage_Collection\<close>.

  \<^bold>\<open>Idealisations.\<close> Strings are lists of 8-bit characters; floats are rationals, so \<open>math.ceil(count / size)\<close>
  is exact. Text of error messages is abbreviated where it prints arbitrary values. Loops that may not end
  are \<open>partial_function (option)\<close> (the scope walks), step relations (the scheduler), or carry a
  bound: \<open>retrieve_stored_object\<close> bounds the nesting of collections in collections, and depth 2 is enough
  for every collection the code itself writes (a chunked list of inline or external values); the
  retry loop is bounded by its three attempts. \<open>asyncio.gather\<close> over reads is taken in starting order, as
  the reads share nothing but the cache. The per-iteration contexts of a subflow and of a \<open>for_each\<close> are
  values: Python copies the operand shallowly, so a \<open>var\<close> dictionary that is already in it would be shared
  between iterations there. Reading a missing key of the \<open>defaultdict\<close> \<open>task_streams\<close> leaves no empty
  entry behind. \<open>RedisSemaphore.get_count\<close> prunes and counts in one step, where the source awaits the two
  calls separately; this concerns the returned count only. An error record built from a mapping keeps its
  stream identifier as it is. Of pydantic, the argument models of scatter, gather and loop end are
  modelled with their fields, defaults and bounds, over parameters that convert single values to \<open>int\<close>,
  \<open>float\<close> and \<open>bool\<close>.

  \<^bold>\<open>Not modelled.\<close> The Lark parser, \<open>jsonpath_ng\<close> and the expression functions that rest on a library (JSON, YAML,
  dates, hashes, regular expressions, IP addresses): they are parameters. Static validation of
  expressions. The Temporal workflow class around the scheduler except its permit
  loop, the executor backends and sandboxes (processes), agents and chat, cases, tables, integrations, the MCP server,
  workspace sync (HTTP, SQL and Git), the database models and the action registry. Of the storage
  layer: presigned URLs, lifecycle rules and S3 Select; of the activities: agent arguments and date parsing.
\<close>

end
